(* ===== verification/Prelude.thy ===== *)
theory Prelude
  imports Main "HOL-Library.Sublist" "HOL-Library.Char_ord" "HOL-Library.List_Lexorder"
    "HOL-Library.AList"
begin

text \<open>
  The vocabulary shared by every component of the development.

  Go strings are byte strings, so they are modelled by \<^typ>\<open>string\<close> (a list of
  8-bit characters) and compared bytewise by the lexicographic order of
  \<open>HOL-Library.List_Lexorder\<close>.  Go's \<open>error\<close> values are the datatype \<open>error\<close>: the
  sentinels the code compares with \<open>errors.Is\<close> have their own constructors, every
  other error carries its message.  A fallible call returns a sum, with \<open>Inl\<close> for the
  error; an operation that changes state also returns the new state.

  Also here: the functions of Go's standard library that the sources use on strings
  (\<open>strconv\<close>-style decimal printing, \<open>strings.IndexByte\<close>, \<open>strings.TrimPrefix\<close>),
  64-bit wrap-around, and the generic lemmas on lists and byte order the components
  share.
\<close>

named_theorems key_simps \<open>facts that evaluate and separate the store keys\<close>
named_theorems store_simps \<open>how a lawful store answers and what it holds afterwards\<close>
named_theorems lww_simps \<open>last-writer-wins selection\<close>

section \<open>Errors and results\<close>

datatype error =
    ErrNotFound
  | ErrStaleWrite
  | ErrAuthFailed
  | Errorf string
  | Wrap string error

fun errors_Is :: "error \<Rightarrow> error \<Rightarrow> bool" where
  "errors_Is (Wrap m e) t = (Wrap m e = t \<or> errors_Is e t)"
| "errors_Is e t = (e = t)"

type_synonym 'a result = "error + 'a"
type_synonym ('a, 's) outcome = "'a result \<times> 's"

section \<open>Integers\<close>

definition i64 :: "int \<Rightarrow> int" where
  "i64 x = (x + 2 ^ 63) mod 2 ^ 64 - 2 ^ 63"

definition in_i64 :: "int \<Rightarrow> bool" where
  "in_i64 x \<longleftrightarrow> - (2 ^ 63) \<le> x \<and> x < 2 ^ 63"

definition digit :: "nat \<Rightarrow> char" where
  "digit d = char_of (48 + d)"

fun dec :: "nat \<Rightarrow> string" where
  "dec n = (if n < 10 then [digit n] else dec (n div 10) @ [digit (n mod 10)])"

declare dec.simps [simp del]

definition itoa :: "int \<Rightarrow> string" where
  "itoa z = (if z < 0 then CHR ''-'' # dec (nat (- z)) else dec (nat z))"

definition zeros :: "nat \<Rightarrow> string" where
  "zeros n = replicate n (CHR ''0'')"

text \<open>\<open>pad19\<close> is the verb \<open>%019d\<close>: at least 19 columns, zero padded, the sign counted.\<close>

definition pad19 :: "int \<Rightarrow> string" where
  "pad19 z =
     (if z < 0 then (let d = dec (nat (- z)) in CHR ''-'' # zeros (18 - length d) @ d)
      else (let d = dec (nat z) in zeros (19 - length d) @ d))"

section \<open>Strings\<close>

abbreviation NUL :: char where "NUL \<equiv> CHR 0x00"

definition upto_char :: "char \<Rightarrow> string \<Rightarrow> string" where
  "upto_char c s = takeWhile (\<lambda>x. x \<noteq> c) s"

definition after_char :: "char \<Rightarrow> string \<Rightarrow> string" where
  "after_char c s = drop 1 (dropWhile (\<lambda>x. x \<noteq> c) s)"

definition TrimPrefix :: "string \<Rightarrow> string \<Rightarrow> string" where
  "TrimPrefix s p = (if prefix p s then drop (length p) s else s)"

definition HasSuffix :: "string \<Rightarrow> string \<Rightarrow> bool" where
  "HasSuffix s t = suffix t s"

definition nul_free :: "string \<Rightarrow> bool" where
  "nul_free s \<longleftrightarrow> NUL \<notin> set s"

section \<open>Lemmas on integers and decimal strings\<close>

lemma i64_id [simp]: "in_i64 x \<Longrightarrow> i64 x = x"
  by (simp add: i64_def in_i64_def)

lemma i64_range: "in_i64 (i64 x)"
proof -
  have "0 \<le> (x + 2 ^ 63) mod 2 ^ 64 \<and> (x + 2 ^ 63) mod 2 ^ 64 < (2::int) ^ 64"
    by (simp add: pos_mod_bound)
  then show ?thesis by (simp add: i64_def in_i64_def)
qed

lemma dec_nonempty [simp]: "dec n \<noteq> []"
  by (subst dec.simps) simp

lemma digit_less: "a < 10 \<Longrightarrow> b < 10 \<Longrightarrow> digit a < digit b \<longleftrightarrow> a < b"
  by (simp add: digit_def less_char_def)

lemma digit_eq: "a < 10 \<Longrightarrow> b < 10 \<Longrightarrow> digit a = digit b \<longleftrightarrow> a = b"
  by (metis digit_less nat_neq_iff less_irrefl)

lemma Nil_less_iff [simp]: "([] < s) = (s \<noteq> ([] :: string))"
  by (cases s) auto

lemma append_less_same [simp]: "(p @ x < p @ y) = (x < (y :: string))"
  by (induction p) auto

lemma append_le_same [simp]: "(p @ x \<le> p @ y) = (x \<le> (y :: string))"
  by (induction p) auto

lemma append_less_eqlen:
  "length a = length b \<Longrightarrow> (a @ x < b @ y) = (a < b \<or> a = b \<and> x < (y :: string))"
  by (induction a b rule: list_induct2) auto

lemma length_dec_mono: "n \<le> m \<Longrightarrow> length (dec n) \<le> length (dec m)"
proof (induction n arbitrary: m rule: dec.induct)
  case (1 n)
  show ?case
  proof (cases "n < 10")
    case True
    then have "length (dec n) = 1" by (simp add: dec.simps [of n])
    moreover have "1 \<le> length (dec m)" by (simp add: Suc_leI)
    ultimately show ?thesis by simp
  next
    case False
    with "1.prems" have "length (dec (n div 10)) \<le> length (dec (m div 10))"
      using "1.IH" by (simp add: div_le_mono)
    with False "1.prems" show ?thesis by (simp add: dec.simps [of n] dec.simps [of m])
  qed
qed

lemma length_dec_1: "length (dec n) = Suc 0 \<longleftrightarrow> n < 10"
  by (subst dec.simps) simp

lemma dec_inject [simp]: "dec n = dec m \<longleftrightarrow> n = m"
proof (induction n arbitrary: m rule: dec.induct)
  case (1 n)
  show ?case
  proof (cases "n < 10 \<or> m < 10")
    case True
    then show ?thesis
      using length_dec_1 [of n] length_dec_1 [of m]
      by (auto simp: dec.simps [of n] dec.simps [of m] digit_eq)
  next
    case False
    then have "dec n = dec m \<longleftrightarrow> n div 10 = m div 10 \<and> n mod 10 = m mod 10"
      using "1.IH" by (simp add: dec.simps [of n] dec.simps [of m] digit_eq)
    then show ?thesis by (metis div_mult_mod_eq)
  qed
qed

lemma lex_div_mod_10: "n div 10 < m div 10 \<or> n div 10 = m div 10 \<and> n mod 10 < m mod 10 \<longleftrightarrow> n < (m::nat)"
proof -
  define q r q' r' where "q = n div 10" and "r = n mod 10" and "q' = m div 10" and "r' = m mod 10"
  have "n = 10 * q + r" "m = 10 * q' + r'" "r < 10" "r' < 10"
    by (simp_all add: q_def r_def q'_def r'_def)
  then have "q < q' \<or> q = q' \<and> r < r' \<longleftrightarrow> n < m" by linarith
  then show ?thesis by (simp add: q_def r_def q'_def r'_def)
qed

lemma dec_less: "length (dec n) = length (dec m) \<Longrightarrow> dec n < dec m \<longleftrightarrow> n < m"
proof (induction n arbitrary: m rule: dec.induct)
  case (1 n)
  show ?case
  proof (cases "n < 10")
    case True
    with "1.prems" have "m < 10"
      by (cases "m < 10") (auto simp: dec.simps [of n] dec.simps [of m])
    with True show ?thesis by (simp add: dec.simps [of n] dec.simps [of m] digit_less)
  next
    case False
    with "1.prems" have m: "\<not> m < 10"
      by (cases "m < 10") (auto simp: dec.simps [of n] dec.simps [of m])
    with False "1.prems" have len: "length (dec (n div 10)) = length (dec (m div 10))"
      by (simp add: dec.simps [of n] dec.simps [of m])
    from False m len have "dec n < dec m \<longleftrightarrow>
        dec (n div 10) < dec (m div 10) \<or> dec (n div 10) = dec (m div 10) \<and> n mod 10 < m mod 10"
      by (simp add: dec.simps [of n] dec.simps [of m] append_less_eqlen digit_less)
    also have "\<dots> \<longleftrightarrow> n div 10 < m div 10 \<or> n div 10 = m div 10 \<and> n mod 10 < m mod 10"
      using "1.IH" [OF False len] by simp
    also have "\<dots> \<longleftrightarrow> n < m" by (rule lex_div_mod_10)
    finally show ?thesis .
  qed
qed

end
