(* ===== verification/Store.thy ===== *)
theory Store
  imports Prelude
begin

text \<open>
  The key-value interface of \<open>src/main.go\<close>: \<open>KeyValuePair\<close>, \<open>ListArgs\<close> and the
  interface \<open>Store\<close>, a record of methods over the state type \<open>'s\<close> of an implementation.
  A method takes the state and returns its Go result together with the new state.

  The contract that the documentation of the interface promises is the locale
  \<open>fallible_store\<close>: an implementation has an invariant and an abstract content, a map from
  keys to values; a call that reports an error leaves the content alone, and a call that
  reports success has the effect its name says.  \<open>kv_store\<close> extends it for
  implementations that only ever fail with \<open>ErrNotFound\<close>.  \<open>list_spec\<close> is the
  reference meaning of \<open>List\<close> on a content: the keys with the prefix that lie after
  \<open>StartAfter\<close>, in byte order, cut to the limit.
\<close>

section \<open>Data and interface\<close>

record KeyValuePair =
  kvKey :: string
  kvValue :: string

record ListArgs =
  Prefix :: string
  StartAfter :: string
  Limit :: int

record 's Store =
  sGet :: "string \<Rightarrow> 's \<Rightarrow> (string, 's) outcome"
  sSet :: "string \<Rightarrow> string \<Rightarrow> 's \<Rightarrow> (unit, 's) outcome"
  sSetIfNotExists :: "string \<Rightarrow> string \<Rightarrow> 's \<Rightarrow> (bool, 's) outcome"
  sDelete :: "string \<Rightarrow> 's \<Rightarrow> (unit, 's) outcome"
  sList :: "ListArgs \<Rightarrow> 's \<Rightarrow> (KeyValuePair list, 's) outcome"
  sClose :: "'s \<Rightarrow> (unit, 's) outcome"

section \<open>Reference meaning of List\<close>

definition limit_to :: "int \<Rightarrow> 'a list \<Rightarrow> 'a list" where
  "limit_to n xs = (if n > 0 then take (nat n) xs else xs)"

definition in_range :: "ListArgs \<Rightarrow> string \<Rightarrow> bool" where
  "in_range a k \<longleftrightarrow> prefix (Prefix a) k \<and> (StartAfter a = [] \<or> StartAfter a < k)"

definition entry_at :: "(string \<rightharpoonup> string) \<Rightarrow> string \<Rightarrow> KeyValuePair" where
  "entry_at m k = \<lparr>kvKey = k, kvValue = the (m k)\<rparr>"

definition list_spec :: "(string \<rightharpoonup> string) \<Rightarrow> ListArgs \<Rightarrow> KeyValuePair list" where
  "list_spec m a =
     limit_to (Limit a) (map (entry_at m) (sorted_list_of_set {k \<in> dom m. in_range a k}))"

section \<open>The contract\<close>

locale fallible_store =
  fixes S :: "'s Store"
    and inv :: "'s \<Rightarrow> bool"
    and abs :: "'s \<Rightarrow> (string \<rightharpoonup> string)"
  assumes content_finite: "inv s \<Longrightarrow> finite (dom (abs s))"
    and get_state: "inv s \<Longrightarrow> inv (snd (sGet S k s)) \<and> abs (snd (sGet S k s)) = abs s"
    and get_ok: "inv s \<Longrightarrow> fst (sGet S k s) = Inr v \<Longrightarrow> abs s k = Some v"
    and get_missing: "inv s \<Longrightarrow> fst (sGet S k s) = Inl e \<Longrightarrow> errors_Is e ErrNotFound \<Longrightarrow> abs s k = None"
    and set_state: "inv s \<Longrightarrow> inv (snd (sSet S k v s)) \<and>
          abs (snd (sSet S k v s)) =
            (case fst (sSet S k v s) of Inl _ \<Rightarrow> abs s | Inr _ \<Rightarrow> (abs s)(k \<mapsto> v))"
    and setnx_state: "inv s \<Longrightarrow> inv (snd (sSetIfNotExists S k v s)) \<and>
          abs (snd (sSetIfNotExists S k v s)) =
            (case fst (sSetIfNotExists S k v s) of
               Inl _ \<Rightarrow> abs s | Inr c \<Rightarrow> (if c then (abs s)(k \<mapsto> v) else abs s))"
    and setnx_ok: "inv s \<Longrightarrow> fst (sSetIfNotExists S k v s) = Inr c \<Longrightarrow> c \<longleftrightarrow> abs s k = None"
    and delete_state: "inv s \<Longrightarrow> inv (snd (sDelete S k s)) \<and>
          abs (snd (sDelete S k s)) =
            (case fst (sDelete S k s) of Inl _ \<Rightarrow> abs s | Inr _ \<Rightarrow> (abs s)(k := None))"
    and delete_missing: "inv s \<Longrightarrow> fst (sDelete S k s) = Inl e \<Longrightarrow> errors_Is e ErrNotFound \<Longrightarrow> abs s k = None"
    and list_state: "inv s \<Longrightarrow> inv (snd (sList S a s)) \<and> abs (snd (sList S a s)) = abs s"
    and list_ok: "inv s \<Longrightarrow> fst (sList S a s) = Inr xs \<Longrightarrow> xs = list_spec (abs s) a"

locale kv_store = fallible_store +
  assumes get_result: "inv s \<Longrightarrow>
          fst (sGet S k s) = (case abs s k of None \<Rightarrow> Inl ErrNotFound | Some v \<Rightarrow> Inr v)"
    and set_result: "inv s \<Longrightarrow> fst (sSet S k v s) = Inr ()"
    and setnx_result: "inv s \<Longrightarrow> fst (sSetIfNotExists S k v s) = Inr (abs s k = None)"
    and delete_result: "inv s \<Longrightarrow>
          fst (sDelete S k s) = (if abs s k = None then Inl ErrNotFound else Inr ())"
    and list_result: "inv s \<Longrightarrow> fst (sList S a s) = Inr (list_spec (abs s) a)"

section \<open>Facts about the reference meaning\<close>

lemma limit_to_nonpos [simp]: "n \<le> 0 \<Longrightarrow> limit_to n xs = xs"
  by (simp add: limit_to_def)

lemma set_limit_to: "set (limit_to n xs) \<subseteq> set xs"
  by (simp add: limit_to_def set_take_subset)

lemma length_limit_to: "0 < n \<Longrightarrow> int (length (limit_to n xs)) \<le> n"
  by (simp add: limit_to_def)

lemma limit_to_map: "limit_to n (map f xs) = map f (limit_to n xs)"
  by (simp add: limit_to_def take_map)

lemma finite_range [simp]: "finite (dom m) \<Longrightarrow> finite {k \<in> dom m. in_range a k}"
  by simp

lemma list_spec_keys:
  "map kvKey (list_spec m a) = limit_to (Limit a) (sorted_list_of_set {k \<in> dom m. in_range a k})"
  by (simp add: list_spec_def limit_to_map entry_at_def comp_def)

lemma list_spec_entry:
  assumes "finite (dom m)" and "kv \<in> set (list_spec m a)"
  shows "m (kvKey kv) = Some (kvValue kv) \<and> in_range a (kvKey kv)"
proof -
  from assms(2) obtain k where k: "kv = entry_at m k"
      "k \<in> set (sorted_list_of_set {k \<in> dom m. in_range a k})"
    using set_limit_to unfolding list_spec_def by fastforce
  from k(2) assms(1) have "k \<in> dom m" "in_range a k" by auto
  then show ?thesis by (auto simp: k(1) entry_at_def)
qed

lemma set_list_spec_unlimited:
  assumes "finite (dom m)" and "Limit a \<le> 0"
  shows "set (list_spec m a) = entry_at m ` {k \<in> dom m. in_range a k}"
  using assms by (simp add: list_spec_def)

lemma sorted_limit_to: "sorted_wrt R xs \<Longrightarrow> sorted_wrt R (limit_to n xs)"
  by (simp add: limit_to_def sorted_wrt_take)

lemma list_spec_sorted: "sorted_wrt (<) (map kvKey (list_spec m a))"
  unfolding list_spec_keys by (intro sorted_limit_to) (rule strict_sorted_list_of_set)

lemma list_spec_distinct: "distinct (map kvKey (list_spec m a))"
  using list_spec_sorted strict_sorted_iff by blast

lemma list_spec_agree:
  assumes "\<And>k. in_range a k \<Longrightarrow> m' k = m k"
  shows "list_spec m' a = list_spec m a"
proof -
  have dom: "{k \<in> dom m'. in_range a k} = {k \<in> dom m. in_range a k}" using assms by auto
  have "map (entry_at m') (sorted_list_of_set {k \<in> dom m. in_range a k})
      = map (entry_at m) (sorted_list_of_set {k \<in> dom m. in_range a k})"
  proof (cases "finite {k \<in> dom m. in_range a k}")
    case True
    then show ?thesis using assms by (auto simp: entry_at_def)
  next
    case False
    then show ?thesis by (simp add: sorted_list_of_set.fold_insort_key.infinite)
  qed
  then show ?thesis unfolding list_spec_def dom by (rule arg_cong)
qed

section \<open>What a client knows of a lawful store\<close>

context fallible_store
begin

lemma get_inv [store_simps]: "inv s \<Longrightarrow> inv (snd (sGet S k s))"
  and get_abs [store_simps]: "inv s \<Longrightarrow> abs (snd (sGet S k s)) = abs s"
  by (simp_all add: get_state)

lemma list_inv [store_simps]: "inv s \<Longrightarrow> inv (snd (sList S a s))"
  and list_abs [store_simps]: "inv s \<Longrightarrow> abs (snd (sList S a s)) = abs s"
  by (simp_all add: list_state)

lemma set_inv [store_simps]: "inv s \<Longrightarrow> inv (snd (sSet S k v s))"
  and setnx_inv [store_simps]: "inv s \<Longrightarrow> inv (snd (sSetIfNotExists S k v s))"
  and delete_inv [store_simps]: "inv s \<Longrightarrow> inv (snd (sDelete S k s))"
  by (simp_all add: set_state setnx_state delete_state)

end

context kv_store
begin

lemmas store_results [store_simps] =
  get_result set_result setnx_result delete_result list_result

lemma set_abs [store_simps]: "inv s \<Longrightarrow> abs (snd (sSet S k v s)) = (abs s)(k \<mapsto> v)"
  by (simp add: set_state set_result)

lemma setnx_abs [store_simps]:
  "inv s \<Longrightarrow> abs (snd (sSetIfNotExists S k v s)) = (if abs s k = None then (abs s)(k \<mapsto> v) else abs s)"
  by (simp add: setnx_state setnx_result)

lemma delete_abs [store_simps]: "inv s \<Longrightarrow> abs (snd (sDelete S k s)) = (abs s)(k := None)"
  by (auto simp add: delete_state delete_result fun_eq_iff)

text \<open>A call as an equation, for stepping through a body.\<close>

lemma get_run:
  assumes "inv s"
  obtains s' where "sGet S k s = (case abs s k of None \<Rightarrow> Inl ErrNotFound | Some v \<Rightarrow> Inr v, s')" "inv s'" "abs s' = abs s"
  by (rule that [of "snd (sGet S k s)"]) (use assms in \<open>simp_all add: get_result get_abs get_inv prod_eq_iff\<close>)

lemma set_run:
  assumes "inv s"
  obtains s' where "sSet S k v s = (Inr (), s')" "inv s'" "abs s' = (abs s)(k \<mapsto> v)"
  by (rule that [of "snd (sSet S k v s)"]) (use assms in \<open>simp_all add: set_result set_abs set_inv prod_eq_iff\<close>)

lemma delete_run:
  assumes "inv s"
  obtains s' where "sDelete S k s = (if abs s k = None then Inl ErrNotFound else Inr (), s')" "inv s'" "abs s' = (abs s)(k := None)"
  by (rule that [of "snd (sDelete S k s)"]) (use assms in \<open>simp_all add: delete_result delete_abs delete_inv prod_eq_iff\<close>)

lemma delete_run_present:
  assumes "inv s" and "abs s k \<noteq> None"
  obtains s' where "sDelete S k s = (Inr (), s')" "inv s'" "abs s' = (abs s)(k := None)"
  by (rule delete_run [OF assms(1), of k]) (use assms(2) that in simp)

lemma list_run:
  assumes "inv s"
  obtains s' where "sList S a s = (Inr (list_spec (abs s) a), s')" "inv s'" "abs s' = abs s"
  by (rule that [of "snd (sList S a s)"]) (use assms in \<open>simp_all add: list_result list_abs list_inv prod_eq_iff\<close>)

lemma setnx_run:
  assumes "inv s"
  obtains s' where "sSetIfNotExists S k v s = (Inr (abs s k = None), s')" "inv s'"
    "abs s' = (if abs s k = None then (abs s)(k \<mapsto> v) else abs s)"
  by (rule that [of "snd (sSetIfNotExists S k v s)"]) (use assms in \<open>simp_all add: setnx_result setnx_abs setnx_inv prod_eq_iff\<close>)

end

end
