(* ===== verification/Json.thy ===== *)
theory Json
  imports Prelude
begin

text \<open>
  What the sources use of Go's \<open>encoding/json\<close>: \<open>Marshal\<close> and \<open>Unmarshal\<close> of flat
  structs, lists of them and integers.  \<open>jprint\<close> writes a value as \<open>Marshal\<close> does (no
  white space, the HTML-safe escapes, invalid UTF-8 replaced by U+FFFD); \<open>jparse\<close> reads
  any JSON text as \<open>Unmarshal\<close> does (white space, every escape, surrogate pairs, number
  syntax).  The structs themselves are encoded in the theories that declare them, with
  the accessors at the end of the model section here: a missing field keeps its zero
  value, \<open>null\<close> changes nothing, a value of the wrong kind is an error, and field names
  match up to Unicode simple folding of the letters that occur in them.

  The main lemma is \<open>jparse_jprint\<close>: reading back what was written gives the value with
  its strings coerced to valid UTF-8, hence the same value when they already are.
\<close>

section \<open>UTF-8\<close>

abbreviation ord :: "char \<Rightarrow> nat" where "ord c \<equiv> of_char c"

definition byte_in :: "nat \<Rightarrow> nat \<Rightarrow> string \<Rightarrow> bool" where
  "byte_in lo hi s = (case s of [] \<Rightarrow> False | b # _ \<Rightarrow> lo \<le> ord b \<and> ord b \<le> hi)"

text \<open>
  The lead byte gives the length of a sequence and the range of its second byte, as the
  tables \<open>first\<close> and \<open>acceptRanges\<close> of Go's \<open>unicode/utf8\<close> do; length 0 means that
  no sequence starts with this byte.
\<close>

definition utf8_lead :: "nat \<Rightarrow> nat \<times> nat \<times> nat" where
  "utf8_lead x =
     (if x < 128 then (1, 0, 0)
      else if x < 194 then (0, 0, 0)
      else if x < 224 then (2, 128, 191)
      else if x = 224 then (3, 160, 191)
      else if x = 237 then (3, 128, 159)
      else if x < 240 then (3, 128, 191)
      else if x = 240 then (4, 144, 191)
      else if x < 244 then (4, 128, 191)
      else if x = 244 then (4, 128, 143)
      else (0, 0, 0))"

definition is_cont :: "char \<Rightarrow> bool" where
  "is_cont c \<longleftrightarrow> 128 \<le> ord c \<and> ord c \<le> 191"

text \<open>The length of the well-formed sequence at the head of a string, 0 when there is none.\<close>

definition utf8_len :: "string \<Rightarrow> nat" where
  "utf8_len s =
     (case s of [] \<Rightarrow> 0
      | a # r \<Rightarrow>
        (case utf8_lead (ord a) of (n, lo, hi) \<Rightarrow>
           if n \<le> 1 then n
           else if n - 1 \<le> length r \<and> byte_in lo hi r \<and> list_all is_cont (take (n - 2) (drop 1 r)) then n
           else 0))"

definition RuneError :: string where
  "RuneError = [CHR 0xEF, CHR 0xBF, CHR 0xBD]"

function utf8_coerce :: "string \<Rightarrow> string" where
  "utf8_coerce s =
     (if s = [] then []
      else if utf8_len s = 0 then RuneError @ utf8_coerce (drop 1 s)
      else take (utf8_len s) s @ utf8_coerce (drop (utf8_len s) s))"
  by pat_completeness auto
termination
  by (relation "measure length") auto

function utf8_valid :: "string \<Rightarrow> bool" where
  "utf8_valid s =
     (if s = [] then True
      else if utf8_len s = 0 then False
      else utf8_valid (drop (utf8_len s) s))"
  by pat_completeness auto
termination
  by (relation "measure length") auto

declare utf8_coerce.simps [simp del] utf8_valid.simps [simp del]

definition encode_rune :: "nat \<Rightarrow> string" where
  "encode_rune c =
     (if c < 128 then [char_of c]
      else if c < 2048 then [char_of (192 + c div 64), char_of (128 + c mod 64)]
      else if c < 65536 then
        [char_of (224 + c div 4096), char_of (128 + c div 64 mod 64), char_of (128 + c mod 64)]
      else [char_of (240 + c div 262144), char_of (128 + c div 4096 mod 64),
            char_of (128 + c div 64 mod 64), char_of (128 + c mod 64)])"

section \<open>Printing\<close>

datatype json =
    JNull
  | JBool bool
  | JNum string
  | JStr string
  | JArr "json list"
  | JObj "(string \<times> json) list"

definition hexdigit :: "nat \<Rightarrow> char" where
  "hexdigit d = (if d < 10 then char_of (48 + d) else char_of (87 + d))"

definition esc_ascii :: "char \<Rightarrow> string" where
  "esc_ascii c =
     (if c = CHR 0x22 \<or> c = CHR 0x5C then [CHR 0x5C, c]
      else if c = CHR 0x08 then [CHR 0x5C, CHR ''b'']
      else if c = CHR 0x0C then [CHR 0x5C, CHR ''f'']
      else if c = CHR 0x0A then [CHR 0x5C, CHR ''n'']
      else if c = CHR 0x0D then [CHR 0x5C, CHR ''r'']
      else if c = CHR 0x09 then [CHR 0x5C, CHR ''t'']
      else if ord c < 32 \<or> c = CHR ''<'' \<or> c = CHR ''>'' \<or> c = CHR ''&''
        then [CHR 0x5C, CHR ''u'', CHR ''0'', CHR ''0'', hexdigit (ord c div 16), hexdigit (ord c mod 16)]
      else [c])"

definition LineSep :: string where "LineSep = [CHR 0xE2, CHR 0x80, CHR 0xA8]"
definition ParSep :: string where "ParSep = [CHR 0xE2, CHR 0x80, CHR 0xA9]"

function esc :: "string \<Rightarrow> string" where
  "esc s =
     (if s = [] then []
      else if utf8_len s = 0 then CHR 0x5C # ''ufffd'' @ esc (drop 1 s)
      else if utf8_len s = 1 then esc_ascii (hd s) @ esc (drop 1 s)
      else if prefix LineSep s then CHR 0x5C # ''u2028'' @ esc (drop 3 s)
      else if prefix ParSep s then CHR 0x5C # ''u2029'' @ esc (drop 3 s)
      else take (utf8_len s) s @ esc (drop (utf8_len s) s))"
  by pat_completeness auto
termination
  by (relation "measure length") auto

declare esc.simps [simp del]

definition jquote :: "string \<Rightarrow> string" where
  "jquote s = CHR 0x22 # esc s @ [CHR 0x22]"

fun jprint :: "json \<Rightarrow> string"
  and jelems :: "json list \<Rightarrow> string"
  and jmembers :: "(string \<times> json) list \<Rightarrow> string" where
  "jprint JNull = ''null''"
| "jprint (JBool b) = (if b then ''true'' else ''false'')"
| "jprint (JNum l) = l"
| "jprint (JStr s) = jquote s"
| "jprint (JArr xs) = CHR ''['' # jelems xs @ '']''"
| "jprint (JObj ms) = CHR ''{'' # jmembers ms @ ''}''"
| "jelems [] = []"
| "jelems (x # xs) = jprint x @ (if xs = [] then [] else CHR '','' # jelems xs)"
| "jmembers [] = []"
| "jmembers ((k, v) # ms) =
     jquote k @ CHR '':'' # jprint v @ (if ms = [] then [] else CHR '','' # jmembers ms)"

section \<open>Parsing\<close>

definition unhex :: "char \<Rightarrow> nat option" where
  "unhex c =
     (let x = ord c in
      if 48 \<le> x \<and> x \<le> 57 then Some (x - 48)
      else if 97 \<le> x \<and> x \<le> 102 then Some (x - 87)
      else if 65 \<le> x \<and> x \<le> 70 then Some (x - 55)
      else None)"

definition hex4 :: "string \<Rightarrow> nat option" where
  "hex4 s =
     (case s of a # b # c # d # _ \<Rightarrow>
        (case (unhex a, unhex b, unhex c, unhex d) of
           (Some w, Some x, Some y, Some z) \<Rightarrow> Some (4096 * w + 256 * x + 16 * y + z)
         | _ \<Rightarrow> None)
      | _ \<Rightarrow> None)"

text \<open>
  What follows a \<open>\u\<close>: the UTF-8 text and the number of characters used.  A high
  surrogate takes the low one after it; a lone surrogate becomes U+FFFD.
\<close>

definition unicode_escape :: "string \<Rightarrow> (string \<times> nat) option" where
  "unicode_escape s =
     (case hex4 s of None \<Rightarrow> None
      | Some h \<Rightarrow>
        if 55296 \<le> h \<and> h < 57344 then
          (case (if h < 56320 \<and> take 2 (drop 4 s) = [CHR 0x5C, CHR ''u''] then hex4 (drop 6 s) else None) of
             Some l \<Rightarrow>
               if 56320 \<le> l \<and> l < 57344
               then Some (encode_rune (65536 + (h - 55296) * 1024 + (l - 56320)), 10)
               else Some (RuneError, 4)
           | None \<Rightarrow> Some (RuneError, 4))
        else Some (encode_rune h, 4))"

definition simple_escape :: "char \<Rightarrow> char option" where
  "simple_escape c =
     (if c = CHR 0x22 \<or> c = CHR 0x5C \<or> c = CHR ''/'' then Some c
      else if c = CHR ''b'' then Some (CHR 0x08)
      else if c = CHR ''f'' then Some (CHR 0x0C)
      else if c = CHR ''n'' then Some (CHR 0x0A)
      else if c = CHR ''r'' then Some (CHR 0x0D)
      else if c = CHR ''t'' then Some (CHR 0x09)
      else None)"

definition add_front :: "string \<Rightarrow> (string \<times> string) option \<Rightarrow> (string \<times> string) option" where
  "add_front x r = map_option (\<lambda>(t, rest). (x @ t, rest)) r"

function unq :: "string \<Rightarrow> (string \<times> string) option" where
  "unq s =
     (case s of [] \<Rightarrow> None
      | c # r \<Rightarrow>
        if c = CHR 0x22 then Some ([], r)
        else if c = CHR 0x5C then
          (case r of [] \<Rightarrow> None
           | e # r' \<Rightarrow>
             if e = CHR ''u'' then
               (case unicode_escape r' of None \<Rightarrow> None
                | Some (t, n) \<Rightarrow> add_front t (unq (drop n r')))
             else (case simple_escape e of None \<Rightarrow> None | Some x \<Rightarrow> add_front [x] (unq r')))
        else if ord c < 32 then None
        else if utf8_len s = 0 then add_front RuneError (unq r)
        else add_front (take (utf8_len s) s) (unq (drop (utf8_len s) s)))"
  by pat_completeness auto
termination
  by (relation "measure length") auto

declare unq.simps [simp del]

definition is_ws :: "char \<Rightarrow> bool" where
  "is_ws c \<longleftrightarrow> c = CHR '' '' \<or> c = CHR 0x09 \<or> c = CHR 0x0A \<or> c = CHR 0x0D"

definition skip_ws :: "string \<Rightarrow> string" where
  "skip_ws s = dropWhile is_ws s"

definition is_digit :: "char \<Rightarrow> bool" where
  "is_digit c \<longleftrightarrow> 48 \<le> ord c \<and> ord c \<le> 57"

definition is_numchar :: "char \<Rightarrow> bool" where
  "is_numchar c \<longleftrightarrow> is_digit c \<or> c \<in> set ''+-.eE''"

definition digits1 :: "string \<Rightarrow> bool" where
  "digits1 s \<longleftrightarrow> s \<noteq> [] \<and> list_all is_digit s"

definition valid_exp :: "string \<Rightarrow> bool" where
  "valid_exp s =
     (case s of [] \<Rightarrow> True
      | c # r \<Rightarrow> (c = CHR ''e'' \<or> c = CHR ''E'') \<and>
          digits1 (case r of [] \<Rightarrow> [] | d # r' \<Rightarrow> if d = CHR ''+'' \<or> d = CHR ''-'' then r' else r))"

definition valid_number :: "string \<Rightarrow> bool" where
  "valid_number l =
     (let u = (if prefix ''-'' l then drop 1 l else l);
          i = takeWhile is_digit u;
          f = dropWhile is_digit u
      in i \<noteq> [] \<and> (hd i = CHR ''0'' \<longrightarrow> length i = 1) \<and>
         (if prefix ''.'' f then
            takeWhile is_digit (drop 1 f) \<noteq> [] \<and> valid_exp (dropWhile is_digit (drop 1 f))
          else valid_exp f))"

definition literal :: "string \<Rightarrow> json \<Rightarrow> string \<Rightarrow> (json \<times> string) option" where
  "literal t j s = (if prefix t s then Some (j, drop (length t) s) else None)"

definition number :: "string \<Rightarrow> (json \<times> string) option" where
  "number s =
     (let l = takeWhile is_numchar s
      in if valid_number l then Some (JNum l, dropWhile is_numchar s) else None)"

text \<open>
  The first argument is fuel: one unit per value and per list position, and every one of
  them takes at least one character, so the length of the text is enough.
\<close>

fun pvalue :: "nat \<Rightarrow> string \<Rightarrow> (json \<times> string) option"
  and pelems :: "nat \<Rightarrow> string \<Rightarrow> (json list \<times> string) option"
  and pmembers :: "nat \<Rightarrow> string \<Rightarrow> ((string \<times> json) list \<times> string) option" where
  "pvalue 0 s = None"
| "pvalue (Suc n) s =
     (case skip_ws s of [] \<Rightarrow> None
      | c # r \<Rightarrow>
        if c = CHR ''n'' then literal ''null'' JNull (c # r)
        else if c = CHR ''t'' then literal ''true'' (JBool True) (c # r)
        else if c = CHR ''f'' then literal ''false'' (JBool False) (c # r)
        else if c = CHR 0x22 then map_option (\<lambda>(t, r'). (JStr t, r')) (unq r)
        else if c = CHR ''['' then
          (if prefix '']'' (skip_ws r) then Some (JArr [], drop 1 (skip_ws r))
           else map_option (\<lambda>(xs, r'). (JArr xs, r')) (pelems n r))
        else if c = CHR ''{'' then
          (if prefix ''}'' (skip_ws r) then Some (JObj [], drop 1 (skip_ws r))
           else map_option (\<lambda>(ms, r'). (JObj ms, r')) (pmembers n r))
        else number (c # r))"
| "pelems 0 s = None"
| "pelems (Suc n) s =
     (case pvalue n s of None \<Rightarrow> None
      | Some (v, r) \<Rightarrow>
        if prefix '','' (skip_ws r)
        then map_option (\<lambda>(vs, r'). (v # vs, r')) (pelems n (drop 1 (skip_ws r)))
        else if prefix '']'' (skip_ws r) then Some ([v], drop 1 (skip_ws r))
        else None)"
| "pmembers 0 s = None"
| "pmembers (Suc n) s =
     (if prefix [CHR 0x22] (skip_ws s) then
        (case unq (drop 1 (skip_ws s)) of None \<Rightarrow> None
         | Some (k, r) \<Rightarrow>
           if prefix '':'' (skip_ws r) then
             (case pvalue n (drop 1 (skip_ws r)) of None \<Rightarrow> None
              | Some (v, r') \<Rightarrow>
                if prefix '','' (skip_ws r')
                then map_option (\<lambda>(ms, r''). ((k, v) # ms, r'')) (pmembers n (drop 1 (skip_ws r')))
                else if prefix ''}'' (skip_ws r') then Some ([(k, v)], drop 1 (skip_ws r'))
                else None)
           else None)
      else None)"

definition jparse :: "string \<Rightarrow> json option" where
  "jparse s =
     (case pvalue (Suc (length s)) s of
        Some (j, r) \<Rightarrow> if skip_ws r = [] then Some j else None
      | None \<Rightarrow> None)"

section \<open>Reading Go values\<close>

definition dec_val :: "string \<Rightarrow> nat" where
  "dec_val s = foldl (\<lambda>n c. 10 * n + (ord c - 48)) 0 s"

definition parse_int64 :: "string \<Rightarrow> int option" where
  "parse_int64 l =
     (let u = (if prefix ''-'' l then drop 1 l else l);
          z = (if prefix ''-'' l then - int (dec_val u) else int (dec_val u))
      in if digits1 u \<and> in_i64 z then Some z else None)"

fun json_string :: "json \<Rightarrow> string \<Rightarrow> string option" where
  "json_string (JStr s) old = Some s"
| "json_string JNull old = Some old"
| "json_string _ old = None"

fun json_int :: "json \<Rightarrow> int \<Rightarrow> int option" where
  "json_int (JNum l) old = parse_int64 l"
| "json_int JNull old = Some old"
| "json_int _ old = None"

fun json_bool :: "json \<Rightarrow> bool \<Rightarrow> bool option" where
  "json_bool (JBool b) old = Some b"
| "json_bool JNull old = Some old"
| "json_bool _ old = None"

fun fold_name :: "string \<Rightarrow> string" where
  "fold_name [] = []"
| "fold_name (c # s) =
     (if 65 \<le> ord c \<and> ord c \<le> 90 then char_of (ord c + 32) # fold_name s
      else if ord c = 197 \<and> byte_in 191 191 s then CHR ''s'' # fold_name (drop 1 s)
      else if ord c = 226 \<and> byte_in 132 132 s \<and> byte_in 170 170 (drop 1 s) then CHR ''k'' # fold_name (drop 2 s)
      else c # fold_name s)"

definition field_is :: "string \<Rightarrow> string \<Rightarrow> bool" where
  "field_is name k \<longleftrightarrow> fold_name k = fold_name name"

text \<open>\<open>Unmarshal\<close> into a struct: the members in order, each setting one field.\<close>

fun fold_members :: "(string \<Rightarrow> json \<Rightarrow> 'a \<Rightarrow> 'a option) \<Rightarrow> (string \<times> json) list \<Rightarrow> 'a \<Rightarrow> 'a option" where
  "fold_members f [] x = Some x"
| "fold_members f ((k, v) # ms) x =
     (case f k v x of None \<Rightarrow> None | Some y \<Rightarrow> fold_members f ms y)"

fun json_struct :: "(string \<Rightarrow> json \<Rightarrow> 'a \<Rightarrow> 'a option) \<Rightarrow> 'a \<Rightarrow> json \<Rightarrow> 'a option" where
  "json_struct f zero (JObj ms) = fold_members f ms zero"
| "json_struct f zero JNull = Some zero"
| "json_struct f zero _ = None"

fun jwf :: "json \<Rightarrow> bool" where
  "jwf (JNum l) = (valid_number l \<and> list_all is_numchar l)"
| "jwf (JArr xs) = (\<forall>x \<in> set xs. jwf x)"
| "jwf (JObj ms) = (\<forall>m \<in> set ms. jwf (snd m))"
| "jwf _ = True"

fun jcoerce :: "json \<Rightarrow> json" where
  "jcoerce (JStr s) = JStr (utf8_coerce s)"
| "jcoerce (JArr xs) = JArr (map jcoerce xs)"
| "jcoerce (JObj ms) = JObj (map (\<lambda>m. (utf8_coerce (fst m), jcoerce (snd m))) ms)"
| "jcoerce j = j"

definition jint :: "int \<Rightarrow> json" where
  "jint z = JNum (itoa z)"

section \<open>Strings survive the quotes\<close>

lemma ord_char_of: "n < 256 \<Longrightarrow> ord (char_of n) = n"
  by simp

lemma utf8_len_le: "utf8_len s \<le> length s"
  by (auto simp: utf8_len_def split: list.splits prod.splits)

lemma utf8_len_pos: "utf8_len s \<noteq> 0 \<Longrightarrow> s \<noteq> []"
  by (auto simp: utf8_len_def)

lemma utf8_lead_1: "utf8_lead x = (Suc 0, lo, hi) \<Longrightarrow> x < 128"
  by (auto simp: utf8_lead_def split: if_splits)

lemma utf8_len_ascii: "utf8_len (c # r) = Suc 0 \<longleftrightarrow> ord c < 128"
  by (auto simp: utf8_len_def split: prod.splits if_splits dest: utf8_lead_1)
    (auto simp: utf8_lead_def)

lemma utf8_len_ascii1: "ord c < 128 \<Longrightarrow> utf8_len (c # r) = 1"
  by (simp add: utf8_len_ascii)

lemma byte_in_Cons [simp]: "byte_in lo hi (b # r) \<longleftrightarrow> lo \<le> ord b \<and> ord b \<le> hi"
  by (simp add: byte_in_def)

lemma byte_in_take: "byte_in lo hi r \<Longrightarrow> 0 < n \<Longrightarrow> byte_in lo hi (take n r @ t)"
  by (cases r; cases n) (simp_all add: byte_in_def)

lemma utf8_len_take:
  assumes "utf8_len s \<noteq> 0"
  shows "utf8_len (take (utf8_len s) s @ t) = utf8_len s"
proof -
  from assms obtain a r where s: "s = a # r" using utf8_len_pos by (cases s) auto
  obtain n lo hi where lead: "utf8_lead (ord a) = (n, lo, hi)" by (cases "utf8_lead (ord a)") auto
  show ?thesis
  proof (cases "n \<le> 1")
    case True
    with assms s lead have "n = 1" by (auto simp: utf8_len_def)
    with s lead show ?thesis by (simp add: utf8_len_def)
  next
    case False
    with assms s lead have n: "utf8_len s = n" "n - 1 \<le> length r" "byte_in lo hi r"
        "list_all is_cont (take (n - 2) (drop 1 r))"
      by (auto simp: utf8_len_def split: if_splits)
    define m where "m = n - 2"
    with False have m: "n = Suc (Suc m)" by simp
    have "byte_in lo hi (take (Suc m) r @ t)" using n(3) by (intro byte_in_take) simp_all
    moreover have "take m (drop 1 (take (Suc m) r @ t)) = take m (drop 1 r)"
      using n(2) m by (cases r) simp_all
    ultimately show ?thesis using n lead s m by (simp add: utf8_len_def)
  qed
qed

lemma unhex_hexdigit: "d < 16 \<Longrightarrow> unhex (hexdigit d) = Some d"
  by (auto simp: unhex_def hexdigit_def Let_def)

lemma add_front_Some [simp]: "add_front x (Some (t, r)) = Some (x @ t, r)"
  by (simp add: add_front_def)

lemma unq_quote [simp]: "unq (CHR 0x22 # r) = Some ([], r)"
  by (subst unq.simps) simp

lemma unq_simple: "simple_escape e = Some x \<Longrightarrow> unq (CHR 0x5C # e # t) = add_front [x] (unq t)"
  by (subst unq.simps) (auto simp: simple_escape_def split: if_splits)

lemma unq_unicode:
  "unicode_escape (w # x # y # z # t) = Some (u, 4) \<Longrightarrow>
   unq (CHR 0x5C # CHR ''u'' # w # x # y # z # t) = add_front u (unq t)"
  by (subst unq.simps) (simp add: numeral_eq_Suc)

lemma unq_raw:
  assumes "utf8_len s \<noteq> 0" and "hd s \<noteq> CHR 0x22" and "hd s \<noteq> CHR 0x5C" and "32 \<le> ord (hd s)"
  shows "unq (take (utf8_len s) s @ t) = add_front (take (utf8_len s) s) (unq t)"
proof -
  let ?n = "utf8_len s"
  from assms(1) obtain c r where s: "s = c # r" using utf8_len_pos by (cases s) auto
  obtain n where n: "?n = Suc n" using assms(1) not0_implies_Suc by blast
  have tk: "take ?n s @ t = c # (take n r @ t)" by (simp add: s n [unfolded s])
  have len: "utf8_len (take ?n s @ t) = ?n" by (rule utf8_len_take [OF assms(1)])
  have "length (take ?n s) = ?n" using utf8_len_le by simp
  then have "take ?n (take ?n s @ t) = take ?n s" and "drop ?n (take ?n s @ t) = t" by simp_all
  then have "take ?n (c # (take n r @ t)) = take ?n s" and "drop ?n (c # (take n r @ t)) = t"
    by (simp_all only: tk)
  moreover have "utf8_len (c # (take n r @ t)) = ?n" using len by (simp only: tk)
  ultimately have "unq (c # (take n r @ t)) = add_front (take ?n s) (unq t)"
    using assms by (subst unq.simps) (simp add: s)
  then show ?thesis by (simp only: tk)
qed

lemma unicode_00:
  assumes "x < 128"
  shows "unicode_escape (CHR ''0'' # CHR ''0'' # hexdigit (x div 16) # hexdigit (x mod 16) # t)
    = Some ([char_of x], 4)"
proof -
  have "unhex (CHR ''0'') = Some 0" by (simp add: unhex_def Let_def)
  moreover have "unhex (hexdigit (x div 16)) = Some (x div 16)"
    and "unhex (hexdigit (x mod 16)) = Some (x mod 16)"
    using assms by (simp_all add: unhex_hexdigit)
  ultimately have "hex4 (CHR ''0'' # CHR ''0'' # hexdigit (x div 16) # hexdigit (x mod 16) # t) = Some x"
    by (simp add: hex4_def)
  then show ?thesis using assms by (simp add: unicode_escape_def encode_rune_def)
qed

lemma unq_ascii:
  assumes "ord c < 128"
  shows "unq (esc_ascii c @ t) = add_front [c] (unq t)"
proof -
  have plain: "unq (c # t) = add_front [c] (unq t)"
    if "c \<noteq> CHR 0x22" "c \<noteq> CHR 0x5C" "32 \<le> ord c"
    using unq_raw [of "[c]" t] that assms by (simp add: utf8_len_ascii1)
  show ?thesis
    using plain assms
    by (auto simp: esc_ascii_def unq_simple simple_escape_def unq_unicode unicode_00)
qed

lemma unq_escape_rune:
  assumes "h = 65533 \<and> ws = ''fffd'' \<or> h = 8232 \<and> ws = ''2028'' \<or> h = 8233 \<and> ws = ''2029''"
  shows "unq (CHR 0x5C # CHR ''u'' # ws @ t) = add_front (encode_rune h) (unq t)"
proof -
  from assms have "unicode_escape (ws @ t) = Some (encode_rune h, 4)"
    by (elim disjE conjE) (simp_all add: unicode_escape_def hex4_def unhex_def Let_def)
  moreover obtain a b c d where "ws = [a, b, c, d]" using assms by auto
  ultimately show ?thesis using unq_unicode by simp
qed

lemma encode_specials:
  "encode_rune 65533 = RuneError" "encode_rune 8232 = LineSep" "encode_rune 8233 = ParSep"
  by (simp_all add: encode_rune_def RuneError_def LineSep_def ParSep_def char_of_eq_iff)

lemma utf8_len_Sep: "prefix LineSep s \<or> prefix ParSep s \<Longrightarrow> utf8_len s = 3"
  by (auto simp: prefix_def LineSep_def ParSep_def utf8_len_def utf8_lead_def is_cont_def)

lemma unq_esc: "unq (esc s @ CHR 0x22 # r) = Some (utf8_coerce s, r)"
proof (induction s rule: esc.induct)
  case (1 s)
  consider (nil) "s = []" | (bad) "s \<noteq> []" "utf8_len s = 0" | (ascii) "utf8_len s = 1"
    | (sep) "prefix LineSep s \<or> prefix ParSep s" 
    | (raw) "s \<noteq> []" "utf8_len s \<noteq> 0" "utf8_len s \<noteq> 1" "\<not> prefix LineSep s" "\<not> prefix ParSep s"
    by blast
  then show ?case
  proof cases
    case nil
    then show ?thesis by (simp add: esc.simps utf8_coerce.simps)
  next
    case bad
    then show ?thesis
      using unq_escape_rune [of 65533 "''fffd''" "esc (drop 1 s) @ CHR 0x22 # r"] "1.IH"(1)
      by (simp add: esc.simps [of s] utf8_coerce.simps [of s] encode_specials)
  next
    case ascii
    then obtain c t where s: "s = c # t" by (cases s) (auto simp: utf8_len_def)
    with ascii have "ord c < 128" using utf8_len_ascii [of c t] by simp
    then have "unq (esc_ascii c @ esc t @ CHR 0x22 # r) = add_front [c] (unq (esc t @ CHR 0x22 # r))"
      by (rule unq_ascii)
    then show ?thesis using "1.IH"(2) ascii
      by (simp add: esc.simps [of "c # t"] utf8_coerce.simps [of "c # t"] s)
  next
    case sep
    then have len: "utf8_len s = 3" by (rule utf8_len_Sep)
    from sep obtain t where "s = LineSep @ t \<or> s = ParSep @ t" by (auto simp: prefix_def)
    then show ?thesis
    proof
      assume s: "s = LineSep @ t"
      then have "drop 3 s = t" "take 3 s = LineSep" "prefix LineSep s" "s \<noteq> []"
        by (simp_all add: LineSep_def)
      with len "1.IH"(3) show ?thesis
        using unq_escape_rune [of 8232 "''2028''" "esc t @ CHR 0x22 # r"]
        by (simp add: esc.simps [of s] utf8_coerce.simps [of s] encode_specials)
    next
      assume s: "s = ParSep @ t"
      then have "drop 3 s = t" "take 3 s = ParSep" "prefix ParSep s" "\<not> prefix LineSep s" "s \<noteq> []"
        by (simp_all add: ParSep_def LineSep_def)
      with len "1.IH"(4) show ?thesis
        using unq_escape_rune [of 8233 "''2029''" "esc t @ CHR 0x22 # r"]
        by (simp add: esc.simps [of s] utf8_coerce.simps [of s] encode_specials)
    qed
  next
    case raw
    then obtain c t where s: "s = c # t" by (cases s) auto
    with raw have "\<not> ord c < 128" using utf8_len_ascii1 by metis
    then have "hd s \<noteq> CHR 0x22" "hd s \<noteq> CHR 0x5C" "32 \<le> ord (hd s)" by (auto simp: s)
    then have "unq (take (utf8_len s) s @ esc (drop (utf8_len s) s) @ CHR 0x22 # r)
      = add_front (take (utf8_len s) s) (unq (esc (drop (utf8_len s) s) @ CHR 0x22 # r))"
      using raw by (intro unq_raw)
    with raw "1.IH"(5) show ?thesis
      by (simp add: esc.simps [of s] utf8_coerce.simps [of s])
  qed
qed

lemma utf8_coerce_valid [simp]: "utf8_valid s \<Longrightarrow> utf8_coerce s = s"
proof (induction s rule: utf8_valid.induct)
  case (1 s)
  then show ?case
    by (subst utf8_coerce.simps) (auto simp: utf8_valid.simps [of s])
qed

section \<open>Values survive printing and parsing\<close>

fun jsize :: "json \<Rightarrow> nat" where
  "jsize (JArr xs) = Suc (sum_list (map (\<lambda>x. Suc (jsize x)) xs))"
| "jsize (JObj ms) = Suc (sum_list (map (\<lambda>m. Suc (jsize (snd m))) ms))"
| "jsize _ = 1"

definition at_stop :: "string \<Rightarrow> bool" where
  "at_stop r \<longleftrightarrow> r = [] \<or> hd r \<in> set '',]}''"

lemma number_head:
  assumes "valid_number l"
  shows "\<exists>c r. l = c # r \<and> (c = CHR ''-'' \<or> is_digit c)"
proof (cases l)
  case Nil
  with assms show ?thesis by (simp add: valid_number_def)
next
  case (Cons c r)
  with assms show ?thesis
    by (auto simp: valid_number_def Let_def split: if_splits)
qed

lemma digit_not_special:
  "is_digit c \<Longrightarrow> \<not> is_ws c \<and> c \<noteq> CHR ''n'' \<and> c \<noteq> CHR ''t'' \<and> c \<noteq> CHR ''f'' \<and> c \<noteq> CHR 0x22
     \<and> c \<noteq> CHR ''['' \<and> c \<noteq> CHR ''{'' \<and> c \<noteq> CHR '']'' \<and> c \<noteq> CHR ''}'' "
  by (auto simp: is_digit_def is_ws_def)

lemma jprint_head:
  assumes "jwf j"
  shows "\<exists>c r. jprint j = c # r \<and> \<not> is_ws c \<and> c \<noteq> CHR '']'' \<and> c \<noteq> CHR ''}''"
proof (cases j)
  case (JNum l)
  with assms have "valid_number l" by simp
  from number_head [OF this] obtain c r where l: "l = c # r" and c: "c = CHR ''-'' \<or> is_digit c"
    by (elim exE conjE)
  from c have "\<not> is_ws c \<and> c \<noteq> CHR '']'' \<and> c \<noteq> CHR ''}''"
  proof
    assume "c = CHR ''-''"
    then show ?thesis by (simp add: is_ws_def)
  next
    assume "is_digit c"
    then show ?thesis by (simp add: digit_not_special)
  qed
  with JNum l show ?thesis by simp
qed (auto simp: is_ws_def jquote_def)

lemma skip_ws_Cons [simp]: "\<not> is_ws c \<Longrightarrow> skip_ws (c # r) = c # r"
  by (simp add: skip_ws_def)

lemma skip_ws_jprint: "jwf j \<Longrightarrow> skip_ws (jprint j @ r) = jprint j @ r"
  using jprint_head [of j] by auto

lemma skip_ws_stop: "at_stop r \<Longrightarrow> skip_ws r = r"
  by (cases r) (auto simp: at_stop_def skip_ws_def is_ws_def)

lemma takeWhile_number:
  assumes "list_all is_numchar l" and "at_stop r"
  shows "takeWhile is_numchar (l @ r) = l" and "dropWhile is_numchar (l @ r) = r"
  using assms by (cases r; auto simp: at_stop_def list_all_iff is_numchar_def is_digit_def
      takeWhile_append dropWhile_append)+

lemma pvalue_number:
  assumes "jwf (JNum l)" and "at_stop r"
  shows "pvalue (Suc n) (l @ r) = Some (JNum l, r)"
proof -
  from assms(1) have v: "valid_number l" and l: "list_all is_numchar l" by simp_all
  obtain c t where c: "l = c # t" "c = CHR ''-'' \<or> is_digit c" using number_head [OF v] by blast
  have "number (l @ r) = Some (JNum l, r)"
    using v takeWhile_number [OF l assms(2)] by (simp add: number_def)
  then show ?thesis
    using c digit_not_special [of c] by (auto simp: is_ws_def)
qed

lemma pvalue_string: "pvalue (Suc n) (jquote s @ r) = Some (JStr (utf8_coerce s), r)"
  using unq_esc [of s r] by (simp add: jquote_def is_ws_def)

lemma pvalue_jprint_aux:
  "jwf j \<Longrightarrow> jsize j \<le> n \<Longrightarrow> at_stop r \<Longrightarrow> pvalue n (jprint j @ r) = Some (jcoerce j, r)"
  "\<forall>x \<in> set xs. jwf x \<Longrightarrow> xs \<noteq> [] \<Longrightarrow> sum_list (map (\<lambda>x. Suc (jsize x)) xs) \<le> n \<Longrightarrow>
     pelems n (jelems xs @ CHR '']'' # r) = Some (map jcoerce xs, r)"
  "\<forall>m \<in> set ms. jwf (snd m) \<Longrightarrow> ms \<noteq> [] \<Longrightarrow> sum_list (map (\<lambda>m. Suc (jsize (snd m))) ms) \<le> n \<Longrightarrow>
     pmembers n (jmembers ms @ CHR ''}'' # r)
       = Some (map (\<lambda>m. (utf8_coerce (fst m), jcoerce (snd m))) ms, r)"
proof (induction j and xs and ms arbitrary: n r and n r and n r rule: jprint_jelems_jmembers.induct)
  case 1
  then show ?case by (cases n) (simp_all add: is_ws_def literal_def)
next
  case (2 b)
  then show ?case by (cases n) (simp_all add: is_ws_def literal_def)
next
  case (3 l)
  then show ?case by (cases n) (simp_all add: pvalue_number del: pvalue.simps)
next
  case (4 s)
  then show ?case by (cases n) (simp_all add: pvalue_string del: pvalue.simps)
next
  case (5 xs)
  then obtain m where n: "n = Suc m" by (cases n) auto
  show ?case
  proof (cases xs)
    case Nil
    with n show ?thesis by (simp add: is_ws_def)
  next
    case (Cons x ys)
    with 5 have "jwf x" by simp
    then have "\<not> prefix '']'' (skip_ws (jelems xs @ CHR '']'' # r))"
      using Cons skip_ws_jprint jprint_head [of x] by fastforce
    moreover have "pelems m (jelems xs @ CHR '']'' # r) = Some (map jcoerce xs, r)"
      using 5 n Cons by simp
    ultimately show ?thesis by (simp add: n is_ws_def)
  qed
next
  case (6 ms)
  then obtain m where n: "n = Suc m" by (cases n) auto
  show ?case
  proof (cases ms)
    case Nil
    with n show ?thesis by (simp add: is_ws_def)
  next
    case (Cons kv ys)
    then have "\<not> prefix ''}'' (skip_ws (jmembers ms @ CHR ''}'' # r))"
      by (cases kv) (simp add: jquote_def is_ws_def)
    moreover have "pmembers m (jmembers ms @ CHR ''}'' # r)
        = Some (map (\<lambda>m. (utf8_coerce (fst m), jcoerce (snd m))) ms, r)"
      using 6 n Cons by simp
    ultimately show ?thesis by (simp add: n is_ws_def)
  qed
next
  case 7
  then show ?case by simp
next
  case (8 x xs)
  then obtain m where n: "n = Suc m" by (cases n) auto
  let ?t = "(if xs = [] then [] else CHR '','' # jelems xs) @ CHR '']'' # r"
  have stop: "at_stop ?t" by (simp add: at_stop_def)
  have "pvalue m (jprint x @ ?t) = Some (jcoerce x, ?t)"
    using 8 n stop by (intro "8.IH"(1)) auto
  then show ?case
    using 8 n skip_ws_stop [OF stop] by (cases "xs = []") auto
next
  case 9
  then show ?case by simp
next
  case (10 k v ms)
  then obtain m where n: "n = Suc m" by (cases n) auto
  let ?t = "(if ms = [] then [] else CHR '','' # jmembers ms) @ CHR ''}'' # r"
  have stop: "at_stop ?t" by (simp add: at_stop_def)
  have "pvalue m (jprint v @ ?t) = Some (jcoerce v, ?t)"
    using 10 n stop by (intro "10.IH"(1)) auto
  moreover have "unq (esc k @ CHR 0x22 # CHR '':'' # jprint v @ ?t) = Some (utf8_coerce k, CHR '':'' # jprint v @ ?t)"
    by (rule unq_esc)
  ultimately show ?case
    using 10 n skip_ws_stop [OF stop] by (cases "ms = []") (auto simp: jquote_def is_ws_def)
qed

lemma jsize_le_length:
  "jwf j \<Longrightarrow> jsize j \<le> length (jprint j)"
  "\<forall>x \<in> set xs. jwf x \<Longrightarrow> sum_list (map (\<lambda>x. Suc (jsize x)) xs) \<le> Suc (length (jelems xs))"
  "\<forall>m \<in> set ms. jwf (snd m) \<Longrightarrow> sum_list (map (\<lambda>m. Suc (jsize (snd m))) ms) \<le> Suc (length (jmembers ms))"
proof (induction j and xs and ms rule: jprint_jelems_jmembers.induct)
  case (3 l)
  then show ?case using number_head [of l] by fastforce
next
  case (8 x xs)
  then show ?case by (cases "xs = []") auto
next
  case (10 k v ms)
  then show ?case by (cases "ms = []") (auto simp: jquote_def)
qed (simp_all add: jquote_def)

lemma jparse_jprint: "jwf j \<Longrightarrow> jparse (jprint j) = Some (jcoerce j)"
  using pvalue_jprint_aux(1) [of j "Suc (length (jprint j))" "[]"] jsize_le_length(1) [of j]
  by (simp add: jparse_def at_stop_def skip_ws_def del: pvalue.simps)

section \<open>Integers\<close>

lemma is_digit_digit: "d < 10 \<Longrightarrow> is_digit (digit d)"
  by (simp add: is_digit_def digit_def)

lemma dec_digits: "list_all is_digit (dec n)"
proof (induction n rule: dec.induct)
  case (1 n)
  then show ?case by (subst dec.simps) (simp add: is_digit_digit)
qed

lemma dec_val_dec [simp]: "dec_val (dec n) = n"
proof (induction n rule: dec.induct)
  case (1 n)
  show ?case
  proof (cases "n < 10")
    case True
    then show ?thesis by (subst dec.simps) (simp add: dec_val_def digit_def)
  next
    case False
    with "1.IH" show ?thesis by (subst dec.simps) (simp add: dec_val_def digit_def)
  qed
qed

lemma hd_dec: "hd (dec n) = CHR ''0'' \<Longrightarrow> n = 0"
proof (induction n rule: dec.induct)
  case (1 n)
  show ?case
  proof (cases "n < 10")
    case True
    with "1.prems" have "digit n = digit 0" by (simp add: dec.simps [of n] digit_def char_of_eq_iff)
    with True show ?thesis by (simp add: digit_eq)
  next
    case False
    with "1" show ?thesis by (simp add: dec.simps [of n])
  qed
qed

lemma dec_0 [simp]: "dec 0 = ''0''"
  by (subst dec.simps) (simp add: digit_def char_of_eq_iff)

lemma not_digit_minus: "\<not> is_digit (CHR ''-'')"
  by (simp add: is_digit_def)

lemma dec_not_minus: "\<not> prefix ''-'' (dec n)"
  using dec_digits [of n] not_digit_minus by (cases "dec n") auto

lemma digit_runs:
  "list_all is_digit s \<Longrightarrow> takeWhile is_digit s = s"
  "list_all is_digit s \<Longrightarrow> dropWhile is_digit s = []"
  by (simp_all add: list_all_iff takeWhile_eq_all_conv dropWhile_eq_Nil_conv)

lemma valid_number_itoa: "valid_number (itoa z)"
  using hd_dec [of "nat z"] hd_dec [of "nat (- z)"] dec_not_minus [of "nat z"]
  by (auto simp: valid_number_def itoa_def Let_def digit_runs dec_digits valid_exp_def)

lemma numchar_itoa: "list_all is_numchar (itoa z)"
  using dec_digits [of "nat z"] dec_digits [of "nat (- z)"]
  by (auto simp: itoa_def is_numchar_def list_all_iff)

lemma jwf_jint [simp]: "jwf (jint z)"
  by (simp add: jint_def valid_number_itoa numchar_itoa)

lemma jcoerce_jint [simp]: "jcoerce (jint z) = jint z"
  by (simp add: jint_def)

lemma parse_int64_itoa [simp]: "in_i64 z \<Longrightarrow> parse_int64 (itoa z) = Some z"
  using dec_not_minus [of "nat z"]
  by (auto simp: parse_int64_def itoa_def Let_def digits1_def dec_digits)

lemma json_int_jint [simp]: "in_i64 z \<Longrightarrow> json_int (jint z) old = Some z"
  by (simp add: jint_def)

end
