(* ===== verification/Items.thy ===== *)
theory Items
  imports Json
begin

text \<open>
  The replicated item and the wire payload of \<open>src/sync/core/main.go\<close> with their JSON
  encodings.  \<open>marshal_item\<close> writes the fields in the order of the struct, leaving out
  the \<open>omitempty\<close> ones that are zero; \<open>unmarshal_item\<close> reads any JSON text into a struct.
  The round trip \<open>unmarshal_marshal_item\<close> gives the item back with its strings coerced to
  valid UTF-8; for an item whose strings are valid UTF-8 it is the identity.
\<close>

section \<open>Model\<close>

record SyncStoreItem =
  App :: string
  Key :: string
  Value :: string
  Timestamp :: int
  ID :: string
  WriteTimestamp :: int
  Deleted :: bool
  PublicKey :: string
  Signature :: string

record SyncPayload =
  Items :: "SyncStoreItem list"
  LastSyncTimestamp :: int

definition zeroItem :: SyncStoreItem where
  "zeroItem = \<lparr>App = [], Key = [], Value = [], Timestamp = 0, ID = [], WriteTimestamp = 0,
     Deleted = False, PublicKey = [], Signature = []\<rparr>"

definition omitempty :: "string \<Rightarrow> string \<Rightarrow> (string \<times> json) list" where
  "omitempty name v = (if v = [] then [] else [(name, JStr v)])"

definition item_json :: "SyncStoreItem \<Rightarrow> json" where
  "item_json it = JObj
     ([(''app'', JStr (App it)), (''key'', JStr (Key it)), (''value'', JStr (Value it)),
       (''timestamp'', jint (Timestamp it)), (''id'', JStr (ID it)),
       (''writeTimestamp'', jint (WriteTimestamp it))]
      @ (if Deleted it then [(''deleted'', JBool True)] else [])
      @ omitempty ''publicKey'' (PublicKey it)
      @ omitempty ''signature'' (Signature it))"

definition item_field :: "string \<Rightarrow> json \<Rightarrow> SyncStoreItem \<Rightarrow> SyncStoreItem option" where
  "item_field k v it =
     (if field_is ''app'' k then map_option (\<lambda>x. it\<lparr>App := x\<rparr>) (json_string v (App it))
      else if field_is ''key'' k then map_option (\<lambda>x. it\<lparr>Key := x\<rparr>) (json_string v (Key it))
      else if field_is ''value'' k then map_option (\<lambda>x. it\<lparr>Value := x\<rparr>) (json_string v (Value it))
      else if field_is ''timestamp'' k then map_option (\<lambda>x. it\<lparr>Timestamp := x\<rparr>) (json_int v (Timestamp it))
      else if field_is ''id'' k then map_option (\<lambda>x. it\<lparr>ID := x\<rparr>) (json_string v (ID it))
      else if field_is ''writeTimestamp'' k
        then map_option (\<lambda>x. it\<lparr>WriteTimestamp := x\<rparr>) (json_int v (WriteTimestamp it))
      else if field_is ''deleted'' k then map_option (\<lambda>x. it\<lparr>Deleted := x\<rparr>) (json_bool v (Deleted it))
      else if field_is ''publicKey'' k then map_option (\<lambda>x. it\<lparr>PublicKey := x\<rparr>) (json_string v (PublicKey it))
      else if field_is ''signature'' k then map_option (\<lambda>x. it\<lparr>Signature := x\<rparr>) (json_string v (Signature it))
      else Some it)"

definition marshal_item :: "SyncStoreItem \<Rightarrow> string" where
  "marshal_item it = jprint (item_json it)"

definition unmarshal_item :: "string \<Rightarrow> SyncStoreItem option" where
  "unmarshal_item s = Option.bind (jparse s) (json_struct item_field zeroItem)"

definition marshal_int64 :: "int \<Rightarrow> string" where
  "marshal_int64 z = jprint (jint z)"

definition unmarshal_int64 :: "string \<Rightarrow> int option" where
  "unmarshal_int64 s = Option.bind (jparse s) (\<lambda>j. json_int j 0)"

section \<open>Round trips\<close>

definition coerce_item :: "SyncStoreItem \<Rightarrow> SyncStoreItem" where
  "coerce_item it = it\<lparr>App := utf8_coerce (App it), Key := utf8_coerce (Key it),
     Value := utf8_coerce (Value it), ID := utf8_coerce (ID it),
     PublicKey := utf8_coerce (PublicKey it), Signature := utf8_coerce (Signature it)\<rparr>"

definition valid_item :: "SyncStoreItem \<Rightarrow> bool" where
  "valid_item it \<longleftrightarrow>
     utf8_valid (App it) \<and> utf8_valid (Key it) \<and> utf8_valid (Value it) \<and> utf8_valid (ID it) \<and>
     utf8_valid (PublicKey it) \<and> utf8_valid (Signature it) \<and>
     in_i64 (Timestamp it) \<and> in_i64 (WriteTimestamp it)"

lemma utf8_coerce_Nil [simp]: "utf8_coerce [] = []"
  by (subst utf8_coerce.simps) simp

lemma utf8_valid_Nil [simp]: "utf8_valid []"
  by (subst utf8_valid.simps) simp

lemma utf8_valid_ascii: "list_all (\<lambda>c. ord c < 128) s \<Longrightarrow> utf8_valid s"
proof (induction s)
  case (Cons c s)
  then show ?case by (subst utf8_valid.simps) (simp add: utf8_len_ascii1)
qed simp

lemma utf8_valid_append: "utf8_valid a \<Longrightarrow> utf8_valid b \<Longrightarrow> utf8_valid (a @ b)"
proof (induction a rule: utf8_valid.induct)
  case (1 a)
  show ?case
  proof (cases "a = []")
    case True
    then show ?thesis using 1 by simp
  next
    case False
    then have n: "utf8_len a \<noteq> 0" "utf8_valid (drop (utf8_len a) a)"
      using "1.prems"(1) by (auto simp: utf8_valid.simps [of a] split: if_splits)
    have "a @ b = take (utf8_len a) a @ (drop (utf8_len a) a @ b)" by simp
    then have len: "utf8_len (a @ b) = utf8_len a" using utf8_len_take [OF n(1)] by metis
    show ?thesis
      using "1.IH" [OF False n(1,2) "1.prems"(2)] False n(1) utf8_len_le [of a]
      by (simp add: utf8_valid.simps [of "a @ b"] len)
  qed
qed

lemma utf8_valid_Cons: "ord c < 128 \<Longrightarrow> utf8_valid s \<Longrightarrow> utf8_valid (c # s)"
  by (simp add: utf8_valid.simps [of "c # s"] utf8_len_ascii1)

lemma utf8_valid_take: "utf8_len s \<noteq> 0 \<Longrightarrow> utf8_valid (take (utf8_len s) s)"
  using utf8_len_take [of s "[]"] utf8_len_le [of s]
  by (simp add: utf8_valid.simps [of "take (utf8_len s) s"] utf8_valid.simps [of "[]"])

lemma hexdigit_ascii: "d < 16 \<Longrightarrow> ord (hexdigit d) < 128"
  by (simp add: hexdigit_def)

lemma utf8_valid_esc_ascii: "ord c < 128 \<Longrightarrow> utf8_valid (esc_ascii c)"
proof -
  assume c: "ord c < 128"
  have "ord c div 16 < 16" "ord c mod 16 < 16" using c by simp_all
  then have "list_all (\<lambda>c. ord c < 128) (esc_ascii c)"
    using c hexdigit_ascii by (simp add: esc_ascii_def)
  then show ?thesis by (rule utf8_valid_ascii)
qed

lemma utf8_valid_esc: "utf8_valid (esc s)"
proof (induction s rule: esc.induct)
  case (1 s)
  have u: "utf8_valid (CHR 0x5C # ''ufffd'')" "utf8_valid (CHR 0x5C # ''u2028'')" "utf8_valid (CHR 0x5C # ''u2029'')"
    by (simp_all add: utf8_valid_ascii)
  consider "s = []" | "s \<noteq> []" "utf8_len s = 0" | "s \<noteq> []" "utf8_len s = 1"
    | "s \<noteq> []" "utf8_len s \<noteq> 0" "utf8_len s \<noteq> 1" "prefix LineSep s"
    | "s \<noteq> []" "utf8_len s \<noteq> 0" "utf8_len s \<noteq> 1" "\<not> prefix LineSep s" "prefix ParSep s"
    | "s \<noteq> []" "utf8_len s \<noteq> 0" "utf8_len s \<noteq> 1" "\<not> prefix LineSep s" "\<not> prefix ParSep s"
    by blast
  then show ?case
  proof cases
    case 1
    then show ?thesis by (simp add: esc.simps utf8_valid.simps)
  next
    case 2
    then show ?thesis using "1.IH"(1) utf8_valid_append [OF u(1)] by (simp add: esc.simps [of s])
  next
    case 3
    have "ord (hd s) < 128" using 3 utf8_len_ascii by (cases s) auto
    then show ?thesis
      using 3 "1.IH"(2) utf8_valid_append [OF utf8_valid_esc_ascii] by (simp add: esc.simps [of s])
  next
    case 4
    then show ?thesis using "1.IH"(3) utf8_valid_append [OF u(2)] by (simp add: esc.simps [of s])
  next
    case 5
    then show ?thesis using "1.IH"(4) utf8_valid_append [OF u(3)] by (simp add: esc.simps [of s])
  next
    case 6
    then show ?thesis
      using "1.IH"(5) utf8_valid_append [OF utf8_valid_take] by (simp add: esc.simps [of s])
  qed
qed

lemma utf8_valid_jquote: "utf8_valid (jquote s)"
  using utf8_valid_append [OF utf8_valid_esc, of "[CHR 0x22]" s]
  by (simp add: jquote_def utf8_valid_Cons utf8_valid_ascii)

text \<open>What is printed is valid UTF-8, so it can itself be stored as a JSON string.\<close>

lemma utf8_valid_jprint:
  "jwf j \<Longrightarrow> utf8_valid (jprint j)"
  "\<forall>x \<in> set xs. jwf x \<Longrightarrow> utf8_valid (jelems xs)"
  "\<forall>m \<in> set ms. jwf (snd m) \<Longrightarrow> utf8_valid (jmembers ms)"
proof (induction j and xs and ms rule: jprint_jelems_jmembers.induct)
  case (3 l)
  then have "list_all (\<lambda>c. ord c < 128) l" by (auto simp: list_all_iff is_numchar_def is_digit_def)
  then show ?case by (simp add: utf8_valid_ascii)
qed (auto simp: utf8_valid_Cons utf8_valid_append utf8_valid_jquote utf8_valid_ascii)

lemma fold_names:
  "fold_name ''app'' = ''app''" "fold_name ''key'' = ''key''" "fold_name ''value'' = ''value''"
  "fold_name ''timestamp'' = ''timestamp''" "fold_name ''id'' = ''id''"
  "fold_name ''writeTimestamp'' = ''writetimestamp''" "fold_name ''deleted'' = ''deleted''"
  "fold_name ''publicKey'' = ''publickey''" "fold_name ''signature'' = ''signature''"
  by (simp_all add: char_of_eq_iff)

lemma utf8_names:
  "utf8_coerce ''app'' = ''app''" "utf8_coerce ''key'' = ''key''" "utf8_coerce ''value'' = ''value''"
  "utf8_coerce ''timestamp'' = ''timestamp''" "utf8_coerce ''id'' = ''id''"
  "utf8_coerce ''writeTimestamp'' = ''writeTimestamp''" "utf8_coerce ''deleted'' = ''deleted''"
  "utf8_coerce ''publicKey'' = ''publicKey''" "utf8_coerce ''signature'' = ''signature''"
  by (simp_all add: utf8_valid_ascii)

lemma jwf_item: "jwf (item_json it)"
  by (auto simp: item_json_def omitempty_def)

lemma fold_members_append:
  "fold_members f (xs @ ys) x = Option.bind (fold_members f xs x) (fold_members f ys)"
  by (induction xs arbitrary: x) (auto split: option.splits)

lemma item_struct_round_trip:
  assumes "in_i64 (Timestamp it)" and "in_i64 (WriteTimestamp it)"
  shows "json_struct item_field zeroItem (jcoerce (item_json it)) = Some (coerce_item it)"
  using assms
  by (cases it) (simp add: item_json_def omitempty_def utf8_names fold_members_append item_field_def
      field_is_def fold_names zeroItem_def coerce_item_def del: fold_name.simps)

lemma unmarshal_marshal_item:
  assumes "in_i64 (Timestamp it)" and "in_i64 (WriteTimestamp it)"
  shows "unmarshal_item (marshal_item it) = Some (coerce_item it)"
  using item_struct_round_trip [OF assms]
  by (simp add: unmarshal_item_def marshal_item_def jparse_jprint jwf_item)

lemma coerce_valid_item [simp]: "valid_item it \<Longrightarrow> coerce_item it = it"
  by (simp add: valid_item_def coerce_item_def)

lemma unmarshal_marshal_valid [simp]:
  "valid_item it \<Longrightarrow> unmarshal_item (marshal_item it) = Some it"
  using unmarshal_marshal_item [of it] by (simp add: valid_item_def)

lemma unmarshal_marshal_int64 [simp]: "in_i64 z \<Longrightarrow> unmarshal_int64 (marshal_int64 z) = Some z"
  by (simp add: unmarshal_int64_def marshal_int64_def jparse_jprint)

end
