(* ===== verification/Keys.thy ===== *)
theory Keys
  imports Json
begin

text \<open>
  The store keys of the sync engine, \<open>src/sync/core/main.go\<close>: view entries, value
  entries, queue entries, lock keys and peer cursors share one key-value store, so every
  proof about the engine rests on these facts: the five kinds of key never collide, a view
  entry gives its user key back, the entries of one user key are exactly the ones under
  its prefix and lie next to each other in byte order, and queue entries sort by write
  time.  They hold for user keys without a NUL byte; a key that contains one breaks the
  separator, which \<open>ViewPrefix_confusion\<close> shows.
\<close>

section \<open>Model\<close>

definition viewPrefixBase :: string where
  "viewPrefixBase = ''%sync%view%''"

definition ViewEntryKey :: "string \<Rightarrow> int \<Rightarrow> string \<Rightarrow> string" where
  "ViewEntryKey key ts uid = viewPrefixBase @ key @ NUL # pad19 ts @ ''%'' @ uid"

definition ViewPrefix :: "string \<Rightarrow> string" where
  "ViewPrefix key = viewPrefixBase @ key @ [NUL]"

definition extractUserKey :: "string \<Rightarrow> string" where
  "extractUserKey viewEntryKey =
     (let rest = drop (length viewPrefixBase) viewEntryKey
      in if NUL \<in> set rest then upto_char NUL rest else rest)"

definition LockKey :: "string \<Rightarrow> string" where
  "LockKey key = ''%sync%lock%'' @ key"

definition ViewKey :: "string \<Rightarrow> string" where
  "ViewKey key = ViewEntryKey key 0 []"

definition ValueKey :: "string \<Rightarrow> string" where
  "ValueKey uid = ''%sync%value%'' @ uid"

definition QueueKey :: "string \<Rightarrow> string" where
  "QueueKey uid = ''%sync%queue%'' @ uid"

definition QueueID :: "int \<Rightarrow> string \<Rightarrow> string \<Rightarrow> string" where
  "QueueID writeTime uid key = itoa writeTime @ ''%'' @ uid @ ''%'' @ key"

definition LastSyncOutKey :: "string \<Rightarrow> string" where
  "LastSyncOutKey peerID = ''%sync%lastsyncout%'' @ peerID"

lemmas key_defs = viewPrefixBase_def ViewEntryKey_def ViewPrefix_def LockKey_def ValueKey_def
  QueueKey_def LastSyncOutKey_def

section \<open>The kinds of key are disjoint\<close>

lemma key_kinds_disjoint [key_simps]:
  "ValueKey a \<noteq> QueueKey b" "ValueKey a \<noteq> ViewEntryKey k ts b" "ValueKey a \<noteq> LockKey b"
  "ValueKey a \<noteq> LastSyncOutKey b" "QueueKey a \<noteq> ValueKey b" "QueueKey a \<noteq> ViewEntryKey k ts b"
  "QueueKey a \<noteq> LockKey b" "QueueKey a \<noteq> LastSyncOutKey b" "ViewEntryKey k ts b \<noteq> ValueKey a"
  "ViewEntryKey k ts b \<noteq> QueueKey a" "ViewEntryKey k ts b \<noteq> LockKey a"
  "ViewEntryKey k ts b \<noteq> LastSyncOutKey a" "LockKey b \<noteq> ValueKey a" "LockKey b \<noteq> QueueKey a"
  "LockKey b \<noteq> ViewEntryKey k ts a" "LockKey b \<noteq> LastSyncOutKey a" "LastSyncOutKey b \<noteq> ValueKey a"
  "LastSyncOutKey b \<noteq> QueueKey a" "LastSyncOutKey b \<noteq> ViewEntryKey k ts a" "LastSyncOutKey b \<noteq> LockKey a"
  by (simp_all add: key_defs)

lemma key_inject [key_simps]:
  "ValueKey a = ValueKey b \<longleftrightarrow> a = b" "QueueKey a = QueueKey b \<longleftrightarrow> a = b"
  "LockKey a = LockKey b \<longleftrightarrow> a = b" "LastSyncOutKey a = LastSyncOutKey b \<longleftrightarrow> a = b"
  by (simp_all add: key_defs)

lemma prefix_kinds [key_simps]:
  "\<not> prefix (ViewPrefix k) (ValueKey a)" "\<not> prefix (ViewPrefix k) (QueueKey a)"
  "\<not> prefix (ViewPrefix k) (LockKey a)" "\<not> prefix (ViewPrefix k) (LastSyncOutKey a)"
  "\<not> prefix (QueueKey []) (ValueKey a)" "\<not> prefix (QueueKey []) (ViewEntryKey k ts a)"
  "\<not> prefix (QueueKey []) (LockKey a)" "\<not> prefix (QueueKey []) (LastSyncOutKey a)"
  "prefix (QueueKey []) (QueueKey a)"
  by (simp_all add: key_defs)

lemma prefix_base_kinds [key_simps]:
  "\<not> prefix (viewPrefixBase @ p) (ValueKey a)" "\<not> prefix (viewPrefixBase @ p) (QueueKey a)"
  "\<not> prefix (viewPrefixBase @ p) (LockKey a)" "\<not> prefix (viewPrefixBase @ p) (LastSyncOutKey a)"
  by (simp_all add: key_defs)

section \<open>View entries\<close>

lemma nul_free_split:
  assumes "nul_free k" and "nul_free k'"
  shows "k @ NUL # x = k' @ NUL # y \<longleftrightarrow> k = k' \<and> x = y"
  using assms
proof (induction k arbitrary: k')
  case Nil
  then show ?case by (cases k') (auto simp: nul_free_def)
next
  case (Cons c k)
  then show ?case by (cases k') (auto simp: nul_free_def)
qed

lemma nul_free_prefix:
  assumes "nul_free k" and "nul_free k'"
  shows "prefix (k @ [NUL]) (k' @ NUL # x) \<longleftrightarrow> k = k'"
  using assms
proof (induction k arbitrary: k')
  case Nil
  then show ?case by (cases k') (auto simp: nul_free_def)
next
  case (Cons c k)
  then show ?case by (cases k') (auto simp: nul_free_def)
qed

lemma ViewPrefix_entry [key_simps]:
  assumes "nul_free k" and "nul_free k'"
  shows "prefix (ViewPrefix k) (ViewEntryKey k' ts uid) \<longleftrightarrow> k = k'"
  using nul_free_prefix [OF assms] by (simp add: ViewPrefix_def ViewEntryKey_def)

lemma extractUserKey_entry [key_simps]:
  assumes "nul_free k"
  shows "extractUserKey (ViewEntryKey k ts uid) = k"
proof -
  have "takeWhile (\<lambda>x. x \<noteq> NUL) (k @ NUL # x) = k" for x
    using assms by (induction k) (auto simp: nul_free_def)
  then show ?thesis by (simp add: extractUserKey_def ViewEntryKey_def upto_char_def)
qed

lemma dec_no_percent: "CHR ''%'' \<notin> set (dec n)"
proof (induction n rule: dec.induct)
  case (1 n)
  have "CHR ''%'' \<noteq> digit d" if "d < 10" for d
  proof
    assume "CHR ''%'' = digit d"
    then have "(of_char (digit d) :: nat) = of_char (CHR ''%'')" by simp
    with that show False by (simp add: digit_def)
  qed
  with 1 show ?case by (subst dec.simps) simp
qed

lemma pad19_no_percent: "CHR ''%'' \<notin> set (pad19 z)"
  by (auto simp: pad19_def zeros_def Let_def dec_no_percent)

lemma itoa_no_percent: "CHR ''%'' \<notin> set (itoa z)"
  by (auto simp: itoa_def dec_no_percent)

lemma split_at_percent:
  assumes "CHR ''%'' \<notin> set a" and "CHR ''%'' \<notin> set b"
  shows "a @ CHR ''%'' # x = b @ CHR ''%'' # y \<longleftrightarrow> a = b \<and> x = y"
  using assms
proof (induction a arbitrary: b)
  case Nil
  then show ?case by (cases b) auto
next
  case (Cons c a)
  then show ?case by (cases b) auto
qed

lemma dec_val_zeros [simp]: "dec_val (zeros n @ s) = dec_val s"
  by (induction n) (simp_all add: zeros_def dec_val_def)

lemma pad19_inject: "pad19 y = pad19 z \<longleftrightarrow> y = z"
proof
  assume eq: "pad19 y = pad19 z"
  have nonneg: "dec_val (pad19 x) = nat x" if "0 \<le> x" for x
    using that by (simp add: pad19_def Let_def)
  have neg: "dec_val (tl (pad19 x)) = nat (- x)" if "x < 0" for x
    using that by (simp add: pad19_def Let_def)
  have hd_neg: "hd (pad19 x) = CHR ''-''" if "x < 0" for x
    using that by (simp add: pad19_def Let_def)
  have hd_nonneg: "hd (pad19 x) \<noteq> CHR ''-''" if "0 \<le> x" for x
    using that dec_not_minus [of "nat x"]
    by (cases "dec (nat x)"; cases "19 - length (dec (nat x))") (auto simp: pad19_def Let_def zeros_def)
  show "y = z"
    using eq nonneg [of y] nonneg [of z] neg [of y] neg [of z] hd_neg [of y] hd_neg [of z]
      hd_nonneg [of y] hd_nonneg [of z] by (cases "y < 0"; cases "z < 0") auto
qed simp

lemma ViewEntryKey_inject [key_simps]:
  assumes "nul_free k" and "nul_free k'"
  shows "ViewEntryKey k ts u = ViewEntryKey k' ts' u' \<longleftrightarrow> k = k' \<and> ts = ts' \<and> u = u'"
proof -
  have "pad19 ts @ CHR ''%'' # u = pad19 ts' @ CHR ''%'' # u' \<longleftrightarrow> ts = ts' \<and> u = u'"
    using split_at_percent [OF pad19_no_percent pad19_no_percent] by (simp add: pad19_inject)
  then show ?thesis using nul_free_split [OF assms] by (auto simp: ViewEntryKey_def)
qed

lemma QueueID_inject:
  "QueueID t u k = QueueID t' u' k' \<longleftrightarrow> itoa t = itoa t' \<and> u @ ''%'' @ k = u' @ ''%'' @ k'"
  using split_at_percent [OF itoa_no_percent itoa_no_percent] by (simp add: QueueID_def)

lemma ord_NUL: "ord c = 0 \<longleftrightarrow> c = NUL"
  using of_char_eq_iff [where ?'a = nat, of c NUL] by simp

lemma NUL_less: "c \<noteq> NUL \<Longrightarrow> NUL < c"
  using ord_NUL [of c] by (simp add: less_char_def)

lemma SOH_le: "c \<noteq> NUL \<Longrightarrow> CHR 0x01 \<le> c"
  using ord_NUL [of c] by (simp add: less_eq_char_def)

lemma nul_free_order:
  assumes "nul_free k" and "nul_free k'" and "k < k'"
  shows "k @ NUL # x < k' @ NUL # y"
  using assms
proof (induction k arbitrary: k')
  case Nil
  then obtain c t where "k' = c # t" by (cases k') auto
  moreover from this Nil have "NUL < c" by (auto simp: nul_free_def NUL_less)
  ultimately show ?case by simp
next
  case (Cons c k)
  then show ?case by (cases k') (auto simp: nul_free_def)
qed

lemma ViewEntryKey_order:
  assumes "nul_free k" and "nul_free k'" and "k < k'"
  shows "ViewEntryKey k ts u < ViewEntryKey k' ts' u'"
  using nul_free_order [OF assms] by (simp add: ViewEntryKey_def)

lemma after_key_cursor:
  assumes "nul_free k" and "nul_free sa"
  shows "sa @ [CHR 0x01] < k @ NUL # x \<longleftrightarrow> sa < k"
  using assms
proof (induction sa arbitrary: k)
  case Nil
  show ?case
  proof (cases k)
    case Nil
    then show ?thesis by (simp add: less_char_def)
  next
    case (Cons c t)
    with Nil.prems have "CHR 0x01 < c \<or> CHR 0x01 = c"
      using SOH_le [of c] by (auto simp: nul_free_def le_less)
    then show ?thesis using Cons by auto
  qed
next
  case (Cons c sa)
  then show ?case by (cases k) (auto simp: nul_free_def NUL_less less_char_def)
qed

section \<open>Queue entries sort by write time\<close>

text \<open>
  Queue keys print the write time without padding.  Times of the same number of digits,
  as all Unix nanoseconds between the years 2001 and 2286 are, sort numerically; the
  cursor bound \<open>{ts}~\<close> lies after every entry of time \<open>ts\<close> and before every later one.
\<close>

definition nano19 :: "int \<Rightarrow> bool" where
  "nano19 t \<longleftrightarrow> 10 ^ 18 \<le> t \<and> t < 10 ^ 19"

lemma length_dec_nano19:
  assumes "nano19 t"
  shows "length (dec (nat t)) = 19"
proof -
  have "length (dec (10 ^ 18)) = 19" and "length (dec (10 ^ 19 - 1)) = 19"
    by (simp_all add: dec.simps)
  moreover have "length (dec (10 ^ 18)) \<le> length (dec (nat t))"
    and "length (dec (nat t)) \<le> length (dec (10 ^ 19 - 1))"
    using assms by (intro length_dec_mono; simp add: nano19_def le_nat_iff nat_le_iff)+
  ultimately show ?thesis by simp
qed

lemma queue_cursor_order:
  assumes "nano19 t" and "nano19 c"
  shows "QueueKey (itoa c @ ''~'') < QueueKey (QueueID t u k) \<longleftrightarrow> c < t"
proof -
  have len: "length (dec (nat c)) = length (dec (nat t))"
    using assms length_dec_nano19 by simp
  have "itoa c = dec (nat c)" "itoa t = dec (nat t)"
    using assms by (auto simp: itoa_def nano19_def)
  then show ?thesis
    using assms dec_less [OF len]
    by (auto simp: QueueKey_def QueueID_def append_less_eqlen [OF len] nano19_def less_char_def)
qed

lemma queue_time_order:
  assumes "nano19 t" and "nano19 t'" and "t < t'"
  shows "QueueKey (QueueID t u k) < QueueKey (QueueID t' u' k')"
proof -
  have len: "length (dec (nat t)) = length (dec (nat t'))"
    using assms length_dec_nano19 by simp
  have "itoa t = dec (nat t)" "itoa t' = dec (nat t')"
    using assms by (auto simp: itoa_def nano19_def)
  then show ?thesis
    using assms dec_less [OF len]
    by (auto simp: QueueKey_def QueueID_def append_less_eqlen [OF len] nano19_def)
qed

lemma queue_zero_cursor:
  assumes "nano19 t"
  shows "QueueKey (itoa 0 @ ''~'') < QueueKey (QueueID t u k)"
proof -
  obtain c r where c: "dec (nat t) = c # r" by (cases "dec (nat t)") auto
  have "is_digit c" using dec_digits [of "nat t"] c by simp
  moreover have "c \<noteq> CHR ''0''" using hd_dec [of "nat t"] c assms by (auto simp: nano19_def)
  ultimately have "CHR ''0'' < c"
    using of_char_eq_iff [where ?'a = nat, of c "CHR ''0''"] by (simp add: is_digit_def less_char_def)
  then show ?thesis using c assms by (simp add: QueueKey_def QueueID_def itoa_def nano19_def)
qed

lemma ViewPrefix_confusion:
  "prefix (ViewPrefix ''a'') (ViewEntryKey (''a'' @ NUL # ''b'') ts uid)"
  by (simp add: key_defs)

end
