(* ===== verification/Core.thy ===== *)
theory Core
  imports Store Items Keys
begin

text \<open>
  The sync engine \<open>StoreSync\<close> of \<open>src/sync/core/main.go\<close>, over any implementation
  \<open>S\<close> of the \<open>Store\<close> interface.  This theory holds the state and every operation;
  the proofs are in the theories that import it.

  The state record keeps the fields of the Go struct.  The variables that the registered
  callbacks (hooks and listeners) capture are one component \<open>hookState\<close> of type \<open>'x\<close>,
  which the callbacks read and update; a callback that needs the raw store
  (\<open>PostSyncOut\<close>) is also given it.  What the code reads from its environment is part of
  the state too: \<open>clock\<close> is the sequence of readings of \<open>time.Now().UnixNano()\<close> and
  \<open>uuids\<close> the sequence of values of \<open>uuid.New()\<close>, both consumed in order.  The Go map of
  listeners is an association list in order of registration.  Arithmetic on times wraps at
  64 bits.

  Loops over pages of the store end only if the store answers lawfully, so they are partial
  functions into \<open>option\<close>; the theories above prove that they return.
\<close>

section \<open>State\<close>

definition MaxSyncInItems :: nat where "MaxSyncInItems = 5000"
definition MaxSyncOutLimit :: int where "MaxSyncOutLimit = 1000"
definition MaxClockSkew :: int where "MaxClockSkew = 5 * 60 * 1000000000"

record gcRequest =
  gcrKey :: string
  gcrCurrentID :: string

type_synonym 'x UpdateListener = "SyncStoreItem \<Rightarrow> 'x \<Rightarrow> 'x"
type_synonym 'x SyncOutFilter = "SyncStoreItem \<Rightarrow> string \<Rightarrow> 'x \<Rightarrow> bool"
type_synonym 'x SyncInFilter = "SyncStoreItem \<Rightarrow> string \<Rightarrow> 'x \<Rightarrow> bool \<times> 'x"
type_synonym ('s, 'x) PostSyncOut = "SyncStoreItem list \<Rightarrow> string \<Rightarrow> 's \<Rightarrow> 'x \<Rightarrow> 's \<times> 'x"
type_synonym PreSetItem = "SyncStoreItem \<Rightarrow> SyncStoreItem"
type_synonym 'x OnSyncComplete = "string \<Rightarrow> nat \<Rightarrow> nat \<Rightarrow> 'x \<Rightarrow> 'x"

record ('s, 'x) StoreSync =
  store :: 's
  timeOffset :: int
  maxClockSkew :: int
  listeners :: "(nat \<times> 'x UpdateListener) list"
  nextListenID :: nat
  syncOutFilters :: "'x SyncOutFilter list"
  syncInFilters :: "'x SyncInFilter list"
  postSyncOuts :: "('s, 'x) PostSyncOut list"
  preSetItems :: "PreSetItem list"
  onSyncCompletes :: "'x OnSyncComplete list"
  gcWorkers :: int
  gcCh :: "gcRequest list"
  done_closed :: bool
  hookState :: 'x
  clock :: "nat \<Rightarrow> int"
  ticks :: nat
  uuids :: "nat \<Rightarrow> string"
  uuidsUsed :: nat

type_synonym ('s, 'x) Option = "('s, 'x) StoreSync \<Rightarrow> ('s, 'x) StoreSync"

definition WithTimeOffset :: "int \<Rightarrow> ('s, 'x) Option" where
  "WithTimeOffset offset s = s\<lparr>timeOffset := offset\<rparr>"

definition WithSyncOutFilter :: "'x SyncOutFilter \<Rightarrow> ('s, 'x) Option" where
  "WithSyncOutFilter fn s = s\<lparr>syncOutFilters := syncOutFilters s @ [fn]\<rparr>"

definition WithSyncInFilter :: "'x SyncInFilter \<Rightarrow> ('s, 'x) Option" where
  "WithSyncInFilter fn s = s\<lparr>syncInFilters := syncInFilters s @ [fn]\<rparr>"

definition WithPostSyncOut :: "('s, 'x) PostSyncOut \<Rightarrow> ('s, 'x) Option" where
  "WithPostSyncOut fn s = s\<lparr>postSyncOuts := postSyncOuts s @ [fn]\<rparr>"

definition WithPreSetItem :: "PreSetItem \<Rightarrow> ('s, 'x) Option" where
  "WithPreSetItem fn s = s\<lparr>preSetItems := preSetItems s @ [fn]\<rparr>"

definition WithOnSyncComplete :: "'x OnSyncComplete \<Rightarrow> ('s, 'x) Option" where
  "WithOnSyncComplete fn s = s\<lparr>onSyncCompletes := onSyncCompletes s @ [fn]\<rparr>"

definition WithGCWorkers :: "int \<Rightarrow> ('s, 'x) Option" where
  "WithGCWorkers n s = s\<lparr>gcWorkers := n\<rparr>"

definition WithMaxClockSkew :: "int \<Rightarrow> ('s, 'x) Option" where
  "WithMaxClockSkew d s = s\<lparr>maxClockSkew := d\<rparr>"

text \<open>
  \<open>New\<close> and \<open>NewWithOptions\<close>.  The last three arguments are the environment of the new
  engine: the initial captured variables of its callbacks, the clock and the UUID source.
\<close>

definition NewWithOptions ::
  "'s \<Rightarrow> ('s, 'x) Option list \<Rightarrow> 'x \<Rightarrow> (nat \<Rightarrow> int) \<Rightarrow> (nat \<Rightarrow> string) \<Rightarrow> ('s, 'x) StoreSync" where
  "NewWithOptions st opts x clk us =
     fold (\<lambda>opt s. opt s) opts
       \<lparr>store = st, timeOffset = 10000000000, maxClockSkew = MaxClockSkew,
        listeners = [], nextListenID = 0,
        syncOutFilters = [], syncInFilters = [], postSyncOuts = [], preSetItems = [],
        onSyncCompletes = [], gcWorkers = 4, gcCh = [], done_closed = False,
        hookState = x, clock = clk, ticks = 0, uuids = us, uuidsUsed = 0\<rparr>"

definition NewSync ::
  "'s \<Rightarrow> int list \<Rightarrow> 'x \<Rightarrow> (nat \<Rightarrow> int) \<Rightarrow> (nat \<Rightarrow> string) \<Rightarrow> ('s, 'x) StoreSync" where
  "NewSync st offsets x clk us =
     (let offset = (case offsets of [] \<Rightarrow> 10000000000 | o1 # _ \<Rightarrow> o1)
      in NewWithOptions st [WithTimeOffset offset] x clk us)"

section \<open>Environment and store calls\<close>

definition time_now :: "('s, 'x) StoreSync \<Rightarrow> int \<times> ('s, 'x) StoreSync" where
  "time_now s = (clock s (ticks s), s\<lparr>ticks := Suc (ticks s)\<rparr>)"

definition uuid_new :: "('s, 'x) StoreSync \<Rightarrow> string \<times> ('s, 'x) StoreSync" where
  "uuid_new s = (uuids s (uuidsUsed s), s\<lparr>uuidsUsed := Suc (uuidsUsed s)\<rparr>)"

definition call :: "('s \<Rightarrow> ('a, 's) outcome) \<Rightarrow> ('s, 'x) StoreSync \<Rightarrow> ('a, ('s, 'x) StoreSync) outcome" where
  "call f s = (fst (f (store s)), s\<lparr>store := snd (f (store s))\<rparr>)"

text \<open>A call whose error is not looked at.\<close>

definition call_ignore :: "('s \<Rightarrow> ('a, 's) outcome) \<Rightarrow> ('s, 'x) StoreSync \<Rightarrow> ('s, 'x) StoreSync" where
  "call_ignore f s = snd (call f s)"

section \<open>Listeners\<close>

definition OnUpdate :: "'x UpdateListener \<Rightarrow> ('s, 'x) StoreSync \<Rightarrow> nat \<times> ('s, 'x) StoreSync" where
  "OnUpdate fn s =
     (let n = Suc (nextListenID s)
      in (n, s\<lparr>nextListenID := n, listeners := AList.update n fn (listeners s)\<rparr>))"

text \<open>The function that \<open>OnUpdate\<close> returns.\<close>

definition unsubscribe :: "nat \<Rightarrow> ('s, 'x) StoreSync \<Rightarrow> ('s, 'x) StoreSync" where
  "unsubscribe n s = s\<lparr>listeners := AList.delete n (listeners s)\<rparr>"

definition notifyListeners :: "SyncStoreItem \<Rightarrow> ('s, 'x) StoreSync \<Rightarrow> ('s, 'x) StoreSync" where
  "notifyListeners item s =
     s\<lparr>hookState := fold (\<lambda>fn x. fn item x) (map snd (listeners s)) (hookState s)\<rparr>"

section \<open>Garbage collection requests\<close>

definition offerGC :: "gcRequest \<Rightarrow> ('s, 'x) StoreSync \<Rightarrow> ('s, 'x) StoreSync" where
  "offerGC r s = (if length (gcCh s) < 256 then s\<lparr>gcCh := gcCh s @ [r]\<rparr> else s)"

definition drainGC :: "('s, 'x) StoreSync \<Rightarrow> ('s, 'x) StoreSync" where
  "drainGC s = s\<lparr>gcCh := []\<rparr>"

text \<open>Closing the channel \<open>done\<close> a second time panics.\<close>

definition CloseSync :: "('s, 'x) StoreSync \<Rightarrow> (unit, ('s, 'x) StoreSync) outcome" where
  "CloseSync s =
     (if done_closed s then (Inl (Errorf ''panic: close of closed channel''), s)
      else (Inr (), drainGC (s\<lparr>done_closed := True\<rparr>)))"

section \<open>Reading\<close>

text \<open>The winner between two versions: later timestamp, then greater ID.\<close>

definition newer :: "SyncStoreItem \<Rightarrow> SyncStoreItem \<Rightarrow> bool" where
  "newer c w \<longleftrightarrow> Timestamp c > Timestamp w \<or> (Timestamp c = Timestamp w \<and> ID c > ID w)"

definition getValue :: "'s Store \<Rightarrow> string \<Rightarrow> ('s, 'x) StoreSync \<Rightarrow> (SyncStoreItem, ('s, 'x) StoreSync) outcome" where
  "getValue S uid s =
     (case call (sGet S (ValueKey uid)) s of
        (Inl e, s) \<Rightarrow> (Inl e, s)
      | (Inr raw, s) \<Rightarrow>
          (case unmarshal_item raw of
             None \<Rightarrow> (Inl (Errorf ''json: cannot unmarshal''), s)
           | Some item \<Rightarrow> (Inr item, s)))"

fun getItem_loop ::
  "'s Store \<Rightarrow> KeyValuePair list \<Rightarrow> SyncStoreItem option \<Rightarrow> bool \<Rightarrow> ('s, 'x) StoreSync \<Rightarrow>
     (SyncStoreItem option \<times> bool, ('s, 'x) StoreSync) outcome" where
  "getItem_loop S [] winner hasLosers s = (Inr (winner, hasLosers), s)"
| "getItem_loop S (kv # kvs) winner hasLosers s =
     (case getValue S (kvValue kv) s of
        (Inl e, s) \<Rightarrow>
          if errors_Is e ErrNotFound then getItem_loop S kvs winner True s else (Inl e, s)
      | (Inr item, s) \<Rightarrow>
          (case winner of
             None \<Rightarrow> getItem_loop S kvs (Some item) hasLosers s
           | Some w \<Rightarrow>
               if newer item w then getItem_loop S kvs (Some item) True s
               else getItem_loop S kvs (Some w) True s))"

definition getItem :: "'s Store \<Rightarrow> string \<Rightarrow> ('s, 'x) StoreSync \<Rightarrow> (SyncStoreItem, ('s, 'x) StoreSync) outcome" where
  "getItem S key s =
     (case call (sList S \<lparr>Prefix = ViewPrefix key, StartAfter = [], Limit = 0\<rparr>) s of
        (Inl e, s) \<Rightarrow> (Inl e, s)
      | (Inr entries, s) \<Rightarrow>
          if entries = [] then (Inl ErrNotFound, s)
          else (case getItem_loop S entries None False s of
                  (Inl e, s) \<Rightarrow> (Inl e, s)
                | (Inr (None, _), s) \<Rightarrow> (Inl ErrNotFound, s)
                | (Inr (Some w, hasLosers), s) \<Rightarrow>
                    (Inr w, if hasLosers then offerGC \<lparr>gcrKey = key, gcrCurrentID = ID w\<rparr> s else s)))"

definition GetItem :: "'s Store \<Rightarrow> string \<Rightarrow> ('s, 'x) StoreSync \<Rightarrow> (SyncStoreItem, ('s, 'x) StoreSync) outcome" where
  "GetItem S key s =
     (case getItem S key s of
        (Inl e, s) \<Rightarrow> (Inl e, s)
      | (Inr item, s) \<Rightarrow> if Deleted item then (Inl ErrNotFound, s) else (Inr item, s))"

definition GetSync :: "'s Store \<Rightarrow> string \<Rightarrow> ('s, 'x) StoreSync \<Rightarrow> (string, ('s, 'x) StoreSync) outcome" where
  "GetSync S key s =
     (case getItem S key s of
        (Inl e, s) \<Rightarrow> (Inl e, s)
      | (Inr item, s) \<Rightarrow> if Deleted item then (Inl ErrNotFound, s) else (Inr (Value item), s))"

section \<open>Writing\<close>

text \<open>The second half of \<open>setItem\<close>: the writes, their roll-back, and the notification.\<close>

definition setItem_write ::
  "'s Store \<Rightarrow> SyncStoreItem \<Rightarrow> int \<Rightarrow> (SyncStoreItem \<Rightarrow> ('s, 'x) StoreSync \<Rightarrow> ('s, 'x) StoreSync) option \<Rightarrow>
     ('s, 'x) StoreSync \<Rightarrow> (unit, ('s, 'x) StoreSync) outcome" where
  "setItem_write S item writeTime notify s =
     (let item = item\<lparr>WriteTimestamp := writeTime\<rparr>;
          queueID = QueueID writeTime (ID item) (Key item);
          item = fold (\<lambda>hook it. hook it) (preSetItems s) item;
          encoded = marshal_item item;
          viewEntryKey = ViewEntryKey (Key item) (Timestamp item) (ID item)
      in case call (sSet S (QueueKey queueID) (ID item)) s of
           (Inl e, s) \<Rightarrow> (Inl e, s)
         | (Inr _, s) \<Rightarrow>
      (case call (sSet S viewEntryKey (ID item)) s of
           (Inl e, s) \<Rightarrow> (Inl e, call_ignore (sDelete S (QueueKey queueID)) s)
         | (Inr _, s) \<Rightarrow>
      (case call (sSet S (ValueKey (ID item)) encoded) s of
           (Inl e, s) \<Rightarrow>
             (Inl e, call_ignore (sDelete S viewEntryKey) (call_ignore (sDelete S (QueueKey queueID)) s))
         | (Inr _, s) \<Rightarrow>
      (case time_now s of (now, s) \<Rightarrow>
         if now > writeTime then
           (Inl (Errorf ''write time is in the past''),
            call_ignore (sDelete S (ValueKey (ID item)))
              (call_ignore (sDelete S viewEntryKey) (call_ignore (sDelete S (QueueKey queueID)) s)))
         else
           (let s = offerGC \<lparr>gcrKey = Key item, gcrCurrentID = ID item\<rparr> s
            in (Inr (), case notify of None \<Rightarrow> s | Some f \<Rightarrow> f item s))))))"

definition setItem ::
  "'s Store \<Rightarrow> SyncStoreItem \<Rightarrow> (SyncStoreItem \<Rightarrow> ('s, 'x) StoreSync \<Rightarrow> ('s, 'x) StoreSync) option \<Rightarrow>
     ('s, 'x) StoreSync \<Rightarrow> (unit, ('s, 'x) StoreSync) outcome" where
  "setItem S item notify s =
     (case time_now s of (now, s) \<Rightarrow>
        let maxTimestamp = i64 (now + timeOffset s + maxClockSkew s) in
        if Timestamp item > maxTimestamp
        then (Inl (Errorf ''item timestamp too far in the future''), s)
        else
          (case time_now s of (now, s) \<Rightarrow>
             let writeTime = i64 (now + timeOffset s) in
             (case getItem S (Key item) s of
                (Inl e, s) \<Rightarrow>
                  if \<not> errors_Is e ErrNotFound then (Inl e, s)
                  else setItem_write S item writeTime notify s
              | (Inr existing, s) \<Rightarrow>
                  if Timestamp existing > Timestamp item \<or> ID existing = ID item
                  then (Inl ErrStaleWrite, s)
                  else setItem_write S item writeTime notify s)))"

definition SetItem ::
  "'s Store \<Rightarrow> string \<Rightarrow> string \<Rightarrow> string \<Rightarrow> ('s, 'x) StoreSync \<Rightarrow> (unit, ('s, 'x) StoreSync) outcome" where
  "SetItem S app key value s =
     (case time_now s of (now, s) \<Rightarrow>
      (case uuid_new s of (u, s) \<Rightarrow>
        let item = zeroItem\<lparr>App := app, Key := key, Value := value, Timestamp := now, ID := u\<rparr>
        in (case setItem S item (Some notifyListeners) s of
              (Inl e, s) \<Rightarrow> if errors_Is e ErrStaleWrite then (Inr (), s) else (Inl e, s)
            | (Inr _, s) \<Rightarrow> (Inr (), s))))"

definition SetSync ::
  "'s Store \<Rightarrow> string \<Rightarrow> string \<Rightarrow> ('s, 'x) StoreSync \<Rightarrow> (unit, ('s, 'x) StoreSync) outcome" where
  "SetSync S key value s = SetItem S [] key value s"

text \<open>\<open>SetIfNotExists\<close> after it has won the lock key: value, queue, view, and the clock check.\<close>

definition claim_write ::
  "'s Store \<Rightarrow> SyncStoreItem \<Rightarrow> ('s, 'x) StoreSync \<Rightarrow> (bool, ('s, 'x) StoreSync) outcome" where
  "claim_write S item s =
     (case time_now s of (now, s) \<Rightarrow>
        let writeTime = i64 (now + timeOffset s);
            item = item\<lparr>WriteTimestamp := writeTime\<rparr>;
            encoded = marshal_item item;
            queueID = QueueID writeTime (ID item) (Key item);
            viewEntryKey = ViewEntryKey (Key item) (Timestamp item) (ID item)
        in case call (sSet S (ValueKey (ID item)) encoded) s of
             (Inl e, s) \<Rightarrow> (Inl e, s)
           | (Inr _, s) \<Rightarrow>
        (case call (sSet S (QueueKey queueID) (ID item)) s of
             (Inl e, s) \<Rightarrow> (Inl e, call_ignore (sDelete S (ValueKey (ID item))) s)
           | (Inr _, s) \<Rightarrow>
        (case call (sSet S viewEntryKey (ID item)) s of
             (Inl e, s) \<Rightarrow>
               (Inl e, call_ignore (sDelete S (ValueKey (ID item)))
                         (call_ignore (sDelete S (QueueKey queueID)) s))
           | (Inr _, s) \<Rightarrow>
        (case time_now s of (now, s) \<Rightarrow>
           if now > writeTime then
             (Inl (Errorf ''write time is in the past''),
              call_ignore (sDelete S (LockKey (Key item)))
                (call_ignore (sDelete S (ValueKey (ID item)))
                  (call_ignore (sDelete S (QueueKey queueID))
                    (call_ignore (sDelete S viewEntryKey) s))))
           else
             (Inr True, notifyListeners item
                (offerGC \<lparr>gcrKey = Key item, gcrCurrentID = ID item\<rparr> s))))))"

definition SetIfNotExistsSync ::
  "'s Store \<Rightarrow> string \<Rightarrow> string \<Rightarrow> ('s, 'x) StoreSync \<Rightarrow> (bool, ('s, 'x) StoreSync) outcome" where
  "SetIfNotExistsSync S key value s =
     (let claim = (\<lambda>s.
        (case time_now s of (now, s) \<Rightarrow>
         (case uuid_new s of (u, s) \<Rightarrow>
           let item = zeroItem\<lparr>App := [], Key := key, Value := value, Timestamp := now, ID := u\<rparr>
           in (case call (sSetIfNotExists S (LockKey key) (ID item)) s of
                 (Inl e, s) \<Rightarrow> (Inl e, s)
               | (Inr created, s) \<Rightarrow>
                   if \<not> created then (Inr False, s) else claim_write S item s))))
      in (case getItem S key s of
            (Inl e, s) \<Rightarrow> if \<not> errors_Is e ErrNotFound then (Inl e, s) else claim s
          | (Inr existing, s) \<Rightarrow>
              if \<not> Deleted existing then (Inr False, s)
              else (case SetItem S [] key value s of
                      (Inl e, s) \<Rightarrow> (Inl e, s)
                    | (Inr _, s) \<Rightarrow> (Inr True, s))))"

definition DeleteSync :: "'s Store \<Rightarrow> string \<Rightarrow> ('s, 'x) StoreSync \<Rightarrow> (unit, ('s, 'x) StoreSync) outcome" where
  "DeleteSync S key s =
     (case getItem S key s of
        (Inl e, s) \<Rightarrow> (Inl e, s)
      | (Inr existing, s) \<Rightarrow>
          if Deleted existing then (Inl ErrNotFound, s)
          else (case time_now s of (now, s) \<Rightarrow>
               (case uuid_new s of (u, s) \<Rightarrow>
                 let item = zeroItem\<lparr>App := App existing, Key := key, Value := [],
                              Timestamp := now, ID := u, Deleted := True\<rparr>
                 in setItem S item (Some notifyListeners) s)))"

section \<open>Listing\<close>

text \<open>The variables of the loop in \<open>resolveView\<close>.\<close>

record resolve_state =
  rsCursor :: string
  rsResult :: "SyncStoreItem list"
  rsKey :: string
  rsWinner :: "SyncStoreItem option"

definition flushGroup :: "resolve_state \<Rightarrow> resolve_state" where
  "flushGroup r = (case rsWinner r of
     None \<Rightarrow> r
   | Some w \<Rightarrow> r\<lparr>rsResult := rsResult r @ [w], rsWinner := None\<rparr>)"

text \<open>One page.  \<open>Inr (Inl items)\<close> is the early return of \<open>resolveView\<close>.\<close>

fun resolve_batch ::
  "'s Store \<Rightarrow> int \<Rightarrow> KeyValuePair list \<Rightarrow> resolve_state \<Rightarrow> ('s, 'x) StoreSync \<Rightarrow>
     (SyncStoreItem list + resolve_state, ('s, 'x) StoreSync) outcome" where
  "resolve_batch S limit [] r s = (Inr (Inr r), s)"
| "resolve_batch S limit (kv # kvs) r s =
     (let r = r\<lparr>rsCursor := kvKey kv\<rparr>;
          userKey = extractUserKey (kvKey kv);
          change = (userKey \<noteq> rsKey r \<and> rsKey r \<noteq> []);
          r = (if change then flushGroup r else r)
      in if change \<and> limit > 0 \<and> int (length (rsResult r)) \<ge> limit
         then (Inr (Inl (take (nat limit) (rsResult r))), s)
         else
           (let r = r\<lparr>rsKey := userKey\<rparr>
            in (case getValue S (kvValue kv) s of
                  (Inl e, s) \<Rightarrow>
                    if errors_Is e ErrNotFound then resolve_batch S limit kvs r s else (Inl e, s)
                | (Inr item, s) \<Rightarrow>
                    resolve_batch S limit kvs
                      (case rsWinner r of
                         None \<Rightarrow> r\<lparr>rsWinner := Some item\<rparr>
                       | Some w \<Rightarrow> if newer item w then r\<lparr>rsWinner := Some item\<rparr> else r) s)))"

definition resolve_finish :: "int \<Rightarrow> resolve_state \<Rightarrow> SyncStoreItem list" where
  "resolve_finish limit r =
     (let result = rsResult (flushGroup r)
      in if limit > 0 \<and> int (length result) > limit then take (nat limit) result else result)"

partial_function (option) resolve_loop ::
  "'s Store \<Rightarrow> string \<Rightarrow> int \<Rightarrow> resolve_state \<Rightarrow> ('s, 'x) StoreSync \<Rightarrow>
     (SyncStoreItem list, ('s, 'x) StoreSync) outcome option" where
  "resolve_loop S viewPrefix limit r s =
     (case call (sList S \<lparr>Prefix = viewPrefix, StartAfter = rsCursor r, Limit = 100\<rparr>) s of
        (Inl e, s) \<Rightarrow> Some (Inl e, s)
      | (Inr kvs, s) \<Rightarrow>
          if kvs = [] then Some (Inr (resolve_finish limit r), s)
          else (case resolve_batch S limit kvs r s of
                  (Inl e, s) \<Rightarrow> Some (Inl e, s)
                | (Inr (Inl items), s) \<Rightarrow> Some (Inr items, s)
                | (Inr (Inr r), s) \<Rightarrow>
                    if length kvs < 100 then Some (Inr (resolve_finish limit r), s)
                    else resolve_loop S viewPrefix limit r s))"

definition resolveView ::
  "'s Store \<Rightarrow> string \<Rightarrow> string \<Rightarrow> int \<Rightarrow> ('s, 'x) StoreSync \<Rightarrow>
     (SyncStoreItem list, ('s, 'x) StoreSync) outcome option" where
  "resolveView S pfx startAfter limit s =
     resolve_loop S (viewPrefixBase @ pfx) limit
       \<lparr>rsCursor = (if startAfter \<noteq> [] then viewPrefixBase @ startAfter @ [CHR 0x01] else []),
        rsResult = [], rsKey = [], rsWinner = None\<rparr> s"

definition ListSync ::
  "'s Store \<Rightarrow> ListArgs \<Rightarrow> ('s, 'x) StoreSync \<Rightarrow> (KeyValuePair list, ('s, 'x) StoreSync) outcome option" where
  "ListSync S args s =
     (case resolveView S (Prefix args) (StartAfter args) (Limit args) s of
        None \<Rightarrow> None
      | Some (Inl e, s) \<Rightarrow> Some (Inl e, s)
      | Some (Inr items, s) \<Rightarrow>
          (let result = map (\<lambda>it. \<lparr>kvKey = Key it, kvValue = Value it\<rparr>) (filter (\<lambda>it. \<not> Deleted it) items)
           in Some (Inr (if Limit args > 0 \<and> int (length result) > Limit args
                         then take (nat (Limit args)) result else result), s)))"

definition ListItems ::
  "'s Store \<Rightarrow> string \<Rightarrow> string \<Rightarrow> int \<Rightarrow> ('s, 'x) StoreSync \<Rightarrow>
     (SyncStoreItem list, ('s, 'x) StoreSync) outcome option" where
  "ListItems S pfx startAfter limit s =
     (case resolveView S pfx startAfter limit s of
        None \<Rightarrow> None
      | Some (Inl e, s) \<Rightarrow> Some (Inl e, s)
      | Some (Inr items, s) \<Rightarrow> Some (Inr (filter (\<lambda>it. \<not> Deleted it) items), s))"

section \<open>Garbage collection\<close>

text \<open>The candidates of \<open>gcKey\<close>: store key, value ID and item of each live view entry.\<close>

record viewEntry =
  veStoreKey :: string
  veItemID :: string
  veItem :: SyncStoreItem

text \<open>\<open>None\<close> is the return on a store error; orphaned view entries are deleted on the way.\<close>

fun gc_candidates ::
  "'s Store \<Rightarrow> KeyValuePair list \<Rightarrow> ('s, 'x) StoreSync \<Rightarrow> viewEntry list option \<times> ('s, 'x) StoreSync" where
  "gc_candidates S [] s = (Some [], s)"
| "gc_candidates S (kv # kvs) s =
     (case getValue S (kvValue kv) s of
        (Inl e, s) \<Rightarrow>
          if errors_Is e ErrNotFound then gc_candidates S kvs (call_ignore (sDelete S (kvKey kv)) s)
          else (None, s)
      | (Inr item, s) \<Rightarrow>
          (case gc_candidates S kvs s of
             (None, s) \<Rightarrow> (None, s)
           | (Some cs, s) \<Rightarrow>
               (Some (\<lparr>veStoreKey = kvKey kv, veItemID = kvValue kv, veItem = item\<rparr> # cs), s)))"

text \<open>The index of the winner: \<open>i\<close> runs over the rest of the candidates.\<close>

fun gc_winner :: "viewEntry list \<Rightarrow> nat \<Rightarrow> nat \<Rightarrow> viewEntry \<Rightarrow> nat" where
  "gc_winner [] i winnerIdx w = winnerIdx"
| "gc_winner (c # cs) i winnerIdx w =
     (if newer (veItem c) (veItem w) then gc_winner cs (Suc i) i c
      else gc_winner cs (Suc i) winnerIdx w)"

definition gc_losers :: "viewEntry list \<Rightarrow> viewEntry list" where
  "gc_losers cs =
     (case cs of [] \<Rightarrow> []
      | c # rest \<Rightarrow>
          (let winnerIdx = gc_winner rest 1 0 c
           in map snd (filter (\<lambda>(i, _). i \<noteq> winnerIdx) (enumerate 0 cs))))"

fun gc_delete_losers :: "'s Store \<Rightarrow> viewEntry list \<Rightarrow> ('s, 'x) StoreSync \<Rightarrow> ('s, 'x) StoreSync" where
  "gc_delete_losers S [] s = s"
| "gc_delete_losers S (c # cs) s =
     gc_delete_losers S cs
       (call_ignore (sDelete S (ValueKey (veItemID c)))
         (call_ignore (sDelete S (veStoreKey c)) s))"

text \<open>One page of the queue: delete the entries of this key that name a known loser.\<close>

fun gc_queue_page ::
  "'s Store \<Rightarrow> string \<Rightarrow> string set \<Rightarrow> KeyValuePair list \<Rightarrow> ('s, 'x) StoreSync \<Rightarrow> ('s, 'x) StoreSync" where
  "gc_queue_page S sfx losers [] s = s"
| "gc_queue_page S sfx losers (kv # kvs) s =
     (let queueID = drop (length (QueueKey [])) (kvKey kv)
      in if length queueID < length sfx \<or> drop (length queueID - length sfx) queueID \<noteq> sfx
         then gc_queue_page S sfx losers kvs s
         else if kvValue kv \<in> losers
         then gc_queue_page S sfx losers kvs (call_ignore (sDelete S (kvKey kv)) s)
         else gc_queue_page S sfx losers kvs s)"

partial_function (option) gc_queue ::
  "'s Store \<Rightarrow> string \<Rightarrow> string set \<Rightarrow> string \<Rightarrow> ('s, 'x) StoreSync \<Rightarrow> ('s, 'x) StoreSync option" where
  "gc_queue S sfx losers startAfter s =
     (if done_closed s then Some s
      else (case call (sList S \<lparr>Prefix = QueueKey [], StartAfter = startAfter, Limit = 100\<rparr>) s of
              (Inl e, s) \<Rightarrow> Some s
            | (Inr kvs, s) \<Rightarrow>
                if kvs = [] then Some s
                else (let s = gc_queue_page S sfx losers kvs s
                      in if length kvs < 100 then Some s
                         else gc_queue S sfx losers (kvKey (last kvs)) s)))"

definition gcKey :: "'s Store \<Rightarrow> string \<Rightarrow> string \<Rightarrow> ('s, 'x) StoreSync \<Rightarrow> ('s, 'x) StoreSync option" where
  "gcKey S key currentID s =
     (case call (sList S \<lparr>Prefix = ViewPrefix key, StartAfter = [], Limit = 0\<rparr>) s of
        (Inl e, s) \<Rightarrow> Some s
      | (Inr entries, s) \<Rightarrow>
          if length entries \<le> 1 then Some s
          else (case gc_candidates S entries s of
                  (None, s) \<Rightarrow> Some s
                | (Some cs, s) \<Rightarrow>
                    if length cs \<le> 1 then Some s
                    else (let losers = gc_losers cs;
                              s = gc_delete_losers S losers s
                          in gc_queue S (''%'' @ key) (veItemID ` set losers) [] s)))"

text \<open>One turn of a GC worker: stop when closed, otherwise serve the oldest request.\<close>

definition gcWorker :: "'s Store \<Rightarrow> ('s, 'x) StoreSync \<Rightarrow> ('s, 'x) StoreSync option" where
  "gcWorker S s =
     (if done_closed s then Some s
      else (case gcCh s of [] \<Rightarrow> Some s
            | r # rs \<Rightarrow> gcKey S (gcrKey r) (gcrCurrentID r) (s\<lparr>gcCh := rs\<rparr>)))"

section \<open>Synchronisation\<close>

text \<open>The filters in order; the first that rejects ends the evaluation.\<close>

fun run_in_filters :: "'x SyncInFilter list \<Rightarrow> SyncStoreItem \<Rightarrow> string \<Rightarrow> 'x \<Rightarrow> bool \<times> 'x" where
  "run_in_filters [] item peerID x = (True, x)"
| "run_in_filters (f # fs) item peerID x =
     (case f item peerID x of (ok, x) \<Rightarrow> if ok then run_in_filters fs item peerID x else (False, x))"

definition passes_out :: "'x SyncOutFilter list \<Rightarrow> SyncStoreItem \<Rightarrow> string \<Rightarrow> 'x \<Rightarrow> bool" where
  "passes_out fs item peerID x \<longleftrightarrow> (\<forall>f \<in> set fs. f item peerID x)"

fun syncIn_items ::
  "'s Store \<Rightarrow> string \<Rightarrow> SyncStoreItem list \<Rightarrow> ('s, 'x) StoreSync \<Rightarrow> (unit, ('s, 'x) StoreSync) outcome" where
  "syncIn_items S peerID [] s = (Inr (), s)"
| "syncIn_items S peerID (item # rest) s =
     (case run_in_filters (syncInFilters s) item peerID (hookState s) of (persist, x) \<Rightarrow>
        let s = s\<lparr>hookState := x\<rparr>
        in if persist then
             (case setItem S item (Some notifyListeners) s of
                (Inl e, s) \<Rightarrow>
                  if errors_Is e ErrStaleWrite then syncIn_items S peerID rest s else (Inl e, s)
              | (Inr _, s) \<Rightarrow> syncIn_items S peerID rest s)
           else syncIn_items S peerID rest (notifyListeners item s))"

definition SyncIn ::
  "'s Store \<Rightarrow> string \<Rightarrow> SyncPayload \<Rightarrow> ('s, 'x) StoreSync \<Rightarrow> (unit, ('s, 'x) StoreSync) outcome" where
  "SyncIn S peerID payload s =
     (if length (Items payload) > MaxSyncInItems
      then (Inl (Errorf (''sync payload too large: '' @ itoa (int (length (Items payload))) @
              '' items (max '' @ itoa (int MaxSyncInItems) @ '')'')), s)
      else syncIn_items S peerID (Items payload) s)"

fun syncOut_loop ::
  "'s Store \<Rightarrow> int \<Rightarrow> string \<Rightarrow> KeyValuePair list \<Rightarrow> SyncStoreItem list \<Rightarrow> int \<Rightarrow> ('s, 'x) StoreSync \<Rightarrow>
     (SyncPayload, ('s, 'x) StoreSync) outcome" where
  "syncOut_loop S now peerID [] items lastSync s =
     (Inr \<lparr>Items = items, LastSyncTimestamp = lastSync\<rparr>, s)"
| "syncOut_loop S now peerID (kv # kvs) items lastSync s =
     (case getValue S (kvValue kv) s of
        (Inl e, s) \<Rightarrow>
          if errors_Is e ErrNotFound then syncOut_loop S now peerID kvs items lastSync s else (Inl e, s)
      | (Inr item, s) \<Rightarrow>
          (let lastSync = (if WriteTimestamp item > lastSync \<and> WriteTimestamp item \<le> now
                           then WriteTimestamp item else lastSync)
           in if passes_out (syncOutFilters s) item peerID (hookState s)
              then syncOut_loop S now peerID kvs (items @ [item]) lastSync s
              else syncOut_loop S now peerID kvs items lastSync s))"

definition syncOut ::
  "'s Store \<Rightarrow> int \<Rightarrow> int \<Rightarrow> string \<Rightarrow> ('s, 'x) StoreSync \<Rightarrow> (SyncPayload, ('s, 'x) StoreSync) outcome" where
  "syncOut S timestamp limit peerID s =
     (case time_now s of (now, s) \<Rightarrow>
        (case call (sList S \<lparr>Prefix = QueueKey [], StartAfter = QueueKey (itoa timestamp @ ''~''),
                             Limit = limit\<rparr>) s of
           (Inl e, s) \<Rightarrow> (Inl e, s)
         | (Inr kvs, s) \<Rightarrow> syncOut_loop S now peerID kvs [] timestamp s))"

definition SyncOut ::
  "'s Store \<Rightarrow> string \<Rightarrow> int \<Rightarrow> ('s, 'x) StoreSync \<Rightarrow> (SyncPayload, ('s, 'x) StoreSync) outcome" where
  "SyncOut S peerID limit s =
     (let limit = (if limit \<le> 0 \<or> limit > MaxSyncOutLimit then MaxSyncOutLimit else limit)
      in (case call (sGet S (LastSyncOutKey peerID)) s of
            (Inl e, s) \<Rightarrow>
              if errors_Is e ErrNotFound then syncOut S 0 limit peerID s else (Inl e, s)
          | (Inr raw, s) \<Rightarrow>
              (case unmarshal_int64 raw of
                 None \<Rightarrow> (Inl (Errorf ''json: cannot unmarshal''), s)
               | Some ts \<Rightarrow> syncOut S ts limit peerID s)))"

definition AckSyncOut ::
  "'s Store \<Rightarrow> string \<Rightarrow> SyncPayload \<Rightarrow> ('s, 'x) StoreSync \<Rightarrow> (unit, ('s, 'x) StoreSync) outcome" where
  "AckSyncOut S peerID payload s =
     (case call (sSet S (LastSyncOutKey peerID) (marshal_int64 (LastSyncTimestamp payload))) s of
        (Inl e, s) \<Rightarrow> (Inl e, s)
      | (Inr _, s) \<Rightarrow>
          (Inr (),
           if Items payload = [] then s
           else fold (\<lambda>fn s. case fn (Items payload) peerID (store s) (hookState s) of
                               (st, x) \<Rightarrow> s\<lparr>store := st, hookState := x\<rparr>) (postSyncOuts s) s))"

definition echo_key :: "SyncStoreItem \<Rightarrow> string \<times> int" where
  "echo_key it = (ID it, Timestamp it)"

definition Sync ::
  "'s Store \<Rightarrow> string \<Rightarrow> SyncPayload option \<Rightarrow> ('s, 'x) StoreSync \<Rightarrow>
     (SyncPayload option, ('s, 'x) StoreSync) outcome" where
  "Sync S peerID incoming s =
     (let inItems = (case incoming of None \<Rightarrow> [] | Some p \<Rightarrow> Items p);
          incomingKeys = echo_key ` set inItems
      in (case (if inItems = [] then (Inr (), s) else SyncIn S peerID (the incoming) s) of
            (Inl e, s) \<Rightarrow> (Inl e, s)
          | (Inr _, s) \<Rightarrow>
              (case SyncOut S peerID MaxSyncOutLimit s of
                 (Inl e, s) \<Rightarrow> (Inl e, s)
               | (Inr payload, s) \<Rightarrow>
                   (let payload = payload\<lparr>Items := filter (\<lambda>it. echo_key it \<notin> incomingKeys) (Items payload)\<rparr>;
                        s = s\<lparr>hookState := fold (\<lambda>fn x. fn peerID (length inItems) (length (Items payload)) x)
                                            (onSyncCompletes s) (hookState s)\<rparr>
                    in (Inr (if Items payload = [] then None else Some payload), s)))))"

end
