(* ===== verification/Memory.thy ===== *)
theory Memory
  imports Store
begin

text \<open>
  The in-memory backend, \<open>src/backend/memory/main.go\<close>.  The Go map \<open>data\<close> is an
  association list with distinct keys.  Every method holds the mutex for its whole body, so
  each is one atomic function of the state.  Go iterates a map in no fixed order; \<open>List\<close>
  sorts what it collected, so the order of the association list never shows.

  \<open>StoreMemory\<close> is proved to be a \<open>kv_store\<close>: the interpretation \<open>mem\<close>.
\<close>

section \<open>Model\<close>

record StoreMemory =
  data :: "(string \<times> string) list"

definition NewMemory :: StoreMemory where
  "NewMemory = \<lparr>data = []\<rparr>"

definition memGet :: "string \<Rightarrow> StoreMemory \<Rightarrow> (string, StoreMemory) outcome" where
  "memGet key s =
     (case map_of (data s) key of
        None \<Rightarrow> (Inl ErrNotFound, s)
      | Some v \<Rightarrow> (Inr v, s))"

definition memSet :: "string \<Rightarrow> string \<Rightarrow> StoreMemory \<Rightarrow> (unit, StoreMemory) outcome" where
  "memSet key value s = (Inr (), s\<lparr>data := AList.update key value (data s)\<rparr>)"

definition memSetIfNotExists :: "string \<Rightarrow> string \<Rightarrow> StoreMemory \<Rightarrow> (bool, StoreMemory) outcome" where
  "memSetIfNotExists key value s =
     (if map_of (data s) key \<noteq> None then (Inr False, s)
      else (Inr True, s\<lparr>data := AList.update key value (data s)\<rparr>))"

definition memDelete :: "string \<Rightarrow> StoreMemory \<Rightarrow> (unit, StoreMemory) outcome" where
  "memDelete key s =
     (if map_of (data s) key = None then (Inl ErrNotFound, s)
      else (Inr (), s\<lparr>data := AList.delete key (data s)\<rparr>))"

definition memClear :: "StoreMemory \<Rightarrow> (unit, StoreMemory) outcome" where
  "memClear s = (Inr (), s\<lparr>data := []\<rparr>)"

definition memClose :: "StoreMemory \<Rightarrow> (unit, StoreMemory) outcome" where
  "memClose s = (Inr (), s)"

definition memList :: "ListArgs \<Rightarrow> StoreMemory \<Rightarrow> (KeyValuePair list, StoreMemory) outcome" where
  "memList args s =
     (let keys = filter (\<lambda>k. \<not> (Prefix args \<noteq> [] \<and> \<not> prefix (Prefix args) k) \<and>
                             \<not> (StartAfter args \<noteq> [] \<and> k \<le> StartAfter args))
                        (map fst (data s));
          keys = sort keys;
          keys = (if Limit args > 0 \<and> int (length keys) > Limit args
                  then take (nat (Limit args)) keys else keys)
      in (Inr (map (\<lambda>k. \<lparr>kvKey = k, kvValue = (case map_of (data s) k of None \<Rightarrow> [] | Some v \<Rightarrow> v)\<rparr>) keys), s))"

definition memStore :: "StoreMemory Store" where
  "memStore = \<lparr>sGet = memGet, sSet = memSet, sSetIfNotExists = memSetIfNotExists,
     sDelete = memDelete, sList = memList, sClose = memClose\<rparr>"

section \<open>Correctness\<close>

definition mem_inv :: "StoreMemory \<Rightarrow> bool" where
  "mem_inv s \<longleftrightarrow> distinct (map fst (data s))"

definition mem_abs :: "StoreMemory \<Rightarrow> (string \<rightharpoonup> string)" where
  "mem_abs s = map_of (data s)"

lemmas mem_defs = memGet_def memSet_def memSetIfNotExists_def memDelete_def memClose_def
  memClear_def mem_inv_def mem_abs_def

lemma map_of_AList_delete: "map_of (AList.delete k xs) = (map_of xs)(k := None)"
  by (simp add: delete_conv')

lemma sort_distinct_set:
  assumes "distinct xs" shows "sort xs = sorted_list_of_set (set xs)"
  using assms by (simp add: sorted_list_of_set_sort_remdups distinct_remdups_id)

lemma memList_result:
  assumes "mem_inv s"
  shows "fst (memList a s) = Inr (list_spec (mem_abs s) a)"
proof -
  let ?P = "\<lambda>k. \<not> (Prefix a \<noteq> [] \<and> \<not> prefix (Prefix a) k) \<and> \<not> (StartAfter a \<noteq> [] \<and> k \<le> StartAfter a)"
  let ?ks = "filter ?P (map fst (data s))"
  have "?P k = in_range a k" for k
    by (auto simp: in_range_def not_le)
  then have set: "set ?ks = {k \<in> dom (mem_abs s). in_range a k}"
    by (auto simp: mem_abs_def dom_map_of_conv_image_fst)
  have "distinct ?ks" using assms by (simp add: mem_inv_def)
  then have sort: "sort ?ks = sorted_list_of_set {k \<in> dom (mem_abs s). in_range a k}"
    by (simp only: sort_distinct_set set)
  have cut: "(if Limit a > 0 \<and> int (length ks) > Limit a then take (nat (Limit a)) ks else ks)
      = limit_to (Limit a) ks" for ks :: "string list"
    by (auto simp: limit_to_def)
  have "kvValue (entry_at (mem_abs s) k) = (case map_of (data s) k of None \<Rightarrow> [] | Some v \<Rightarrow> v)"
    if "k \<in> dom (mem_abs s)" for k
    using that by (auto simp: entry_at_def mem_abs_def)
  then have entry: "\<lparr>kvKey = k, kvValue = (case map_of (data s) k of None \<Rightarrow> [] | Some v \<Rightarrow> v)\<rparr>
      = entry_at (mem_abs s) k" if "k \<in> dom (mem_abs s)" for k
    using that by (simp add: entry_at_def)
  have "set (limit_to (Limit a) (sorted_list_of_set {k \<in> dom (mem_abs s). in_range a k})) \<subseteq> dom (mem_abs s)"
    using set_limit_to by (fastforce simp: mem_abs_def finite_dom_map_of)
  then show ?thesis
    unfolding memList_def Let_def sort cut list_spec_def
    by (auto simp: limit_to_map intro!: entry)
qed

lemma memList_state [simp]: "snd (memList a s) = s"
  by (simp add: memList_def Let_def)

lemma memList_ok: "mem_inv s \<Longrightarrow> memList a s = (Inr xs, s') \<Longrightarrow> xs = list_spec (mem_abs s) a \<and> s' = s"
  by (metis memList_result memList_state fst_conv snd_conv sum.inject(2))

lemma mem_abs_finite: "finite (dom (mem_abs s))"
  by (simp add: mem_abs_def finite_dom_map_of)

interpretation mem: kv_store memStore mem_inv mem_abs
  by unfold_locales
    (auto simp: memStore_def finite_dom_map_of map_of_eq_None_iff memList_result memGet_def memSet_def memSetIfNotExists_def
      memDelete_def mem_inv_def mem_abs_def update_conv' map_of_AList_delete distinct_update
      distinct_delete intro: rev_image_eqI split: option.splits if_splits)

end
