(* ===== verification/View.thy ===== *)
theory View
  imports Core Memory
begin

text \<open>
  What the engine reads, stated on the content \<open>m\<close> of the underlying store.
  \<open>live m u\<close> is the item stored under the value ID \<open>u\<close>, \<open>versions m key\<close> the live
  versions of a user key in the order of their view entries, and \<open>view m key\<close> the
  last-writer-wins choice among them.  \<open>getItem_spec\<close> is the refinement: on a lawful
  store, \<open>getItem\<close> returns exactly \<open>view\<close> of the content and changes no content.

  \<open>wf m\<close> is the invariant of the content that the write path keeps: values decode to an
  item with their own ID, and a view entry names its user key, timestamp and value.
\<close>

section \<open>Specification\<close>

definition live :: "(string \<rightharpoonup> string) \<Rightarrow> string \<Rightarrow> SyncStoreItem option" where
  "live m u = Option.bind (m (ValueKey u)) unmarshal_item"

definition decodable :: "(string \<rightharpoonup> string) \<Rightarrow> bool" where
  "decodable m \<longleftrightarrow> (\<forall>u raw. m (ValueKey u) = Some raw \<longrightarrow> unmarshal_item raw \<noteq> None)"

definition view_args :: "string \<Rightarrow> ListArgs" where
  "view_args key = \<lparr>Prefix = ViewPrefix key, StartAfter = [], Limit = 0\<rparr>"

definition live_of :: "(string \<rightharpoonup> string) \<Rightarrow> KeyValuePair list \<Rightarrow> SyncStoreItem list" where
  "live_of m kvs = List.map_filter (\<lambda>kv. live m (kvValue kv)) kvs"

definition versions :: "(string \<rightharpoonup> string) \<Rightarrow> string \<Rightarrow> SyncStoreItem list" where
  "versions m key = live_of m (list_spec m (view_args key))"

definition better :: "SyncStoreItem \<Rightarrow> SyncStoreItem option \<Rightarrow> SyncStoreItem option" where
  "better it w = (case w of None \<Rightarrow> Some it | Some w' \<Rightarrow> if newer it w' then Some it else Some w')"

definition best :: "SyncStoreItem list \<Rightarrow> SyncStoreItem option" where
  "best xs = fold better xs None"

definition view :: "(string \<rightharpoonup> string) \<Rightarrow> string \<Rightarrow> SyncStoreItem option" where
  "view m key = best (versions m key)"

definition wf_values :: "(string \<rightharpoonup> string) \<Rightarrow> bool" where
  "wf_values m \<longleftrightarrow> (\<forall>u raw. m (ValueKey u) = Some raw \<longrightarrow>
     (\<exists>it. unmarshal_item raw = Some it \<and> ID it = u \<and> valid_item it))"

definition wf_views :: "(string \<rightharpoonup> string) \<Rightarrow> bool" where
  "wf_views m \<longleftrightarrow> (\<forall>k u. m k = Some u \<longrightarrow> prefix viewPrefixBase k \<longrightarrow>
     (\<exists>key ts. nul_free key \<and> k = ViewEntryKey key ts u \<and>
       (\<forall>it. live m u = Some it \<longrightarrow> Key it = key \<and> Timestamp it = ts)))"

definition wf :: "(string \<rightharpoonup> string) \<Rightarrow> bool" where
  "wf m \<longleftrightarrow> finite (dom m) \<and> wf_values m \<and> wf_views m"

section \<open>Last-writer-wins selection\<close>

lemma newer_irrefl [lww_simps]: "\<not> newer a a"
  by (simp add: newer_def)

lemma newer_trans: "newer a b \<Longrightarrow> newer b c \<Longrightarrow> newer a c"
  by (auto simp: newer_def)

lemma newer_asym: "newer a b \<Longrightarrow> \<not> newer b a"
  by (auto simp: newer_def)

lemma newer_linear: "newer a b \<or> newer b a \<or> (Timestamp a = Timestamp b \<and> ID a = ID b)"
  by (auto simp: newer_def)

lemma not_newer_trans: "\<not> newer a b \<Longrightarrow> \<not> newer b c \<Longrightarrow> \<not> newer a c"
  by (auto simp: newer_def not_less)

lemma better_simps [simp]:
  "better it None = Some it"
  "better it (Some w) = (if newer it w then Some it else Some w)"
  by (simp_all add: better_def)

lemma fold_better_Some:
  "fold better xs (Some w) = Some b \<Longrightarrow> (b = w \<or> b \<in> set xs) \<and> \<not> newer w b \<and> (\<forall>x \<in> set xs. \<not> newer x b)"
proof (induction xs arbitrary: w)
  case Nil
  then show ?case by (simp add: newer_irrefl)
next
  case (Cons x xs)
  show ?case
  proof (cases "newer x w")
    case True
    with Cons have "(b = x \<or> b \<in> set xs) \<and> \<not> newer x b \<and> (\<forall>x \<in> set xs. \<not> newer x b)" by simp
    with True show ?thesis using newer_trans by (auto dest: newer_asym)
  next
    case False
    with Cons have "(b = w \<or> b \<in> set xs) \<and> \<not> newer w b \<and> (\<forall>x \<in> set xs. \<not> newer x b)" by simp
    with False show ?thesis using not_newer_trans by auto
  qed
qed

lemma fold_better_not_None: "fold better xs (Some w) \<noteq> None"
  by (induction xs arbitrary: w) simp_all

lemma best_Nil [simp]: "best [] = None"
  by (simp add: best_def)

lemma best_None_iff: "best xs = None \<longleftrightarrow> xs = []"
  using fold_better_not_None by (cases xs) (auto simp: best_def)

lemma best_Some:
  assumes "best xs = Some b"
  shows "b \<in> set xs" and "x \<in> set xs \<Longrightarrow> \<not> newer x b"
  using assms fold_better_Some [of "tl xs" "hd xs" b] by (cases xs; auto simp: best_def)+

lemma best_unique:
  assumes "b \<in> set xs" and "\<And>x. x \<in> set xs \<Longrightarrow> \<not> newer x b"
    and "\<And>x y. x \<in> set xs \<Longrightarrow> y \<in> set xs \<Longrightarrow> ID x = ID y \<Longrightarrow> x = y"
  shows "best xs = Some b"
proof -
  obtain c where c: "best xs = Some c" using assms(1) best_None_iff by (cases "best xs") auto
  have "\<not> newer b c" "\<not> newer c b" using best_Some [OF c] assms(1,2) by auto
  then have "ID c = ID b" using newer_linear by blast
  then have "c = b" using assms(3) best_Some(1) [OF c] assms(1) by blast
  with c show ?thesis by simp
qed

lemma best_cong_set:
  assumes "set xs = set ys"
    and "\<And>x y. x \<in> set xs \<Longrightarrow> y \<in> set xs \<Longrightarrow> ID x = ID y \<Longrightarrow> x = y"
  shows "best xs = best ys"
proof (cases "best ys")
  case None
  then have "ys = []" by (simp add: best_None_iff)
  with assms(1) show ?thesis by simp
next
  case (Some b)
  then have "best xs = Some b" using assms best_Some [OF Some] by (intro best_unique) auto
  with Some show ?thesis by simp
qed

section \<open>The live versions of a key\<close>

lemma set_live_of: "set (live_of m kvs) = {it. \<exists>kv \<in> set kvs. live m (kvValue kv) = Some it}"
  unfolding live_of_def by (induction kvs) (auto simp: List.map_filter_simps split: option.splits)

lemma wf_finite: "wf m \<Longrightarrow> finite (dom m)"
  by (simp add: wf_def)

lemma wf_live_ID: "wf m \<Longrightarrow> live m u = Some it \<Longrightarrow> ID it = u"
  by (fastforce simp: wf_def wf_values_def live_def Option.bind_eq_Some_conv)

lemma wf_live_valid: "wf m \<Longrightarrow> live m u = Some it \<Longrightarrow> valid_item it"
  by (fastforce simp: wf_def wf_values_def live_def Option.bind_eq_Some_conv)

lemma wf_decodable: "wf m \<Longrightarrow> decodable m"
  by (fastforce simp: wf_def wf_values_def decodable_def)

lemma ViewPrefix_base: "prefix (ViewPrefix key) k \<Longrightarrow> prefix viewPrefixBase k"
  by (auto simp: ViewPrefix_def prefix_def)

lemma set_versions:
  assumes "wf m" and "nul_free key"
  shows "set (versions m key) =
    {it. Key it = key \<and> live m (ID it) = Some it \<and> m (ViewEntryKey key (Timestamp it) (ID it)) = Some (ID it)}"
    (is "_ = ?R")
proof (intro equalityI subsetI)
  fix it assume "it \<in> set (versions m key)"
  then obtain kv where kv: "kv \<in> set (list_spec m (view_args key))" "live m (kvValue kv) = Some it"
    by (auto simp: versions_def set_live_of)
  from list_spec_entry [OF wf_finite [OF assms(1)] kv(1)]
  have e: "m (kvKey kv) = Some (kvValue kv)" "prefix (ViewPrefix key) (kvKey kv)"
    by (auto simp: view_args_def in_range_def)
  with assms(1) kv(2) obtain k ts where k: "nul_free k" "kvKey kv = ViewEntryKey k ts (kvValue kv)"
      "Key it = k" "Timestamp it = ts"
    by (fastforce simp: wf_def wf_views_def dest: ViewPrefix_base)
  with e(2) assms(2) have "k = key" by (simp add: ViewPrefix_entry)
  moreover have "ID it = kvValue kv" using wf_live_ID [OF assms(1) kv(2)] .
  ultimately show "it \<in> ?R" using k e kv(2) by simp
next
  fix it assume "it \<in> ?R"
  then have it: "Key it = key" "live m (ID it) = Some it"
    "m (ViewEntryKey key (Timestamp it) (ID it)) = Some (ID it)" by auto
  let ?k = "ViewEntryKey key (Timestamp it) (ID it)"
  have "?k \<in> {k \<in> dom m. in_range (view_args key) k}"
    using it assms(2) by (auto simp: in_range_def view_args_def ViewPrefix_entry)
  then have "entry_at m ?k \<in> set (list_spec m (view_args key))"
    using wf_finite [OF assms(1)] by (subst set_list_spec_unlimited) (auto simp: view_args_def)
  moreover have "kvValue (entry_at m ?k) = ID it" by (simp add: entry_at_def it(3))
  ultimately show "it \<in> set (versions m key)"
    unfolding versions_def set_live_of by (auto simp: it(2) intro!: bexI [of _ "entry_at m ?k"])
qed

lemma versions_ID_unique:
  assumes "wf m" and "nul_free key" and "x \<in> set (versions m key)" and "y \<in> set (versions m key)" and "ID x = ID y"
  shows "x = y"
  using assms by (auto simp: set_versions)

lemma view_Some_iff:
  assumes "wf m" and "nul_free key"
  shows "view m key = Some b \<longleftrightarrow>
    b \<in> set (versions m key) \<and> (\<forall>x \<in> set (versions m key). \<not> newer x b)"
  using best_Some [of "versions m key" b] best_unique [of b "versions m key"] versions_ID_unique [OF assms]
  by (auto simp: view_def)

lemma view_cong:
  assumes "wf m" and "nul_free key" and "set (versions m' key) = set (versions m key)"
  shows "view m' key = view m key"
  unfolding view_def using assms versions_ID_unique by (intro best_cong_set) auto

text \<open>
  Only the view entries and the values are read: contents that agree on them have the same
  versions.  Lock keys, queue entries and sync cursors are therefore invisible.
\<close>

definition same_data :: "(string \<rightharpoonup> string) \<Rightarrow> (string \<rightharpoonup> string) \<Rightarrow> bool" where
  "same_data m m' \<longleftrightarrow> (\<forall>k. prefix viewPrefixBase k \<longrightarrow> m' k = m k) \<and> (\<forall>u. m' (ValueKey u) = m (ValueKey u))"

lemma same_data_refl [simp]: "same_data m m"
  by (simp add: same_data_def)

lemma same_data_trans: "same_data m m' \<Longrightarrow> same_data m' m'' \<Longrightarrow> same_data m m''"
  by (simp add: same_data_def)

lemma same_data_live: "same_data m m' \<Longrightarrow> live m' = live m"
  by (simp add: same_data_def live_def fun_eq_iff)

lemma same_data_versions: "same_data m m' \<Longrightarrow> versions m' = versions m"
  using list_spec_agree [of "view_args k" m' m for k] same_data_live [of m m'] ViewPrefix_base
  by (auto simp: versions_def live_of_def fun_eq_iff same_data_def in_range_def view_args_def)

lemma same_data_view: "same_data m m' \<Longrightarrow> view m' = view m"
  by (simp add: view_def fun_eq_iff same_data_versions)

lemma same_data_wf: "same_data m m' \<Longrightarrow> wf m \<Longrightarrow> finite (dom m') \<Longrightarrow> wf m'"
  using same_data_live [of m m'] unfolding wf_def wf_values_def wf_views_def same_data_def
  by (metis (no_types, lifting))

lemma same_data_upd:
  "same_data m (m(LockKey k := v))" "same_data m (m(QueueKey k := v))" "same_data m (m(LastSyncOutKey k := v))"
  using prefix_base_kinds [of "[]"] by (auto simp: same_data_def key_simps)

section \<open>Refinement of the read path\<close>

definition view_result :: "SyncStoreItem option \<Rightarrow> SyncStoreItem result" where
  "view_result w = (case w of None \<Rightarrow> Inl ErrNotFound | Some it \<Rightarrow> Inr it)"

lemma view_result_simps [simp]:
  "view_result None = Inl ErrNotFound" "view_result (Some it) = Inr it"
  by (simp_all add: view_result_def)

text \<open>
  \<open>reads I A s s'\<close>: \<open>s'\<close> differs from \<open>s\<close> at most in the representation of the store
  (not its content) and in the queue of GC requests.
\<close>

definition reads ::
  "('s \<Rightarrow> bool) \<Rightarrow> ('s \<Rightarrow> (string \<rightharpoonup> string)) \<Rightarrow> ('s, 'x) StoreSync \<Rightarrow> ('s, 'x) StoreSync \<Rightarrow> bool" where
  "reads I A s s' \<longleftrightarrow> s' = s\<lparr>store := store s', gcCh := gcCh s'\<rparr> \<and> I (store s') \<and>
     A (store s') = A (store s)"

lemma readsI:
  "I st \<Longrightarrow> A st = A (store s) \<Longrightarrow> reads I A s (s\<lparr>store := st, gcCh := g\<rparr>)"
  by (simp add: reads_def)

lemma reads_store: "I st \<Longrightarrow> A st = A (store s) \<Longrightarrow> reads I A s (s\<lparr>store := st\<rparr>)"
  by (simp add: reads_def)

lemma reads_refl: "I (store s) \<Longrightarrow> reads I A s s"
  by (simp add: reads_def)

lemma reads_trans:
  assumes "reads I A s s'" and "reads I A s' s''"
  shows "reads I A s s''"
proof -
  have "s'' = s'\<lparr>store := store s'', gcCh := gcCh s''\<rparr>" and "s' = s\<lparr>store := store s', gcCh := gcCh s'\<rparr>"
    using assms by (simp_all add: reads_def)
  then have "s'' = s\<lparr>store := store s', gcCh := gcCh s', store := store s'', gcCh := gcCh s''\<rparr>"
    by simp
  then show ?thesis using assms by (simp add: reads_def)
qed

lemma reads_offerGC: "I (store s) \<Longrightarrow> reads I A s (offerGC r s)"
  by (simp add: reads_def offerGC_def)

lemma reads_inv: "reads I A s s' \<Longrightarrow> I (store s')"
  and reads_abs: "reads I A s s' \<Longrightarrow> A (store s') = A (store s)"
  by (simp_all add: reads_def)

lemma reads_fields:
  assumes "reads I A s s'"
  shows "timeOffset s' = timeOffset s" "maxClockSkew s' = maxClockSkew s" "listeners s' = listeners s"
    "nextListenID s' = nextListenID s" "syncOutFilters s' = syncOutFilters s"
    "syncInFilters s' = syncInFilters s" "postSyncOuts s' = postSyncOuts s"
    "preSetItems s' = preSetItems s" "onSyncCompletes s' = onSyncCompletes s"
    "done_closed s' = done_closed s" "hookState s' = hookState s" "clock s' = clock s"
    "ticks s' = ticks s" "uuids s' = uuids s" "uuidsUsed s' = uuidsUsed s"
proof -
  define st g where "st = store s'" and "g = gcCh s'"
  then have s': "s' = s\<lparr>store := st, gcCh := g\<rparr>" using assms by (simp add: reads_def)
  show "timeOffset s' = timeOffset s" "maxClockSkew s' = maxClockSkew s" "listeners s' = listeners s"
    "nextListenID s' = nextListenID s" "syncOutFilters s' = syncOutFilters s"
    "syncInFilters s' = syncInFilters s" "postSyncOuts s' = postSyncOuts s"
    "preSetItems s' = preSetItems s" "onSyncCompletes s' = onSyncCompletes s"
    "done_closed s' = done_closed s" "hookState s' = hookState s" "clock s' = clock s"
    "ticks s' = ticks s" "uuids s' = uuids s" "uuidsUsed s' = uuidsUsed s"
    by (simp_all add: s')
qed

context kv_store
begin

lemma getValue_spec:
  assumes "inv (store s)" and "decodable (abs (store s))"
  obtains s' where "getValue S u s = (view_result (live (abs (store s)) u), s')" "reads inv abs s s'"
proof
  show "getValue S u s = (view_result (live (abs (store s)) u), s\<lparr>store := snd (sGet S (ValueKey u) (store s))\<rparr>)"
    using assms
    by (force simp: getValue_def call_def store_simps live_def decodable_def split: option.splits)
  show "reads inv abs s (s\<lparr>store := snd (sGet S (ValueKey u) (store s))\<rparr>)"
    using assms by (simp add: reads_def store_simps)
qed

lemma getItem_loop_spec:
  assumes "inv (store s)" and "decodable (abs (store s))"
  shows "\<exists>s' b. getItem_loop S kvs w h s = (Inr (fold better (live_of (abs (store s)) kvs) w, b), s')
    \<and> reads inv abs s s'"
  using assms
proof (induction kvs arbitrary: w h s)
  case Nil
  then show ?case by (auto simp: live_of_def List.map_filter_simps reads_refl)
next
  case (Cons kv kvs)
  let ?m = "abs (store s)"
  obtain s1 where s1: "getValue S (kvValue kv) s = (view_result (live ?m (kvValue kv)), s1)"
      "reads inv abs s s1"
    using getValue_spec [OF Cons.prems] .
  have IH: "\<exists>s' b. getItem_loop S kvs w' h' s1 = (Inr (fold better (live_of ?m kvs) w', b), s')
      \<and> reads inv abs s s'" for w' h'
    using Cons.IH [of s1 w' h'] Cons.prems s1(2) reads_trans [OF s1(2)]
    by (fastforce simp: reads_def)
  show ?case
  proof (cases "live ?m (kvValue kv)")
    case None
    then show ?thesis using s1 IH [of w True]
      by (simp add: live_of_def List.map_filter_simps)
  next
    case (Some it)
    then show ?thesis using s1 IH [of "Some it" h] IH [of "Some it" True] IH [of w True]
      by (cases w) (auto simp add: live_of_def List.map_filter_simps)
  qed
qed

lemma getItem_spec:
  assumes "inv (store s)" and "decodable (abs (store s))"
  obtains s' where "getItem S key s = (view_result (view (abs (store s)) key), s')" "reads inv abs s s'"
proof -
  let ?m = "abs (store s)" and ?a = "\<lparr>Prefix = ViewPrefix key, StartAfter = [], Limit = 0\<rparr>"
  define s1 where "s1 = s\<lparr>store := snd (sList S ?a (store s))\<rparr>"
  have c: "call (sList S ?a) s = (Inr (list_spec ?m (view_args key)), s1)"
    using assms by (simp add: call_def s1_def store_simps view_args_def)
  have s1: "reads inv abs s s1" using assms by (simp add: s1_def reads_def store_simps)
  show ?thesis
  proof (cases "list_spec ?m (view_args key) = []")
    case True
    then have "view ?m key = None" by (simp add: view_def versions_def live_of_def List.map_filter_simps)
    then show ?thesis using that [of s1] c True s1 by (simp add: getItem_def)
  next
    case False
    obtain s2 b where l: "getItem_loop S (list_spec ?m (view_args key)) None False s1 = (Inr (view ?m key, b), s2)"
        "reads inv abs s1 s2"
      using getItem_loop_spec [of s1 "list_spec ?m (view_args key)" None False] s1 assms(2)
      by (auto simp: view_def versions_def best_def reads_def)
    have s2: "reads inv abs s s2" "inv (store s2)" using reads_trans [OF s1 l(2)] reads_inv [OF l(2)] by auto
    show ?thesis
    proof (cases "view ?m key")
      case None
      then show ?thesis using that [of s2] c l False s2 by (simp add: getItem_def)
    next
      case (Some w)
      let ?s3 = "if b then offerGC \<lparr>gcrKey = key, gcrCurrentID = ID w\<rparr> s2 else s2"
      have "reads inv abs s ?s3"
        using s2 reads_trans [OF s2(1)] reads_offerGC [of inv s2] by auto
      then show ?thesis using that [of ?s3] c l False Some by (simp add: getItem_def)
    qed
  qed
qed

end

end
