(* ===== verification/Write.thy ===== *)
theory Write
  imports View
begin

text \<open>
  The write path of the engine.  \<open>setItem_write_ok\<close> says exactly which three keys of the
  store a successful write sets, \<open>setItem_cases\<close> splits \<open>setItem\<close> into its branches, and
  \<open>view_puts\<close> is the refinement: on the specification \<open>view\<close> a write is the merge of one
  version into one key by last-writer-wins (\<open>better\<close>).  From it follow read-your-writes,
  the tombstone of \<open>Delete\<close>, and that \<open>wf\<close> is kept.

  \<open>benign\<close> is what is assumed of the registered \<open>PreSetItem\<close> hooks: they may set the
  value, the app and the signature fields, but leave the key, the ID and both timestamps.
\<close>

section \<open>Specification\<close>

definition written :: "('s, 'x) StoreSync \<Rightarrow> SyncStoreItem \<Rightarrow> int \<Rightarrow> SyncStoreItem" where
  "written s item wt = fold (\<lambda>hook it. hook it) (preSetItems s) (item\<lparr>WriteTimestamp := wt\<rparr>)"

definition benign :: "PreSetItem list \<Rightarrow> bool" where
  "benign hooks \<longleftrightarrow> (\<forall>h \<in> set hooks. \<forall>it.
     Key (h it) = Key it \<and> ID (h it) = ID it \<and> Timestamp (h it) = Timestamp it \<and>
     WriteTimestamp (h it) = WriteTimestamp it \<and> Deleted (h it) = Deleted it \<and>
     (valid_item it \<longrightarrow> valid_item (h it)))"

definition puts :: "(string \<rightharpoonup> string) \<Rightarrow> SyncStoreItem \<Rightarrow> (string \<rightharpoonup> string)" where
  "puts m w = m(QueueKey (QueueID (WriteTimestamp w) (ID w) (Key w)) \<mapsto> ID w,
     ViewEntryKey (Key w) (Timestamp w) (ID w) \<mapsto> ID w, ValueKey (ID w) \<mapsto> marshal_item w)"

definition unputs :: "(string \<rightharpoonup> string) \<Rightarrow> SyncStoreItem \<Rightarrow> (string \<rightharpoonup> string)" where
  "unputs m w = m(QueueKey (QueueID (WriteTimestamp w) (ID w) (Key w)) := None,
     ViewEntryKey (Key w) (Timestamp w) (ID w) := None, ValueKey (ID w) := None)"

text \<open>The ID of an item identifies it: a stored version with its ID has its key and time.\<close>

definition id_ok :: "(string \<rightharpoonup> string) \<Rightarrow> SyncStoreItem \<Rightarrow> bool" where
  "id_ok m it \<longleftrightarrow> (\<forall>x. live m (ID it) = Some x \<longrightarrow> Key x = Key it \<and> Timestamp x = Timestamp it) \<and>
     (\<forall>key ts. nul_free key \<longrightarrow> m (ViewEntryKey key ts (ID it)) \<noteq> None \<longrightarrow> key = Key it \<and> ts = Timestamp it)"

definition fresh_id :: "(string \<rightharpoonup> string) \<Rightarrow> string \<Rightarrow> bool" where
  "fresh_id m u \<longleftrightarrow> m (ValueKey u) = None \<and> (\<forall>key ts. nul_free key \<longrightarrow> m (ViewEntryKey key ts u) = None) \<and>
     (\<forall>wt key. m (QueueKey (QueueID wt u key)) = None)"

definition writable :: "(string \<rightharpoonup> string) \<Rightarrow> SyncStoreItem \<Rightarrow> bool" where
  "writable m it \<longleftrightarrow> nul_free (Key it) \<and> valid_item it \<and> id_ok m it"

section \<open>Hooks\<close>

lemma benign_Nil [simp]: "benign []"
  by (simp add: benign_def)

lemma benign_fold:
  assumes "benign hooks"
  shows "Key (fold (\<lambda>h it. h it) hooks it) = Key it" "ID (fold (\<lambda>h it. h it) hooks it) = ID it"
    "Timestamp (fold (\<lambda>h it. h it) hooks it) = Timestamp it"
    "WriteTimestamp (fold (\<lambda>h it. h it) hooks it) = WriteTimestamp it"
    "Deleted (fold (\<lambda>h it. h it) hooks it) = Deleted it"
    "valid_item it \<Longrightarrow> valid_item (fold (\<lambda>h it. h it) hooks it)"
  using assms by (induction hooks arbitrary: it) (auto simp: benign_def)

lemma written_fields:
  assumes "benign (preSetItems s)"
  shows "Key (written s it wt) = Key it" "ID (written s it wt) = ID it"
    "Timestamp (written s it wt) = Timestamp it" "WriteTimestamp (written s it wt) = wt"
    "Deleted (written s it wt) = Deleted it"
    "valid_item it \<Longrightarrow> in_i64 wt \<Longrightarrow> valid_item (written s it wt)"
proof -
  show "Key (written s it wt) = Key it" "ID (written s it wt) = ID it"
    "Timestamp (written s it wt) = Timestamp it" "WriteTimestamp (written s it wt) = wt"
    "Deleted (written s it wt) = Deleted it"
    using assms by (simp_all add: written_def benign_fold)
  show "valid_item (written s it wt)" if "valid_item it" "in_i64 wt"
    unfolding written_def by (rule benign_fold(6) [OF assms]) (use that in \<open>simp add: valid_item_def\<close>)
qed

lemma written_no_hooks: "preSetItems s = [] \<Longrightarrow> written s it wt = it\<lparr>WriteTimestamp := wt\<rparr>"
  by (simp add: written_def)

section \<open>Content after a write\<close>

lemma live_puts:
  assumes "valid_item w"
  shows "live (puts m w) u = (if u = ID w then Some w else live m u)"
  using assms by (simp add: live_def puts_def key_simps)

lemma finite_puts: "finite (dom m) \<Longrightarrow> finite (dom (puts m w))"
  by (simp add: puts_def)

lemma wf_puts:
  assumes "wf m" and "writable m w"
  shows "wf (puts m w)"
proof -
  have v: "valid_item w" "nul_free (Key w)" "id_ok m w" using assms(2) by (auto simp: writable_def)
  have "wf_values (puts m w)"
    using assms(1) v by (auto simp: wf_def wf_values_def puts_def key_simps)
  moreover have "wf_views (puts m w)"
    unfolding wf_views_def
  proof (intro allI impI)
    fix k u assume k: "puts m w k = Some u" "prefix viewPrefixBase k"
    show "\<exists>key ts. nul_free key \<and> k = ViewEntryKey key ts u \<and>
        (\<forall>it. live (puts m w) u = Some it \<longrightarrow> Key it = key \<and> Timestamp it = ts)"
    proof (cases "k = ViewEntryKey (Key w) (Timestamp w) (ID w)")
      case True
      with k have "u = ID w" by (auto simp: puts_def key_simps)
      with True v show ?thesis by (intro exI [of _ "Key w"] exI [of _ "Timestamp w"]) (simp add: live_puts)
    next
      case False
      have "k \<noteq> QueueKey q" "k \<noteq> ValueKey q" for q
        using k(2) prefix_base_kinds [of "[]"] by auto
      with k False have mk: "m k = Some u" by (simp add: puts_def)
      with assms(1) k(2) obtain key ts where kt: "nul_free key" "k = ViewEntryKey key ts u"
          "\<And>it. live m u = Some it \<Longrightarrow> Key it = key \<and> Timestamp it = ts"
        unfolding wf_def wf_views_def by blast
      have "u \<noteq> ID w \<or> (key = Key w \<and> ts = Timestamp w)"
        using v(3) kt(1,2) mk by (auto simp: id_ok_def)
      with kt v show ?thesis by (auto simp: live_puts)
    qed
  qed
  ultimately show ?thesis using assms(1) finite_puts by (auto simp: wf_def)
qed

lemma puts_entry:
  assumes "nul_free (Key w)" and "nul_free key"
  shows "puts m w (ViewEntryKey key ts u) =
    (if key = Key w \<and> ts = Timestamp w \<and> u = ID w then Some u else m (ViewEntryKey key ts u))"
  using assms by (auto simp: puts_def key_simps)

lemma set_versions_puts:
  assumes "wf m" and "writable m w" and "nul_free key"
  shows "set (versions (puts m w) key) =
    (if key = Key w then insert w {x \<in> set (versions m key). ID x \<noteq> ID w} else set (versions m key))"
proof -
  have v: "valid_item w" "nul_free (Key w)" "id_ok m w" using assms(2) by (auto simp: writable_def)
  have ne: "ID x \<noteq> ID w" if "live m (ID x) = Some x" "Key x \<noteq> Key w" for x
    using v(3) that by (auto simp: id_ok_def)
  show ?thesis
    using assms v ne wf_puts [OF assms(1,2)]
    by (auto simp: set_versions puts_entry live_puts split: if_splits)
qed

text \<open>The refinement of a write: one last-writer-wins merge.\<close>

lemma view_puts:
  assumes "wf m" and "writable m w" and "nul_free key"
    and fresher: "\<And>e. view m (Key w) = Some e \<Longrightarrow> ID e \<noteq> ID w"
  shows "view (puts m w) key = (if key = Key w then better w (view m key) else view m key)"
proof (cases "key = Key w")
  case False
  then have "set (versions (puts m w) key) = set (versions m key)"
    using set_versions_puts [OF assms(1-3)] by simp
  from view_cong [OF assms(1,3) this] False show ?thesis by simp
next
  case True
  let ?V = "set (versions m key)"
  have vs: "set (versions (puts m w) key) = insert w {x \<in> ?V. ID x \<noteq> ID w}"
    using True assms set_versions_puts by simp
  have wfp: "wf (puts m w)" using wf_puts [OF assms(1,2)] .
  show ?thesis
  proof (cases "view m key")
    case None
    then have "?V = {}" by (simp add: view_def best_None_iff)
    then show ?thesis using True None vs wfp assms(3) by (simp add: view_Some_iff newer_irrefl)
  next
    case (Some e)
    then have e: "e \<in> ?V" "\<And>x. x \<in> ?V \<Longrightarrow> \<not> newer x e" "ID e \<noteq> ID w"
      using assms(1,3) fresher True by (auto simp: view_Some_iff)
    have "\<not> newer x w" if "x \<in> ?V" "newer w e" for x
      using e(2) that newer_trans by blast
    then show ?thesis using True Some vs wfp assms(3) e by (auto simp: view_Some_iff newer_irrefl)
  qed
qed

lemma unputs_puts: "unputs (puts m w) w = unputs m w"
  by (rule ext) (simp add: unputs_def puts_def)

lemma unputs_fresh: "fresh_id m (ID w) \<Longrightarrow> nul_free (Key w) \<Longrightarrow> unputs m w = m"
  by (rule ext) (simp add: unputs_def fresh_id_def)

lemma id_ok_fresh: "fresh_id m (ID it) \<Longrightarrow> id_ok m it"
  by (simp add: id_ok_def fresh_id_def live_def)

section \<open>Steps of the engine\<close>

text \<open>
  \<open>evolves I A m s s'\<close>: \<open>s'\<close> has the configuration of \<open>s\<close> (options, hooks, listeners) and
  the content \<open>m\<close>.
\<close>

definition evolves ::
  "('s \<Rightarrow> bool) \<Rightarrow> ('s \<Rightarrow> (string \<rightharpoonup> string)) \<Rightarrow> (string \<rightharpoonup> string) \<Rightarrow> ('s, 'x) StoreSync \<Rightarrow> ('s, 'x) StoreSync \<Rightarrow> bool" where
  "evolves I A m s s' \<longleftrightarrow>
     s' = s\<lparr>store := store s', gcCh := gcCh s', hookState := hookState s', ticks := ticks s',
            uuidsUsed := uuidsUsed s'\<rparr> \<and> I (store s') \<and> A (store s') = m"

lemma evolves_config:
  assumes "evolves I A m s s'"
  shows "timeOffset s' = timeOffset s" "maxClockSkew s' = maxClockSkew s" "listeners s' = listeners s"
    "nextListenID s' = nextListenID s" "syncOutFilters s' = syncOutFilters s"
    "syncInFilters s' = syncInFilters s" "postSyncOuts s' = postSyncOuts s"
    "preSetItems s' = preSetItems s" "onSyncCompletes s' = onSyncCompletes s"
    "done_closed s' = done_closed s" "clock s' = clock s" "uuids s' = uuids s"
proof -
  define st g x t u where "st = store s'" "g = gcCh s'" "x = hookState s'" "t = ticks s'" "u = uuidsUsed s'"
  then have s': "s' = s\<lparr>store := st, gcCh := g, hookState := x, ticks := t, uuidsUsed := u\<rparr>"
    using assms by (simp add: evolves_def)
  show "timeOffset s' = timeOffset s" "maxClockSkew s' = maxClockSkew s" "listeners s' = listeners s"
    "nextListenID s' = nextListenID s" "syncOutFilters s' = syncOutFilters s"
    "syncInFilters s' = syncInFilters s" "postSyncOuts s' = postSyncOuts s"
    "preSetItems s' = preSetItems s" "onSyncCompletes s' = onSyncCompletes s"
    "done_closed s' = done_closed s" "clock s' = clock s" "uuids s' = uuids s"
    by (simp_all add: s')
qed

lemma evolves_store: "evolves I A m s s' \<Longrightarrow> I (store s')" "evolves I A m s s' \<Longrightarrow> A (store s') = m"
  by (simp_all add: evolves_def)

lemma evolves_trans:
  assumes "evolves I A m s s'" and "evolves I A m' s' s''"
  shows "evolves I A m' s s''"
proof -
  let ?u = "\<lambda>a b. a\<lparr>store := store b, gcCh := gcCh b, hookState := hookState b, ticks := ticks b, uuidsUsed := uuidsUsed b\<rparr>"
  have "s'' = ?u s' s''" and "s' = ?u s s'" using assms by (simp_all add: evolves_def)
  then have "s'' = ?u (?u s s') s''" by simp
  then show ?thesis using assms(2) by (simp add: evolves_def)
qed

lemma evolves_notify: "evolves I A m s s' \<Longrightarrow> evolves I A m s (notifyListeners it s')"
  by (rule evolves_trans [where s' = s']) (simp_all add: evolves_def notifyListeners_def)

lemma evolves_offerGC: "evolves I A m s s' \<Longrightarrow> evolves I A m s (offerGC r s')"
  by (rule evolves_trans [where s' = s']) (simp_all add: evolves_def offerGC_def)

lemma evolves_hook: "evolves I A m s s' \<Longrightarrow> evolves I A m s (s'\<lparr>hookState := x\<rparr>)"
  by (rule evolves_trans [where s' = s']) (simp_all add: evolves_def)

lemma evolves_tick: "I (store s) \<Longrightarrow> evolves I A (A (store s)) s (s\<lparr>ticks := t\<rparr>)"
  by (simp add: evolves_def)

lemma evolves_refl: "I (store s) \<Longrightarrow> evolves I A (A (store s)) s s"
  by (simp add: evolves_def)

lemma reads_evolves:
  "reads I A s s' \<Longrightarrow> evolves I A (A (store s)) s s'"
proof -
  assume r: "reads I A s s'"
  define st g where "st = store s'" and "g = gcCh s'"
  then have "s' = s\<lparr>store := st, gcCh := g\<rparr>" using r by (simp add: reads_def)
  then show ?thesis using r by (simp add: evolves_def reads_def)
qed

section \<open>The write itself\<close>

context kv_store
begin

lemma call_Set: "inv (store s) \<Longrightarrow>
    call (sSet S k v) s = (Inr (), s\<lparr>store := snd (sSet S k v (store s))\<rparr>)"
  by (simp add: call_def store_simps)

lemma call_ignore_Delete: "call_ignore (sDelete S k) s = s\<lparr>store := snd (sDelete S k (store s))\<rparr>"
  by (simp add: call_ignore_def call_def)

lemma setItem_write_spec:
  assumes "inv (store s)" and "benign (preSetItems s)" and w_def: "w = written s item wt"
  obtains s' where
    "setItem_write S item wt notify s =
       (if clock s (ticks s) > wt then (Inl (Errorf ''write time is in the past''), s')
        else (Inr (), case notify of None \<Rightarrow> s' | Some f \<Rightarrow> f w s'))"
    "evolves inv abs (if clock s (ticks s) > wt then unputs (abs (store s)) w else puts (abs (store s)) w) s s'"
    "ticks s' = Suc (ticks s)" "hookState s' = hookState s"
proof -
  have wf: "WriteTimestamp w = wt" "ID w = ID item" "Key w = Key item" "Timestamp w = Timestamp item"
    using assms(2) by (simp_all add: w_def written_fields)
  have w': "fold (\<lambda>hook it. hook it) (preSetItems s) (item\<lparr>WriteTimestamp := wt\<rparr>) = w"
    by (simp add: w_def written_def)
  have w'': "fold (\<lambda>hook. hook) (preSetItems s) (item\<lparr>WriteTimestamp := wt\<rparr>) = w"
    using w' by simp
  let ?q = "QueueKey (QueueID wt (ID item) (Key item))" and ?v = "ViewEntryKey (Key item) (Timestamp item) (ID item)"
  define st where "st = snd (sSet S (ValueKey (ID item)) (marshal_item w)
      (snd (sSet S ?v (ID item) (snd (sSet S ?q (ID item) (store s))))))"
  have st: "inv st" "abs st = puts (abs (store s)) w"
    using assms(1) wf by (simp_all add: st_def store_simps puts_def)
  define s1 where "s1 = s\<lparr>store := st, ticks := Suc (ticks s)\<rparr>"
  define s2 where "s2 = call_ignore (sDelete S (ValueKey (ID item)))
      (call_ignore (sDelete S ?v) (call_ignore (sDelete S ?q) s1))"
  have s2: "evolves inv abs (unputs (abs (store s)) w) s s2"
    using st wf unputs_puts [of "abs (store s)" w]
    by (simp add: s2_def s1_def call_ignore_Delete evolves_def store_simps unputs_def)
  let ?s = "if clock s (ticks s) > wt then s2 else offerGC \<lparr>gcrKey = Key item, gcrCurrentID = ID item\<rparr> s1"
  show thesis
  proof
    show "setItem_write S item wt notify s =
       (if clock s (ticks s) > wt then (Inl (Errorf ''write time is in the past''), ?s)
        else (Inr (), case notify of None \<Rightarrow> ?s | Some f \<Rightarrow> f w ?s))"
      using assms(1) wf
      by (cases notify) (simp_all add: setItem_write_def Let_def w' w'' call_Set store_simps time_now_def s2_def s1_def st_def)
    have "evolves inv abs (puts (abs (store s)) w) s s1" using st by (simp add: s1_def evolves_def)
    then show "evolves inv abs (if clock s (ticks s) > wt then unputs (abs (store s)) w
        else puts (abs (store s)) w) s ?s"
      using s2 evolves_offerGC by auto
    show "ticks ?s = Suc (ticks s)" and "hookState ?s = hookState s"
      by (simp_all add: s2_def s1_def call_ignore_Delete offerGC_def)
  qed
qed

end

section \<open>setItem\<close>

text \<open>
  The specification of \<open>setItem\<close>: its result and the content it leaves, as a function of
  the content \<open>m\<close> before it.  It reads the clock three times: for the limit on future
  timestamps, for the write time, and for the check that the write time is not yet past.
\<close>

definition write_time :: "('s, 'x) StoreSync \<Rightarrow> int" where
  "write_time s = i64 (clock s (Suc (ticks s)) + timeOffset s)"

definition blocked :: "(string \<rightharpoonup> string) \<Rightarrow> SyncStoreItem \<Rightarrow> bool" where
  "blocked m item = (case view m (Key item) of None \<Rightarrow> False
     | Some e \<Rightarrow> Timestamp e > Timestamp item \<or> ID e = ID item)"

definition setItem_abs ::
  "('s, 'x) StoreSync \<Rightarrow> SyncStoreItem \<Rightarrow> (string \<rightharpoonup> string) \<Rightarrow> unit result \<times> (string \<rightharpoonup> string)" where
  "setItem_abs s item m =
     (let w = written s item (write_time s)
      in if Timestamp item > i64 (clock s (ticks s) + timeOffset s + maxClockSkew s)
         then (Inl (Errorf ''item timestamp too far in the future''), m)
         else if blocked m item then (Inl ErrStaleWrite, m)
         else if clock s (Suc (Suc (ticks s))) > write_time s
         then (Inl (Errorf ''write time is in the past''), unputs m w)
         else (Inr (), puts m w))"

lemma setItem_abs_cases:
  assumes "setItem_abs s item m = (r, m')"
  obtains "r = Inl (Errorf ''item timestamp too far in the future'')" "m' = m"
      "Timestamp item > i64 (clock s (ticks s) + timeOffset s + maxClockSkew s)"
  | "r = Inl ErrStaleWrite" "m' = m" "blocked m item"
  | "r = Inl (Errorf ''write time is in the past'')" "m' = unputs m (written s item (write_time s))"
      "\<not> blocked m item"
  | "r = Inr ()" "m' = puts m (written s item (write_time s))" "\<not> blocked m item"
  using assms by (auto simp: setItem_abs_def Let_def split: if_splits)

context kv_store
begin

lemma setItem_spec:
  assumes "inv (store s)" and "decodable (abs (store s))" and "benign (preSetItems s)"
  obtains s' where
    "setItem S item (Some notifyListeners) s = (fst (setItem_abs s item (abs (store s))), s')"
    "evolves inv abs (snd (setItem_abs s item (abs (store s)))) s s'"
    "ticks s' \<le> ticks s + 3"
    "hookState s' = (case fst (setItem_abs s item (abs (store s))) of
        Inl _ \<Rightarrow> hookState s
      | Inr _ \<Rightarrow> fold (\<lambda>fn. fn (written s item (write_time s))) (map snd (listeners s)) (hookState s))"
proof -
  let ?m = "abs (store s)"
  define s1 where "s1 = s\<lparr>ticks := Suc (ticks s)\<rparr>"
  define s2 where "s2 = s\<lparr>ticks := Suc (Suc (ticks s))\<rparr>"
  have s12: "evolves inv abs ?m s s1" "evolves inv abs ?m s s2" "inv (store s2)" "abs (store s2) = ?m"
    using assms(1) by (simp_all add: s1_def s2_def evolves_tick)
  have tn: "time_now s = (clock s (ticks s), s1)" "time_now s1 = (clock s (Suc (ticks s)), s2)"
    by (simp_all add: time_now_def s1_def s2_def)
  obtain s3 where g: "getItem S (Key item) s2 = (view_result (view ?m (Key item)), s3)"
      "reads inv abs s2 s3"
    using getItem_spec [of s2 "Key item"] s12 assms(2) by auto
  have s3: "evolves inv abs ?m s s3" using evolves_trans [OF s12(2)] reads_evolves [OF g(2)] s12(4) by auto
  have f3: "clock s3 = clock s" "ticks s3 = Suc (Suc (ticks s))" "hookState s3 = hookState s"
      "preSetItems s3 = preSetItems s" "listeners s3 = listeners s" "inv (store s3)" "abs (store s3) = ?m"
    using reads_fields [OF g(2)] reads_inv [OF g(2)] reads_abs [OF g(2)] s12(4) by (simp_all add: s2_def)
  define w where "w = written s item (write_time s)"
  have w3: "w = written s3 item (write_time s)" and b3: "benign (preSetItems s3)"
    using assms(3) by (simp_all add: w_def written_def f3)
  obtain s4 where w: "setItem_write S item (write_time s) (Some notifyListeners) s3 =
       (if clock s3 (ticks s3) > write_time s then (Inl (Errorf ''write time is in the past''), s4)
        else (Inr (), case Some notifyListeners of None \<Rightarrow> s4 | Some f \<Rightarrow> f w s4))"
      "evolves inv abs (if clock s3 (ticks s3) > write_time s then unputs (abs (store s3)) w
        else puts (abs (store s3)) w) s3 s4"
      "ticks s4 = Suc (ticks s3)" "hookState s4 = hookState s3"
    by (rule setItem_write_spec [OF f3(6) b3 w3, where notify = "Some notifyListeners"])
  have s4: "evolves inv abs (if clock s3 (ticks s3) > write_time s then unputs ?m w else puts ?m w) s s4"
    using evolves_trans [OF s3 w(2)] by (simp only: f3(7))
  have l4: "listeners s4 = listeners s" using evolves_config(3) [OF s4] .
  let ?late = "Timestamp item > i64 (clock s (ticks s) + timeOffset s + maxClockSkew s)"
  have body: "setItem S item (Some notifyListeners) s =
      (if ?late then (Inl (Errorf ''item timestamp too far in the future''), s1)
       else if blocked ?m item then (Inl ErrStaleWrite, s3)
       else setItem_write S item (write_time s) (Some notifyListeners) s3)"
  proof -
    have "timeOffset s1 = timeOffset s" "maxClockSkew s1 = maxClockSkew s" "timeOffset s2 = timeOffset s"
      by (simp_all add: s1_def s2_def)
    then show ?thesis using g(1)
      by (cases "view ?m (Key item)") (simp_all add: setItem_def tn Let_def blocked_def write_time_def)
  qed
  show thesis
  proof (rule that [of "snd (setItem S item (Some notifyListeners) s)"])
    show "setItem S item (Some notifyListeners) s =
        (fst (setItem_abs s item ?m), snd (setItem S item (Some notifyListeners) s))"
      using w(1) f3 by (simp add: body setItem_abs_def Let_def w_def)
    show "evolves inv abs (snd (setItem_abs s item ?m)) s (snd (setItem S item (Some notifyListeners) s))"
      using w(1) f3(1,2) s12(1) s3 s4 evolves_notify [OF s4]
      by (cases "clock s (Suc (Suc (ticks s))) > write_time s")
        (simp_all add: body setItem_abs_def Let_def flip: w_def)
    show "ticks (snd (setItem S item (Some notifyListeners) s)) \<le> ticks s + 3"
      using w f3 by (simp add: body s1_def notifyListeners_def)
    show "hookState (snd (setItem S item (Some notifyListeners) s)) =
      (case fst (setItem_abs s item ?m) of Inl _ \<Rightarrow> hookState s
      | Inr _ \<Rightarrow> fold (\<lambda>fn. fn (written s item (write_time s))) (map snd (listeners s)) (hookState s))"
      using w f3 l4 by (simp add: body setItem_abs_def Let_def w_def s1_def notifyListeners_def)
  qed
qed

end

context kv_store
begin

lemma setItem_result:
  assumes "inv (store s)" and "decodable (abs (store s))" and "benign (preSetItems s)"
  shows "fst (setItem S item (Some notifyListeners) s) = fst (setItem_abs s item (abs (store s)))"
    and "evolves inv abs (snd (setItem_abs s item (abs (store s)))) s (snd (setItem S item (Some notifyListeners) s))"
    and "fst (setItem_abs s item (abs (store s))) = Inl e \<Longrightarrow>
      hookState (snd (setItem S item (Some notifyListeners) s)) = hookState s"
proof -
  obtain s' where s': "setItem S item (Some notifyListeners) s = (fst (setItem_abs s item (abs (store s))), s')"
      "evolves inv abs (snd (setItem_abs s item (abs (store s)))) s s'"
      "hookState s' = (case fst (setItem_abs s item (abs (store s))) of Inl _ \<Rightarrow> hookState s
        | Inr _ \<Rightarrow> fold (\<lambda>fn. fn (written s item (write_time s))) (map snd (listeners s)) (hookState s))"
    using setItem_spec [OF assms] .
  show "fst (setItem S item (Some notifyListeners) s) = fst (setItem_abs s item (abs (store s)))"
    and "evolves inv abs (snd (setItem_abs s item (abs (store s)))) s (snd (setItem S item (Some notifyListeners) s))"
    using s'(1,2) by simp_all
  show "hookState (snd (setItem S item (Some notifyListeners) s)) = hookState s"
    if "fst (setItem_abs s item (abs (store s))) = Inl e"
    using s'(1,3) that by simp
qed

end

section \<open>setItem as a last-writer-wins merge\<close>

lemma write_time_range: "in_i64 (write_time s)"
  by (simp add: write_time_def i64_range)

lemma writable_written:
  assumes "benign (preSetItems s)" and "writable m item"
  shows "writable m (written s item (write_time s))"
  using assms by (simp add: writable_def written_fields write_time_range id_ok_def)

lemma not_blocked_ID: "\<not> blocked m item \<Longrightarrow> view m (Key item) = Some e \<Longrightarrow> ID e \<noteq> ID item"
  by (simp add: blocked_def)

lemma view_live:
  assumes "wf m" and "nul_free key" and "view m key = Some e"
  shows "live m (ID e) = Some e" and "Key e = key"
  using assms by (auto simp: view_Some_iff set_versions)

lemma blocked_better:
  assumes "wf m" and "writable m item" and "blocked m item"
    and "Timestamp w = Timestamp item" and "ID w = ID item"
  shows "better w (view m (Key item)) = view m (Key item)"
proof -
  obtain e where e: "view m (Key item) = Some e" "Timestamp e > Timestamp item \<or> ID e = ID item"
    using assms(3) by (auto simp: blocked_def split: option.splits)
  have "live m (ID e) = Some e"
    using view_live(1) [OF assms(1) _ e(1)] assms(2) by (simp add: writable_def)
  then have "Timestamp e = Timestamp item" if "ID e = ID item"
    using assms(2) that by (auto simp: writable_def id_ok_def)
  then show ?thesis using e assms(4,5) by (auto simp: newer_def)
qed

lemma setItem_abs_merge:
  assumes "setItem_abs s item m = (r, m')" and "r = Inr () \<or> r = Inl ErrStaleWrite"
    and "wf m" and "writable m item" and "benign (preSetItems s)"
  shows "wf m'" and "nul_free key \<Longrightarrow> view m' key =
    (if key = Key item then better (written s item (write_time s)) (view m key) else view m key)"
proof -
  let ?w = "written s item (write_time s)"
  have w: "writable m ?w" "Key ?w = Key item" "ID ?w = ID item" "Timestamp ?w = Timestamp item"
    using assms(4,5) writable_written by (auto simp: written_fields)
  consider "m' = m" "blocked m item" | "m' = puts m ?w" "\<not> blocked m item"
    using assms(1,2) by (auto elim!: setItem_abs_cases)
  then have "wf m' \<and> (nul_free key \<longrightarrow> view m' key =
    (if key = Key item then better ?w (view m key) else view m key))"
  proof cases
    case 1
    then show ?thesis using assms(3,4) w blocked_better by auto
  next
    case 2
    then show ?thesis using assms(3) w not_blocked_ID wf_puts view_puts [of m ?w key] by auto
  qed
  then show "wf m'" and "nul_free key \<Longrightarrow> view m' key =
    (if key = Key item then better ?w (view m key) else view m key)" by auto
qed

lemma setItem_abs_fresh:
  assumes "setItem_abs s item m = (Inl e, m')" and "fresh_id m (ID item)" and "nul_free (Key item)"
    and "benign (preSetItems s)"
  shows "m' = m"
  using assms by (auto elim!: setItem_abs_cases simp: unputs_fresh written_fields)

end
