(* ===== verification/Engine.thy ===== *)
theory Engine
  imports Write
begin

text \<open>
  The operations that a user of the engine calls: \<open>Get\<close>, \<open>GetItem\<close>, \<open>Set\<close>, \<open>SetItem\<close>,
  \<open>SetIfNotExists\<close> and \<open>Delete\<close>, specified on the view of the content.  \<open>demo\<close> is a
  small engine over the in-memory backend, holding one item, on which the theorems are
  applied.
\<close>

section \<open>A concrete engine\<close>

definition demoItem :: SyncStoreItem where
  "demoItem = zeroItem\<lparr>Key := ''k'', Value := ''v'', Timestamp := 1700000000000000000, ID := ''i0'',
     WriteTimestamp := 1700000010000000000\<rparr>"

definition demoMem :: StoreMemory where
  "demoMem = \<lparr>data = [(QueueKey (QueueID (WriteTimestamp demoItem) (ID demoItem) (Key demoItem)), ID demoItem),
     (ViewEntryKey (Key demoItem) (Timestamp demoItem) (ID demoItem), ID demoItem),
     (ValueKey (ID demoItem), marshal_item demoItem)]\<rparr>"

definition demo :: "(StoreMemory, unit) StoreSync" where
  "demo = NewSync demoMem [] () (\<lambda>n. 1700000000000000001 + int (min n 1000)) (\<lambda>n. CHR ''u'' # dec n)"

definition blank :: "(StoreMemory, unit) StoreSync" where
  "blank = NewSync NewMemory [] () (\<lambda>n. 1700000000000000001 + int (min n 1000)) (\<lambda>n. CHR ''u'' # dec n)"

lemma wf_empty [simp]: "wf Map.empty"
  by (simp add: wf_def wf_values_def wf_views_def)

lemma fresh_empty [simp]: "fresh_id Map.empty u"
  by (simp add: fresh_id_def)

lemma demoItem_simps [simp]:
  "Key demoItem = ''k''" "Value demoItem = ''v''" "Timestamp demoItem = 1700000000000000000"
  "ID demoItem = ''i0''" "WriteTimestamp demoItem = 1700000010000000000" "Deleted demoItem = False"
  "App demoItem = []" "PublicKey demoItem = []" "Signature demoItem = []"
  by (simp_all add: demoItem_def zeroItem_def)

lemma demoItem_writable: "writable Map.empty demoItem"
  by (simp add: writable_def valid_item_def id_ok_fresh nul_free_def utf8_valid_ascii in_i64_def)

lemma demoMem_abs: "mem_abs demoMem = puts Map.empty demoItem"
  by (auto simp: mem_abs_def demoMem_def puts_def key_simps fun_eq_iff)

lemma demoMem_inv: "mem_inv demoMem"
  by (simp add: mem_inv_def demoMem_def key_simps)

lemma demo_simps [simp]:
  "store demo = demoMem" "preSetItems demo = []" "timeOffset demo = 10000000000"
  "maxClockSkew demo = 300000000000" "clock demo n = 1700000000000000001 + int (min n 1000)" "ticks demo = 0"
  "uuids demo n = CHR ''u'' # dec n" "uuidsUsed demo = 0" "syncInFilters demo = []"
  "syncOutFilters demo = []" "listeners demo = []" "done_closed demo = False" "postSyncOuts demo = []"
  by (simp_all add: demo_def NewSync_def NewWithOptions_def WithTimeOffset_def MaxClockSkew_def)

lemma blank_simps [simp]:
  "store blank = NewMemory" "preSetItems blank = []" "timeOffset blank = 10000000000"
  "maxClockSkew blank = 300000000000" "clock blank n = 1700000000000000001 + int (min n 1000)" "ticks blank = 0"
  "uuids blank n = CHR ''u'' # dec n" "uuidsUsed blank = 0" "syncInFilters blank = []"
  "syncOutFilters blank = []" "listeners blank = []" "done_closed blank = False" "postSyncOuts blank = []"
  by (simp_all add: blank_def NewSync_def NewWithOptions_def WithTimeOffset_def MaxClockSkew_def)

lemma blank_store: "mem_inv NewMemory" "mem_abs NewMemory = Map.empty"
  by (simp_all add: mem_inv_def mem_abs_def NewMemory_def)

lemma demo_wf: "wf (mem_abs demoMem)"
  unfolding demoMem_abs using wf_puts [OF wf_empty demoItem_writable] .

lemma view_empty [simp]: "view Map.empty key = None"
  by (simp add: view_def versions_def list_spec_def live_of_def List.map_filter_simps limit_to_def)

lemma demo_view:
  assumes "nul_free key"
  shows "view (mem_abs demoMem) key = (if key = ''k'' then Some demoItem else None)"
  using view_puts [OF wf_empty demoItem_writable assms] by (simp add: demoMem_abs)

lemma demo_fresh: "fresh_id (mem_abs demoMem) (CHR ''u'' # x)"
  by (simp add: demoMem_abs fresh_id_def puts_def key_simps QueueID_inject nul_free_def)

text \<open>A later version of the same key, and the result of storing it.\<close>

definition laterItem :: SyncStoreItem where
  "laterItem = demoItem\<lparr>Value := ''w'', Timestamp := 1700000000000000005, ID := ''u9''\<rparr>"

lemma laterItem_simps [simp]:
  "Key laterItem = ''k''" "Value laterItem = ''w''" "Timestamp laterItem = 1700000000000000005"
  "ID laterItem = ''u9''" "Deleted laterItem = False"
  by (simp_all add: laterItem_def)

lemma demo_write_time: "write_time demo = 1700000010000000002"
  by (simp add: write_time_def in_i64_def)

lemma laterItem_writable: "writable (mem_abs demoMem) laterItem"
  by (simp add: writable_def valid_item_def id_ok_fresh demo_fresh nul_free_def utf8_valid_ascii in_i64_def
      laterItem_def)

lemma demo_blocked: "\<not> blocked (mem_abs demoMem) laterItem"
  by (simp add: blocked_def demo_view nul_free_def)

lemma demo_setItem_abs: "setItem_abs demo laterItem (mem_abs demoMem) =
    (Inr (), puts (mem_abs demoMem) (laterItem\<lparr>WriteTimestamp := 1700000010000000002\<rparr>))"
  using demo_blocked by (simp add: setItem_abs_def demo_write_time written_no_hooks in_i64_def)

lemma demo_setItem: "fst (setItem memStore laterItem (Some notifyListeners) demo) = Inr ()"
proof -
  obtain s' where "setItem memStore laterItem (Some notifyListeners) demo =
      (fst (setItem_abs demo laterItem (mem_abs (store demo))), s')"
    by (rule mem.setItem_spec [of demo laterItem]) (simp_all add: demoMem_inv wf_decodable demo_wf)
  then show ?thesis by (simp add: demo_setItem_abs)
qed

section \<open>Specification of the reads\<close>

definition visible :: "(string \<rightharpoonup> string) \<Rightarrow> string \<Rightarrow> string option" where
  "visible m key = (case view m key of None \<Rightarrow> None | Some it \<Rightarrow> if Deleted it then None else Some (Value it))"

definition get_result_of :: "'a option \<Rightarrow> 'a result" where
  "get_result_of r = (case r of None \<Rightarrow> Inl ErrNotFound | Some v \<Rightarrow> Inr v)"

context kv_store
begin

lemma GetSync_spec:
  assumes "inv (store s)" and "decodable (abs (store s))"
  shows "fst (GetSync S key s) = get_result_of (visible (abs (store s)) key)"
    and "reads inv abs s (snd (GetSync S key s))"
proof -
  obtain s' where s': "getItem S key s = (view_result (view (abs (store s)) key), s')" "reads inv abs s s'"
    using getItem_spec [OF assms] .
  then show "fst (GetSync S key s) = get_result_of (visible (abs (store s)) key)"
    and "reads inv abs s (snd (GetSync S key s))"
    by (cases "view (abs (store s)) key"; simp add: GetSync_def visible_def get_result_of_def)+
qed

end

lemma visible_cong: "view m key = view m' key \<Longrightarrow> visible m key = visible m' key"
  by (simp add: visible_def)

section \<open>Specification of the writes\<close>

text \<open>The item that \<open>Set\<close> and \<open>SetItem\<close> build, and the engine after drawing its time and ID.\<close>

definition fresh_item :: "string \<Rightarrow> string \<Rightarrow> string \<Rightarrow> ('s, 'x) StoreSync \<Rightarrow> SyncStoreItem" where
  "fresh_item app key value s =
     zeroItem\<lparr>App := app, Key := key, Value := value, Timestamp := clock s (ticks s), ID := uuids s (uuidsUsed s)\<rparr>"

definition stamped :: "('s, 'x) StoreSync \<Rightarrow> ('s, 'x) StoreSync" where
  "stamped s = s\<lparr>ticks := Suc (ticks s), uuidsUsed := Suc (uuidsUsed s)\<rparr>"

definition ignore_stale :: "unit result \<Rightarrow> unit result" where
  "ignore_stale r = (case r of Inl e \<Rightarrow> if errors_Is e ErrStaleWrite then Inr () else Inl e | Inr _ \<Rightarrow> Inr ())"

definition ready :: "('s, 'x) StoreSync \<Rightarrow> (string \<rightharpoonup> string) \<Rightarrow> string \<Rightarrow> string \<Rightarrow> bool" where
  "ready s m key value \<longleftrightarrow> nul_free key \<and> utf8_valid key \<and> utf8_valid value \<and>
     in_i64 (clock s (ticks s)) \<and> utf8_valid (uuids s (uuidsUsed s)) \<and> fresh_id m (uuids s (uuidsUsed s))"

lemma fresh_item_simps [simp]:
  "App (fresh_item app key value s) = app" "Key (fresh_item app key value s) = key"
  "Value (fresh_item app key value s) = value" "Timestamp (fresh_item app key value s) = clock s (ticks s)"
  "ID (fresh_item app key value s) = uuids s (uuidsUsed s)" "Deleted (fresh_item app key value s) = False"
  by (simp_all add: fresh_item_def zeroItem_def)

lemma stamped_simps [simp]:
  "store (stamped s) = store s" "preSetItems (stamped s) = preSetItems s" "hookState (stamped s) = hookState s"
  "listeners (stamped s) = listeners s" "clock (stamped s) = clock s" "ticks (stamped s) = Suc (ticks s)"
  by (simp_all add: stamped_def)

lemma evolves_stamped: "I (store s) \<Longrightarrow> evolves I A (A (store s)) s (stamped s)"
  by (simp add: evolves_def stamped_def)

lemma ready_writable:
  assumes "ready s m key value" and "utf8_valid app"
  shows "writable m ((fresh_item app key value s)\<lparr>Deleted := d\<rparr>)"
  using assms id_ok_fresh
  by (auto simp: ready_def writable_def valid_item_def fresh_item_def zeroItem_def in_i64_def)

context kv_store
begin

lemma SetItem_spec:
  assumes it_def: "it = fresh_item app key value s"
    and "inv (store s)" and "decodable (abs (store s))" and "benign (preSetItems s)"
  obtains s' where
    "SetItem S app key value s = (ignore_stale (fst (setItem_abs (stamped s) it (abs (store s)))), s')"
    "evolves inv abs (snd (setItem_abs (stamped s) it (abs (store s)))) s s'"
proof -
  let ?s = "stamped s" and ?a = "setItem_abs (stamped s) it (abs (store s))"
  obtain s' where s': "setItem S it (Some notifyListeners) ?s = (fst ?a, s')"
      "evolves inv abs (snd ?a) ?s s'"
    using setItem_spec [of ?s it] assms by auto
  have "SetItem S app key value s = (ignore_stale (fst ?a), s')"
    using s'(1)
    by (simp add: SetItem_def time_now_def uuid_new_def stamped_def it_def fresh_item_def ignore_stale_def
        split: sum.split)
  moreover have "evolves inv abs (snd ?a) s s'"
    using evolves_trans [OF evolves_stamped [of inv, OF assms(2)] s'(2)] .
  ultimately show thesis using that by blast
qed

lemma ignore_stale_ok: "ignore_stale (fst (setItem_abs s it m)) = Inr () \<longleftrightarrow>
    fst (setItem_abs s it m) = Inr () \<or> fst (setItem_abs s it m) = Inl ErrStaleWrite"
  by (simp add: setItem_abs_def ignore_stale_def Let_def)

lemma SetItem_view:
  assumes "inv (store s)" and "wf (abs (store s))" and "benign (preSetItems s)"
    and "ready s (abs (store s)) key value" and "utf8_valid app"
    and "SetItem S app key value s = (Inr (), s')"
  defines "w \<equiv> written s (fresh_item app key value s) (write_time (stamped s))"
  shows "wf (abs (store s'))" and "inv (store s')" and "nul_free k \<Longrightarrow> view (abs (store s')) k =
     (if k = key then better w (view (abs (store s)) k) else view (abs (store s)) k)"
proof -
  let ?it = "fresh_item app key value s"
  obtain r m' where rm: "setItem_abs (stamped s) ?it (abs (store s)) = (r, m')" by fastforce
  obtain t where t: "SetItem S app key value s = (ignore_stale (fst (r, m')), t)"
      "evolves inv abs (snd (r, m')) s t"
    using SetItem_spec [OF refl assms(1) wf_decodable [OF assms(2)] assms(3), of app key "value"]
    unfolding rm by blast
  have r: "r = Inr () \<or> r = Inl ErrStaleWrite" and ev: "evolves inv abs m' s s'"
    using ignore_stale_ok [of "stamped s" ?it "abs (store s)"] t assms(6) rm by simp_all
  have wr: "writable (abs (store s)) ?it"
    using ready_writable [OF assms(4,5), of False] by (simp add: fresh_item_def zeroItem_def)
  have m': "abs (store s') = m'" using evolves_store(2) [OF ev] .
  show "inv (store s')" using evolves_store(1) [OF ev] .
  have w: "written (stamped s) ?it (write_time (stamped s)) = w" by (simp add: w_def written_def)
  show "wf (abs (store s'))" using setItem_abs_merge(1) [OF rm r assms(2) wr] assms(3) m' by simp
  show "view (abs (store s')) k = (if k = key then better w (view (abs (store s)) k) else view (abs (store s)) k)"
    if "nul_free k"
    using setItem_abs_merge(2) [OF rm r assms(2) wr _ that] assms(3) w m' by simp
qed

end

text \<open>\<open>Delete\<close>: a tombstone written by \<open>setItem\<close>, for a visible key only.\<close>

definition tombstone :: "string \<Rightarrow> string \<Rightarrow> ('s, 'x) StoreSync \<Rightarrow> SyncStoreItem" where
  "tombstone app key s = (fresh_item app key [] s)\<lparr>Deleted := True\<rparr>"

lemma tombstone_simps [simp]:
  "Key (tombstone app key s) = key" "ID (tombstone app key s) = uuids s (uuidsUsed s)"
  "Timestamp (tombstone app key s) = clock s (ticks s)" "Deleted (tombstone app key s) = True"
  by (simp_all add: tombstone_def)

lemma setItem_abs_cong:
  assumes "reads I A s s'"
  shows "setItem_abs (stamped s') it m = setItem_abs (stamped s) it m"
    and "fresh_item app key value s' = fresh_item app key value s"
    and "tombstone app key s' = tombstone app key s"
    and "written s' it wt = written s it wt" and "write_time (stamped s') = write_time (stamped s)"
  using reads_fields [OF assms]
  by (simp_all add: setItem_abs_def written_def write_time_def stamped_def fresh_item_def tombstone_def
      Let_def)

context kv_store
begin

lemma DeleteSync_spec:
  assumes "inv (store s)" and "decodable (abs (store s))" and "benign (preSetItems s)"
  obtains "view (abs (store s)) key = None \<or> (\<exists>e. view (abs (store s)) key = Some e \<and> Deleted e)"
      "fst (DeleteSync S key s) = Inl ErrNotFound" "abs (store (snd (DeleteSync S key s))) = abs (store s)"
  | e s' where "view (abs (store s)) key = Some e" "\<not> Deleted e"
      "DeleteSync S key s = (fst (setItem_abs (stamped s) (tombstone (App e) key s) (abs (store s))), s')"
      "evolves inv abs (snd (setItem_abs (stamped s) (tombstone (App e) key s) (abs (store s)))) s s'"
proof -
  let ?m = "abs (store s)"
  obtain s1 where s1: "getItem S key s = (view_result (view ?m key), s1)" "reads inv abs s s1"
    using getItem_spec [OF assms(1,2)] .
  show thesis
  proof (cases "\<exists>e. view ?m key = Some e \<and> \<not> Deleted e")
    case False
    then show thesis using that(1) s1(1) reads_abs [OF s1(2)]
      by (cases "view ?m key") (auto simp: DeleteSync_def)
  next
    case True
    then obtain e where e: "view ?m key = Some e" "\<not> Deleted e" by blast
    let ?it = "tombstone (App e) key s" and ?a = "setItem_abs (stamped s) (tombstone (App e) key s) ?m"
    have pre: "inv (store (stamped s1))" "decodable (abs (store (stamped s1)))"
        "benign (preSetItems (stamped s1))" "abs (store (stamped s1)) = ?m"
      using assms(2,3) reads_inv [OF s1(2)] reads_abs [OF s1(2)] reads_fields(8) [OF s1(2)] by simp_all
    define s' where "s' = snd (setItem S ?it (Some notifyListeners) (stamped s1))"
    have s': "setItem S ?it (Some notifyListeners) (stamped s1) = (fst ?a, s')"
        "evolves inv abs (snd ?a) (stamped s1) s'"
      using setItem_result(1,2) [OF pre(1-3), of ?it] pre(4) setItem_abs_cong(1) [OF s1(2)]
      by (simp_all add: s'_def prod_eq_iff)
    have "DeleteSync S key s = (fst ?a, s')"
      using s1(1) e s'(1) setItem_abs_cong(3) [OF s1(2), of "App e" key]
      by (simp add: DeleteSync_def time_now_def uuid_new_def stamped_def tombstone_def fresh_item_def)
    moreover have "evolves inv abs (snd ?a) s s'"
      using evolves_trans [OF reads_evolves [OF s1(2)]
        evolves_trans [OF evolves_stamped [of inv, OF reads_inv [OF s1(2)]] s'(2)]] .
    ultimately show thesis using that(2) e by blast
  qed
qed

end

text \<open>\<open>SetIfNotExists\<close>: what it writes once it holds the lock key.\<close>

definition claimed :: "('s, 'x) StoreSync \<Rightarrow> SyncStoreItem \<Rightarrow> SyncStoreItem" where
  "claimed s item = item\<lparr>WriteTimestamp := i64 (clock s (ticks s) + timeOffset s)\<rparr>"

definition claim_late :: "('s, 'x) StoreSync \<Rightarrow> bool" where
  "claim_late s \<longleftrightarrow> clock s (Suc (ticks s)) > i64 (clock s (ticks s) + timeOffset s)"

context kv_store
begin

lemma claim_write_spec:
  assumes "inv (store s)"
  shows "fst (claim_write S item s) =
      (if claim_late s then Inl (Errorf ''write time is in the past'') else Inr True)"
    and "evolves inv abs (if claim_late s then (unputs (abs (store s)) (claimed s item))(LockKey (Key item) := None)
      else puts (abs (store s)) (claimed s item)) s (snd (claim_write S item s))"
proof -
  let ?w = "claimed s item" and ?wt = "i64 (clock s (ticks s) + timeOffset s)"
  let ?q = "QueueKey (QueueID ?wt (ID item) (Key item))" and ?v = "ViewEntryKey (Key item) (Timestamp item) (ID item)"
  define st where "st = snd (sSet S ?v (ID item) (snd (sSet S ?q (ID item)
      (snd (sSet S (ValueKey (ID item)) (marshal_item ?w) (store s))))))"
  have st: "inv st" "abs st = puts (abs (store s)) ?w"
    using assms by (auto simp: st_def store_simps puts_def claimed_def key_simps fun_eq_iff)
  define s1 where "s1 = s\<lparr>store := st, ticks := Suc (Suc (ticks s))\<rparr>"
  define s2 where "s2 = call_ignore (sDelete S (LockKey (Key item))) (call_ignore (sDelete S (ValueKey (ID item)))
      (call_ignore (sDelete S ?q) (call_ignore (sDelete S ?v) s1)))"
  have s1: "evolves inv abs (puts (abs (store s)) ?w) s s1" using st by (simp add: s1_def evolves_def)
  have s2: "evolves inv abs ((unputs (abs (store s)) ?w)(LockKey (Key item) := None)) s s2"
    using st
    by (auto simp: s2_def s1_def call_ignore_Delete evolves_def store_simps unputs_def puts_def claimed_def fun_eq_iff)
  have eq: "claim_write S item s =
      (if claim_late s then (Inl (Errorf ''write time is in the past''), s2)
       else (Inr True, notifyListeners ?w (offerGC \<lparr>gcrKey = Key item, gcrCurrentID = ID item\<rparr> s1)))"
    using assms
    by (simp add: claim_write_def Let_def time_now_def call_Set store_simps claim_late_def s2_def s1_def st_def claimed_def)
  show "fst (claim_write S item s) =
      (if claim_late s then Inl (Errorf ''write time is in the past'') else Inr True)"
    and "evolves inv abs (if claim_late s then (unputs (abs (store s)) ?w)(LockKey (Key item) := None)
      else puts (abs (store s)) ?w) s (snd (claim_write S item s))"
    using s2 evolves_notify [OF evolves_offerGC [OF s1]] by (simp_all add: eq)
qed

lemma SetIfNotExistsSync_spec:
  assumes "inv (store s)" and "decodable (abs (store s))"
    and m_def: "m = abs (store s)" and it_def: "it = fresh_item [] key value s"
  obtains (taken) e where "view m key = Some e" "\<not> Deleted e"
      "fst (SetIfNotExistsSync S key value s) = Inr False" "abs (store (snd (SetIfNotExistsSync S key value s))) = m"
  | (revive) e t s' where "view m key = Some e" "Deleted e" "reads inv abs s t" "SetItem S [] key value t = (Inr (), s')"
      "SetIfNotExistsSync S key value s = (Inr True, s')"
  | (locked) "view m key = None" "m (LockKey key) \<noteq> None"
      "fst (SetIfNotExistsSync S key value s) = Inr False" "abs (store (snd (SetIfNotExistsSync S key value s))) = m"
  | (claimed) s' where "view m key = None" "m (LockKey key) = None"
      "SetIfNotExistsSync S key value s = (Inr True, s')"
      "evolves inv abs (puts (m(LockKey key \<mapsto> ID it)) (claimed (stamped s) it)) s s'"
  | (error) e where "fst (SetIfNotExistsSync S key value s) = Inl e"
proof -
  obtain s1 where s1: "getItem S key s = (view_result (view m key), s1)" "reads inv abs s s1"
    using getItem_spec [OF assms(1,2)] unfolding m_def .
  have i1: "inv (store s1)" "abs (store s1) = m" using reads_inv [OF s1(2)] reads_abs [OF s1(2)] m_def by auto
  have it1: "fresh_item [] key value s1 = it" using setItem_abs_cong(2) [OF s1(2)] it_def by simp
  show thesis
  proof (cases "view m key")
    case (Some e)
    show thesis
    proof (cases "Deleted e")
      case False
      then show thesis using taken Some s1(1) i1(2) by (simp add: SetIfNotExistsSync_def Let_def)
    next
      case True
      obtain r s' where r: "SetItem S [] key value s1 = (r, s')" by fastforce
      then show thesis
        using revive [OF Some True s1(2), of s'] error Some True s1(1)
        by (cases r) (auto simp: SetIfNotExistsSync_def Let_def)
    qed
  next
    case None
    define s2 where "s2 = (stamped s1)\<lparr>store := snd (sSetIfNotExists S (LockKey key) (ID it) (store s1))\<rparr>"
    have i2: "inv (store s2)" "abs (store s2) = (if m (LockKey key) = None then m(LockKey key \<mapsto> ID it) else m)"
      using i1 by (simp_all add: s2_def store_simps)
    have ev2: "evolves inv abs (abs (store s2)) s s2"
      using evolves_trans [OF reads_evolves [OF s1(2)], of "abs (store s2)" s2] i2
      by (simp add: evolves_def s2_def stamped_def)
    have eq: "SetIfNotExistsSync S key value s =
        (if m (LockKey key) = None then claim_write S it s2 else (Inr False, s2))"
      using s1(1) None i1 it1
      by (simp add: SetIfNotExistsSync_def Let_def time_now_def uuid_new_def call_def store_simps s2_def stamped_def
          fresh_item_def)
    show thesis
    proof (cases "m (LockKey key) = None \<and> \<not> claim_late s2")
      case True
      have "SetIfNotExistsSync S key value s = (Inr True, snd (claim_write S it s2))"
        using claim_write_spec(1) [OF i2(1), of it] True eq by (simp add: prod_eq_iff)
      moreover have "claimed s2 it = claimed (stamped s) it"
        using reads_fields [OF s1(2)] by (simp add: claimed_def s2_def stamped_def)
      ultimately show thesis
        using claimed [OF None] True evolves_trans [OF ev2 claim_write_spec(2) [OF i2(1), of it]] i2(2) by simp
    next
      case False
      then show thesis using locked [OF None] error claim_write_spec(1) [OF i2(1), of it] eq i2(2)
        by (cases "m (LockKey key) = None") auto
    qed
  qed
qed

end

section \<open>Properties\<close>

definition stored_versions :: "(string \<rightharpoonup> string) \<Rightarrow> string \<Rightarrow> SyncStoreItem set" where
  "stored_versions m key = {it. Key it = key \<and> live m (ID it) = Some it \<and>
     m (ViewEntryKey key (Timestamp it) (ID it)) = Some (ID it)}"

lemma stored_versions_set: "wf m \<Longrightarrow> nul_free key \<Longrightarrow> stored_versions m key = set (versions m key)"
  by (simp add: stored_versions_def set_versions)

text \<open>C5. \<open>getItem\<close> picks the last writer: it returns a version of the key that is stored
  and indexed, such that no other stored version of the key is newer; it reports
  \<open>ErrNotFound\<close> exactly when the key has no version; and it changes no content.\<close>

theorem getItem_winner:
  assumes "kv_store S I A" and "I (store s)" and "wf (A (store s))" and "nul_free key"
  shows "(fst (getItem S key s) = Inr it \<longleftrightarrow>
       it \<in> stored_versions (A (store s)) key \<and> (\<forall>x \<in> stored_versions (A (store s)) key. \<not> newer x it)) \<and>
     (fst (getItem S key s) = Inl e \<longleftrightarrow> e = ErrNotFound \<and> stored_versions (A (store s)) key = {}) \<and>
     A (store (snd (getItem S key s))) = A (store s)"
proof -
  let ?m = "A (store s)"
  obtain s' where s': "getItem S key s = (view_result (view ?m key), s')" "reads I A s s'"
    using kv_store.getItem_spec [OF assms(1,2) wf_decodable [OF assms(3)]] .
  have V: "stored_versions ?m key = set (versions ?m key)" using assms stored_versions_set by blast
  show ?thesis
  proof (cases "view ?m key")
    case None
    then have "versions ?m key = []" by (simp add: view_def best_None_iff)
    then show ?thesis using s' None V reads_abs [OF s'(2)] by auto
  next
    case (Some b)
    then have "versions ?m key \<noteq> []" by (auto simp: view_def)
    moreover have "b = it \<longleftrightarrow> it \<in> set (versions ?m key) \<and> (\<forall>x \<in> set (versions ?m key). \<not> newer x it)"
      using Some view_Some_iff [OF assms(3,4)] by fastforce
    ultimately show ?thesis using reads_abs [OF s'(2)] by (simp add: V s'(1) Some)
  qed
qed

theorem getItem_winner_witness:
  "fst (getItem memStore ''k'' demo) = Inr demoItem \<and> stored_versions (mem_abs demoMem) ''x'' = {}"
proof
  have "demoItem \<in> stored_versions (mem_abs demoMem) ''k'' \<and>
      (\<forall>x \<in> stored_versions (mem_abs demoMem) ''k''. \<not> newer x demoItem)"
    using demo_view [of "''k''"] view_Some_iff [OF demo_wf, of "''k''"] stored_versions_set [OF demo_wf, of "''k''"]
    by (simp add: nul_free_def)
  then show "fst (getItem memStore ''k'' demo) = Inr demoItem"
    using getItem_winner [OF mem.kv_store_axioms, of demo "''k''" demoItem] demoMem_inv demo_wf
    by (simp add: nul_free_def)
  have "stored_versions (mem_abs demoMem) ''x'' = set (versions (mem_abs demoMem) ''x'')"
    using stored_versions_set [OF demo_wf, of "''x''"] by (simp add: nul_free_def)
  then show "stored_versions (mem_abs demoMem) ''x'' = {}"
    using demo_view [of "''x''"] by (simp add: nul_free_def view_def best_None_iff)
qed

text \<open>C1. \<open>setItem\<close> is a last-writer-wins merge: when it returns success, or skips a
  stale write, the visible version of the item's key is the newer of the old one and the
  written item, every other key is as before, and the content stays well formed.\<close>

theorem setItem_merge:
  assumes "kv_store S I A" and "I (store s)" and "wf (A (store s))" and "benign (preSetItems s)"
    and "writable (A (store s)) item"
    and "setItem S item (Some notifyListeners) s = (r, s')" and "r = Inr () \<or> r = Inl ErrStaleWrite"
  shows "I (store s') \<and> wf (A (store s')) \<and> (\<forall>key. nul_free key \<longrightarrow> view (A (store s')) key =
     (if key = Key item then better (written s item (write_time s)) (view (A (store s)) key)
      else view (A (store s)) key))"
proof -
  obtain r' m' where rm: "setItem_abs s item (A (store s)) = (r', m')" by fastforce
  obtain t where t: "setItem S item (Some notifyListeners) s = (fst (r', m'), t)" "evolves I A (snd (r', m')) s t"
    using kv_store.setItem_spec [OF assms(1,2) wf_decodable [OF assms(3)] assms(4), of item] unfolding rm .
  with assms(6) have "r' = r" "t = s'" "I (store s')" "A (store s') = m'"
    using evolves_store by auto
  then show ?thesis using setItem_abs_merge [OF rm _ assms(3,5,4)] assms(7) by simp
qed

theorem setItem_merge_witness:
  "\<exists>s'. setItem memStore laterItem (Some notifyListeners) demo = (Inr (), s') \<and>
     view (mem_abs (store s')) ''k'' = Some (laterItem\<lparr>WriteTimestamp := 1700000010000000002\<rparr>)"
proof -
  obtain s' where s': "setItem memStore laterItem (Some notifyListeners) demo = (Inr (), s')"
    using demo_setItem by (metis prod.collapse)
  have "newer (laterItem\<lparr>WriteTimestamp := 1700000010000000002\<rparr>) demoItem" by (simp add: newer_def)
  then have "view (mem_abs (store s')) ''k'' = Some (laterItem\<lparr>WriteTimestamp := 1700000010000000002\<rparr>)"
    using setItem_merge [OF mem.kv_store_axioms _ _ _ _ s'] demoMem_inv demo_wf laterItem_writable
    by (simp add: nul_free_def demo_view written_no_hooks demo_write_time)
  with s' show ?thesis by blast
qed




lemma demo_ready: "utf8_valid v \<Longrightarrow> ready demo (mem_abs demoMem) ''k'' v"
  using demo_fresh by (simp add: ready_def nul_free_def utf8_valid_ascii in_i64_def dec.simps digit_def)

lemma demo_SetSync: "\<exists>s'. SetSync memStore ''k'' v demo = (Inr (), s')"
proof -
  let ?it = "fresh_item [] ''k'' v demo"
  have "fst (setItem_abs (stamped demo) ?it (mem_abs demoMem)) = Inr ()"
    by (simp add: setItem_abs_def Let_def blocked_def demo_view nul_free_def dec.simps in_i64_def write_time_def stamped_def)
  then show ?thesis
    using mem.SetItem_spec [OF refl, of demo "[]" "''k''" v] demoMem_inv wf_decodable [OF demo_wf]
    by (fastforce simp: SetSync_def ignore_stale_def)
qed


text \<open>C9. \<open>Delete\<close> hides the key: when it reports success and no version of the key carries
  a timestamp of this instant or later, \<open>Get\<close> of the key then reports \<open>ErrNotFound\<close>,
  the other keys are as before, and the content stays well formed with a tombstone for the
  key.  On a key that is absent or already deleted it reports \<open>ErrNotFound\<close> and changes
  nothing.\<close>

theorem Delete_hides:
  assumes "kv_store S I A" and "I (store s)" and "wf (A (store s))" and "benign (preSetItems s)"
    and "ready s (A (store s)) key []"
    and "\<And>e. view (A (store s)) key = Some e \<Longrightarrow> Timestamp e < clock s (ticks s)"
    and "DeleteSync S key s = (r, s')" and "r = Inr () \<or> visible (A (store s)) key = None"
  shows "(if visible (A (store s)) key = None then r = Inl ErrNotFound \<and> A (store s') = A (store s)
      else visible (A (store s')) key = None \<and> (\<exists>t. view (A (store s')) key = Some t \<and> Deleted t) \<and>
        wf (A (store s')) \<and>
        (\<forall>k. nul_free k \<longrightarrow> k \<noteq> key \<longrightarrow> view (A (store s')) k = view (A (store s)) k))"
proof (rule kv_store.DeleteSync_spec [OF assms(1,2) wf_decodable [OF assms(3)] assms(4), of key])
  assume "view (A (store s)) key = None \<or> (\<exists>e. view (A (store s)) key = Some e \<and> Deleted e)"
    and "fst (DeleteSync S key s) = Inl ErrNotFound" and "A (store (snd (DeleteSync S key s))) = A (store s)"
  then show ?thesis using assms(7) by (auto simp: visible_def)
next
  fix e :: SyncStoreItem and t
  let ?m = "A (store s)" and ?it = "tombstone (App e) key s"
  assume e: "view ?m key = Some e" "\<not> Deleted e"
    and d: "DeleteSync S key s = (fst (setItem_abs (stamped s) ?it ?m), t)"
    and ev: "evolves I A (snd (setItem_abs (stamped s) ?it ?m)) s t"
  have key: "nul_free key" using assms(5) by (simp add: ready_def)
  then have "utf8_valid (App e)"
    using view_live(1) [OF assms(3) key e(1)] wf_live_valid [OF assms(3)] by (simp add: valid_item_def)
  then have wr: "writable ?m ?it" using ready_writable [OF assms(5)] by (simp add: tombstone_def)
  let ?w = "written (stamped s) ?it (write_time (stamped s))"
  have vis: "visible ?m key \<noteq> None" using e by (simp add: visible_def)
  then have "r = Inr ()" using assms(8) by auto
  with d assms(7) have rm: "setItem_abs (stamped s) ?it ?m = (Inr (), A (store s'))"
    using evolves_store(2) [OF ev] by (simp add: prod_eq_iff)
  have b: "benign (preSetItems (stamped s))" using assms(4) by simp
  note post = setItem_abs_merge [OF rm disjI1 [OF refl] assms(3) wr b]
  have "newer ?w e" using assms(6) [OF e(1)] by (simp add: newer_def written_fields [OF b])
  then have "view (A (store s')) key = Some ?w" using post(2) [OF key] e by simp
  then show ?thesis using vis post b
    by (auto simp: visible_def written_fields [OF b])
qed

theorem Delete_hides_witness:
  "\<exists>s'. DeleteSync memStore ''k'' demo = (Inr (), s') \<and> visible (mem_abs (store s')) ''k'' = None"
proof -
  let ?it = "tombstone [] ''k'' demo"
  have a: "fst (setItem_abs (stamped demo) ?it (mem_abs demoMem)) = Inr ()"
    by (simp add: setItem_abs_def Let_def blocked_def demo_view nul_free_def dec.simps in_i64_def write_time_def stamped_def)
  obtain s' where s': "DeleteSync memStore ''k'' demo = (Inr (), s')"
    by (rule mem.DeleteSync_spec [of demo "''k''"])
      (use demoMem_inv wf_decodable [OF demo_wf] demo_view [of "''k''"] a in \<open>auto simp: nul_free_def\<close>)
  have r: "ready demo (mem_abs (store demo)) ''k'' []" using demo_ready [of "[]"] by simp
  have "visible (mem_abs (store s')) ''k'' = None"
    using Delete_hides [OF mem.kv_store_axioms _ _ _ r _ s'] demoMem_inv demo_wf
    by (simp add: demo_view nul_free_def visible_def)
  with s' show ?thesis by blast
qed



end
