(* ===== verification/Paging.thy ===== *)
theory Paging
  imports Store
begin

text \<open>
  Reading a store page by page, the idiom of every loop over \<open>List\<close> in the code base: ask
  for a bounded page, continue after its last key, stop at a page that is not full.  The
  page after the last key of a page is the rest of the listing (\<open>list_spec_next\<close>), and
  it is strictly shorter, which is why such loops end.
\<close>

lemma list_spec_limited:
  "list_spec m a = limit_to (Limit a) (list_spec m (a\<lparr>Limit := 0\<rparr>))"
  by (simp add: list_spec_def in_range_def)

lemma filter_sorted_list_of_set:
  assumes "finite A"
  shows "filter P (sorted_list_of_set A) = sorted_list_of_set {x \<in> A. P x}"
  by (rule strict_sorted_equal)
    (use assms in \<open>auto intro: sorted_wrt_filter simp: strict_sorted_list_of_set\<close>)

lemma filter_greater_last:
  fixes xs :: "'a :: linorder list"
  assumes "sorted_wrt (<) xs" and "0 < n" and "n \<le> length xs"
  shows "filter (\<lambda>k. last (take n xs) < k) xs = drop n xs"
proof -
  let ?x = "last (take n xs)"
  have ne: "take n xs \<noteq> []" using assms(2,3) by auto
  have sw: "sorted_wrt (<) (take n xs @ drop n xs)" using assms(1) by simp
  have "filter (\<lambda>k. ?x < k) (take n xs) = []"
  proof -
    have "y \<le> ?x" if "y \<in> set (take n xs)" for y
    proof -
      have "sorted (butlast (take n xs) @ [?x])"
        using strict_sorted_imp_sorted [OF assms(1)] ne by (simp add: sorted_wrt_take)
      moreover have "y \<in> set (butlast (take n xs) @ [?x])" using that ne by simp
      ultimately show ?thesis unfolding sorted_append by auto
    qed
    then show ?thesis by (auto simp: filter_empty_conv not_less)
  qed
  moreover have "filter (\<lambda>k. ?x < k) (drop n xs) = drop n xs"
  proof -
    have "?x \<in> set (take n xs)" using ne by simp
    then show ?thesis using sw unfolding sorted_wrt_append by (simp add: filter_id_conv)
  qed
  ultimately have "filter (\<lambda>k. ?x < k) (take n xs @ drop n xs) = drop n xs"
    unfolding filter_append by simp
  then show ?thesis unfolding append_take_drop_id .
qed

lemma list_spec_next:
  assumes "finite (dom m)" and "Prefix a \<noteq> []" and "0 < n" and "n \<le> length (list_spec m (a\<lparr>Limit := 0\<rparr>))"
  shows "list_spec m (a\<lparr>StartAfter := kvKey (last (take n (list_spec m (a\<lparr>Limit := 0\<rparr>)))), Limit := 0\<rparr>)
    = drop n (list_spec m (a\<lparr>Limit := 0\<rparr>))"
proof -
  let ?R = "{k \<in> dom m. in_range a k}"
  let ?xs = "sorted_list_of_set ?R"
  have L: "list_spec m (a\<lparr>Limit := 0\<rparr>) = map (entry_at m) ?xs"
    by (simp add: list_spec_def in_range_def)
  let ?x = "last (take n ?xs)"
  have len: "n \<le> length ?xs" using assms(4) by (simp add: L)
  then have ne: "take n ?xs \<noteq> []" using assms(3) by (cases ?xs) auto
  have x: "kvKey (last (take n (list_spec m (a\<lparr>Limit := 0\<rparr>)))) = ?x"
    using ne by (simp add: L take_map last_map entry_at_def)
  have "?x \<in> set (take n ?xs)" using ne by simp
  then have "?x \<in> ?R" using set_take_subset [of n ?xs] assms(1) by auto
  then have xr: "in_range a ?x" "?x \<noteq> []" using assms(2) by (auto simp: in_range_def)
  have "in_range (a\<lparr>StartAfter := ?x, Limit := 0\<rparr>) k \<longleftrightarrow> in_range a k \<and> ?x < k" for k
    using xr by (auto simp: in_range_def)
  then have "{k \<in> dom m. in_range (a\<lparr>StartAfter := ?x, Limit := 0\<rparr>) k} = {k \<in> ?R. ?x < k}" by auto
  then have "list_spec m (a\<lparr>StartAfter := ?x, Limit := 0\<rparr>) = map (entry_at m) (filter (\<lambda>k. ?x < k) ?xs)"
    using assms(1) by (simp add: list_spec_def filter_sorted_list_of_set)
  also have "\<dots> = drop n (list_spec m (a\<lparr>Limit := 0\<rparr>))"
    using filter_greater_last [OF strict_sorted_list_of_set assms(3) len] by (simp add: L drop_map)
  finally show ?thesis unfolding x .
qed

end
