(* ===== verification/Listing.thy ===== *)
theory Listing
  imports Engine Paging
begin

text \<open>
  \<open>resolveView\<close>, \<open>List\<close> and \<open>ListItems\<close>.  The loop over pages is refined to a pure scan of
  the whole listing (\<open>winners\<close>), which is then shown to be the last-writer-wins view of
  every user key in the range, in the order of the keys.  The loop is proved to return.
\<close>

section \<open>The scan\<close>

definition opt_list :: "'a option \<Rightarrow> 'a list" where
  "opt_list w = (case w of None \<Rightarrow> [] | Some x \<Rightarrow> [x])"

definition take_in :: "SyncStoreItem option \<Rightarrow> SyncStoreItem option \<Rightarrow> SyncStoreItem option" where
  "take_in v w = (case v of None \<Rightarrow> w | Some it \<Rightarrow> better it w)"

text \<open>The winners of the groups of a listing, given the open group and its winner so far.\<close>

fun winners :: "('a \<Rightarrow> string) \<Rightarrow> ('a \<Rightarrow> SyncStoreItem option) \<Rightarrow> string \<Rightarrow> SyncStoreItem option \<Rightarrow> 'a list \<Rightarrow> SyncStoreItem list" where
  "winners U V k w [] = opt_list w"
| "winners U V k w (kv # kvs) =
     (if U kv \<noteq> k \<and> k \<noteq> [] then opt_list w @ winners U V (U kv) (take_in (V kv) None) kvs
      else winners U V (U kv) (take_in (V kv) w) kvs)"

definition group_best :: "('a \<Rightarrow> string) \<Rightarrow> ('a \<Rightarrow> SyncStoreItem option) \<Rightarrow> 'a list \<Rightarrow> string \<Rightarrow> SyncStoreItem option" where
  "group_best U V kvs key = fold take_in (map V (filter (\<lambda>kv. U kv = key) kvs)) None"

lemma opt_list_simps [simp]: "opt_list None = []" "opt_list (Some x) = [x]"
  by (simp_all add: opt_list_def)

lemma take_in_simps [simp]: "take_in None w = w" "take_in (Some it) w = better it w"
  by (simp_all add: take_in_def)

lemma sorted_list_of_set_min:
  fixes k :: "'a :: linorder"
  assumes "finite A" and "\<And>x. x \<in> A \<Longrightarrow> k \<le> x"
  shows "sorted_list_of_set (insert k A) = k # sorted_list_of_set (A - {k})"
proof -
  have "Min (insert k A) = k" using assms by (intro Min_eqI) auto
  moreover have "insert k A - {k} = A - {k}" by auto
  ultimately show ?thesis using assms(1) sorted_list_of_set_nonempty [of "insert k A"] by simp
qed

lemma winners_groups:
  assumes "sorted (k # map U kvs)" and "k \<noteq> []"
  shows "winners U V k w kvs =
    opt_list (fold take_in (map V (filter (\<lambda>kv. U kv = k) kvs)) w) @
    concat (map (\<lambda>a. opt_list (group_best U V kvs a)) (sorted_list_of_set (U ` set kvs - {k})))"
  using assms
proof (induction kvs arbitrary: k w)
  case Nil
  then show ?case by simp
next
  case (Cons kv kvs)
  let ?u = "U kv"
  have s: "sorted (?u # map U kvs)" and le: "k \<le> ?u" "\<And>x. x \<in> U ` set kvs \<Longrightarrow> ?u \<le> x"
    using Cons.prems(1) by auto
  have other: "group_best U V (kv # kvs) key = group_best U V kvs key" if "key \<noteq> ?u" for key
    using that by (simp add: group_best_def)
  show ?case
  proof (cases "?u = k")
    case True
    have "concat (map (\<lambda>a. opt_list (group_best U V (kv # kvs) a)) (sorted_list_of_set (U ` set kvs - {k})))
        = concat (map (\<lambda>a. opt_list (group_best U V kvs a)) (sorted_list_of_set (U ` set kvs - {k})))"
      using True by (intro arg_cong [where f = concat] map_cong) (auto simp: other)
    then show ?thesis using True Cons.IH [OF s, of "take_in (V kv) w"] Cons.prems(2) by simp
  next
    case False
    have u: "?u \<noteq> []" using le(1) Cons.prems(2) False by (cases k) auto
    have nk: "k \<notin> U ` set kvs" using le False by fastforce
    then have fk: "filter (\<lambda>kv. U kv = k) kvs = []" by (auto simp: filter_empty_conv)
    have "insert ?u (U ` set kvs) - {k} = insert ?u (U ` set kvs)" using nk False by auto
    then have keys: "sorted_list_of_set (insert ?u (U ` set kvs) - {k}) = ?u # sorted_list_of_set (U ` set kvs - {?u})"
      using sorted_list_of_set_min [of "U ` set kvs" ?u] le(2) by simp
    have "concat (map (\<lambda>a. opt_list (group_best U V (kv # kvs) a)) (sorted_list_of_set (U ` set kvs - {?u})))
        = concat (map (\<lambda>a. opt_list (group_best U V kvs a)) (sorted_list_of_set (U ` set kvs - {?u})))"
      by (intro arg_cong [where f = concat] map_cong) (auto simp: other)
    moreover have "group_best U V (kv # kvs) ?u = fold take_in (map V (filter (\<lambda>kv. U kv = ?u) kvs)) (take_in (V kv) None)"
      by (simp add: group_best_def)
    ultimately show ?thesis
      using False Cons.prems(2) Cons.IH [OF s u, of "take_in (V kv) None"] fk keys by simp
  qed
qed

lemma winners_all:
  assumes "sorted (map U kvs)" and "\<And>kv. kv \<in> set kvs \<Longrightarrow> U kv \<noteq> []"
  shows "winners U V [] None kvs = concat (map (\<lambda>a. opt_list (group_best U V kvs a)) (sorted_list_of_set (U ` set kvs)))"
proof (cases kvs)
  case (Cons kv rest)
  let ?u = "U kv"
  have s: "sorted (?u # map U rest)" and u: "?u \<noteq> []" using assms Cons by auto
  have keys: "sorted_list_of_set (insert ?u (U ` set rest)) = ?u # sorted_list_of_set (U ` set rest - {?u})"
    using sorted_list_of_set_min [of "U ` set rest" ?u] s by auto
  have "concat (map (\<lambda>a. opt_list (group_best U V (kv # rest) a)) (sorted_list_of_set (U ` set rest - {?u})))
      = concat (map (\<lambda>a. opt_list (group_best U V rest a)) (sorted_list_of_set (U ` set rest - {?u})))"
    by (intro arg_cong [where f = concat] map_cong) (auto simp: group_best_def)
  then show ?thesis
    using winners_groups [OF s u, of V "take_in (V kv) None"] Cons keys by (simp add: group_best_def)
qed simp

section \<open>Refinement of the loop\<close>

fun scan :: "(KeyValuePair \<Rightarrow> SyncStoreItem option) \<Rightarrow> int \<Rightarrow> KeyValuePair list \<Rightarrow> resolve_state \<Rightarrow>
    SyncStoreItem list + resolve_state" where
  "scan V limit [] r = Inr r"
| "scan V limit (kv # kvs) r =
     (let userKey = extractUserKey (kvKey kv);
          change = (userKey \<noteq> rsKey r \<and> rsKey r \<noteq> []);
          r = (if change then flushGroup r else r)
      in if change \<and> limit > 0 \<and> int (length (rsResult r)) \<ge> limit
         then Inl (take (nat limit) (rsResult r))
         else scan V limit kvs
           (r\<lparr>rsCursor := kvKey kv, rsKey := userKey, rsWinner := take_in (V kv) (rsWinner r)\<rparr>))"

definition scan_items :: "int \<Rightarrow> SyncStoreItem list + resolve_state \<Rightarrow> SyncStoreItem list" where
  "scan_items limit x = (case x of Inl items \<Rightarrow> items | Inr r \<Rightarrow> resolve_finish limit r)"

lemma flushGroup_fields [simp]:
  "rsKey (flushGroup r) = rsKey r" "rsWinner (flushGroup r) = None" "rsResult (flushGroup r) = rsResult r @ opt_list (rsWinner r)"
  by (auto simp: flushGroup_def split: option.split)

lemma scan_append:
  "scan V limit (xs @ ys) r = (case scan V limit xs r of Inl i \<Rightarrow> Inl i | Inr r' \<Rightarrow> scan V limit ys r')"
  by (induction xs arbitrary: r) (simp_all add: Let_def)

lemma scan_cursor: "scan V limit xs r = Inr r' \<Longrightarrow> xs \<noteq> [] \<Longrightarrow> rsCursor r' = kvKey (last xs)"
proof (induction xs arbitrary: r)
  case (Cons x xs)
  then show ?case by (cases "xs = []") (auto simp: Let_def split: if_splits)
qed simp

lemma limit_to_full: "0 < n \<Longrightarrow> n \<le> int (length xs) \<Longrightarrow> limit_to n (xs @ ys) = take (nat n) xs"
  by (simp add: limit_to_def le_nat_iff nat_le_iff)

lemma scan_winners:
  "scan_items limit (scan V limit kvs r) =
    limit_to limit (rsResult r @ winners (\<lambda>kv. extractUserKey (kvKey kv)) V (rsKey r) (rsWinner r) kvs)"
proof (induction kvs arbitrary: r)
  case Nil
  then show ?case by (auto simp: scan_items_def resolve_finish_def limit_to_def Let_def)
next
  case (Cons kv kvs)
  let ?u = "extractUserKey (kvKey kv)" and ?change = "extractUserKey (kvKey kv) \<noteq> rsKey r \<and> rsKey r \<noteq> []"
  show ?case
  proof (cases "?change \<and> limit > 0 \<and> int (length (rsResult (flushGroup r))) \<ge> limit")
    case True
    then have "scan V limit (kv # kvs) r = Inl (take (nat limit) (rsResult r @ opt_list (rsWinner r)))"
      by (simp add: Let_def)
    moreover have "limit_to limit ((rsResult r @ opt_list (rsWinner r)) @ ys) =
        take (nat limit) (rsResult r @ opt_list (rsWinner r))" for ys
      using True by (intro limit_to_full) auto
    ultimately show ?thesis using True by (simp add: scan_items_def)
  next
    case False
    then show ?thesis by (auto simp: Let_def Cons.IH)
  qed
qed

lemma keep_winner: "r\<lparr>rsWinner := rsWinner r\<rparr> = (r :: resolve_state)"
  by (cases r) simp

lemma update_winner:
  "(case rsWinner r of None \<Rightarrow> r\<lparr>rsWinner := Some it\<rparr>
    | Some w \<Rightarrow> if newer it w then r\<lparr>rsWinner := Some it\<rparr> else r) = (r :: resolve_state)\<lparr>rsWinner := better it (rsWinner r)\<rparr>"
  by (cases r) (simp split: option.split)

context kv_store
begin

lemma resolve_batch_spec:
  assumes "inv (store s)" and "decodable (abs (store s))"
  shows "\<exists>s'. resolve_batch S limit kvs r s =
    (Inr (scan (\<lambda>kv. live (abs (store s)) (kvValue kv)) limit kvs r), s') \<and> reads inv abs s s'"
  using assms
proof (induction kvs arbitrary: r s)
  case Nil
  then show ?case by (simp add: reads_refl)
next
  case (Cons kv kvs)
  let ?m = "abs (store s)" and ?V = "\<lambda>kv. live (abs (store s)) (kvValue kv)"
  let ?u = "extractUserKey (kvKey kv)" and ?change = "extractUserKey (kvKey kv) \<noteq> rsKey r \<and> rsKey r \<noteq> []"
  define r1 where "r1 = (if ?change then flushGroup (r\<lparr>rsCursor := kvKey kv\<rparr>) else r\<lparr>rsCursor := kvKey kv\<rparr>)\<lparr>rsKey := ?u\<rparr>"
  have r1: "r1 = (if ?change then flushGroup r else r)\<lparr>rsCursor := kvKey kv, rsKey := ?u\<rparr>"
    by (simp add: r1_def flushGroup_def split: option.split)
  obtain s1 where s1: "getValue S (kvValue kv) s = (view_result (?V kv), s1)" "reads inv abs s s1"
    using getValue_spec [OF Cons.prems] .
  have IH: "\<exists>s'. resolve_batch S limit kvs r' s1 = (Inr (scan ?V limit kvs r'), s') \<and> reads inv abs s s'" for r'
    using Cons.IH [of s1 r'] reads_inv [OF s1(2)] reads_abs [OF s1(2)] Cons.prems(2) reads_trans [OF s1(2)] by auto
  show ?case
  proof (cases "?change \<and> limit > 0 \<and> int (length (rsResult (flushGroup r))) \<ge> limit")
    case True
    then show ?thesis using Cons.prems(1) by (auto simp: Let_def reads_refl)
  next
    case False
    have "resolve_batch S limit (kv # kvs) r s = resolve_batch S limit kvs (r1\<lparr>rsWinner := take_in (?V kv) (rsWinner r1)\<rparr>) s1"
    proof (cases "?V kv")
      case None
      then have "resolve_batch S limit (kv # kvs) r s = resolve_batch S limit kvs r1 s1"
        using False s1(1) by (auto simp: Let_def r1_def)
      then show ?thesis using None by (simp add: keep_winner)
    next
      case (Some it)
      then have "resolve_batch S limit (kv # kvs) r s = resolve_batch S limit kvs
          (case rsWinner r1 of None \<Rightarrow> r1\<lparr>rsWinner := Some it\<rparr>
           | Some w \<Rightarrow> if newer it w then r1\<lparr>rsWinner := Some it\<rparr> else r1) s1"
        using False s1(1) by (auto simp: Let_def r1_def split: option.split)
      then show ?thesis using Some by (simp add: update_winner)
    qed
    moreover have "scan ?V limit (kv # kvs) r = scan ?V limit kvs (r1\<lparr>rsWinner := take_in (?V kv) (rsWinner r1)\<rparr>)"
      using False by (auto simp: Let_def r1)
    ultimately show ?thesis using IH by simp
  qed
qed

lemma resolve_loop_spec:
  assumes "inv (store s)" and "decodable (abs (store s))" and "P \<noteq> []"
    and "L = list_spec (abs (store s)) \<lparr>Prefix = P, StartAfter = rsCursor r, Limit = 0\<rparr>"
  shows "\<exists>s'. resolve_loop S P limit r s =
      Some (Inr (scan_items limit (scan (\<lambda>kv. live (abs (store s)) (kvValue kv)) limit L r)), s') \<and> reads inv abs s s'"
  using assms
proof (induction "length L" arbitrary: L r s rule: less_induct)
  case less
  let ?m = "abs (store s)" and ?V = "\<lambda>kv. live (abs (store s)) (kvValue kv)"
  let ?a = "\<lparr>Prefix = P, StartAfter = rsCursor r, Limit = 100\<rparr>"
  have fin: "finite (dom ?m)" using content_finite [OF less.prems(1)] .
  have L: "L = list_spec ?m (?a\<lparr>Limit := 0\<rparr>)" using less.prems(4) by simp
  have page: "list_spec ?m ?a = take 100 L"
    using list_spec_limited [of ?m ?a] L by (simp add: limit_to_def)
  define s1 where "s1 = s\<lparr>store := snd (sList S ?a (store s))\<rparr>"
  have c: "call (sList S ?a) s = (Inr (take 100 L), s1)"
    using less.prems(1) by (simp add: call_def store_simps s1_def page)
  have r1: "reads inv abs s s1" using less.prems(1) by (simp add: s1_def reads_def store_simps)
  have d1: "inv (store s1)" "abs (store s1) = ?m" using reads_inv [OF r1] reads_abs [OF r1] by auto
  show ?case
  proof (cases "L = []")
    case True
    then show ?thesis using c r1 by (subst resolve_loop.simps) (simp add: scan_items_def)
  next
    case False
    obtain s2 where b: "resolve_batch S limit (take 100 L) r s1 = (Inr (scan ?V limit (take 100 L) r), s2)" "reads inv abs s1 s2"
      using resolve_batch_spec [of s1 limit "take 100 L" r] d1 less.prems(2) by auto
    have r2: "reads inv abs s s2" using reads_trans [OF r1 b(2)] .
    have split: "scan ?V limit L r = (case scan ?V limit (take 100 L) r of Inl i \<Rightarrow> Inl i | Inr r' \<Rightarrow> scan ?V limit (drop 100 L) r')"
      using scan_append [of ?V limit "take 100 L" "drop 100 L" r] by simp
    show ?thesis
    proof (cases "scan ?V limit (take 100 L) r")
      case (Inl items)
      then show ?thesis using c b(1) r2 False split
        by (subst resolve_loop.simps) (simp add: scan_items_def)
    next
      case (Inr r')
      show ?thesis
      proof (cases "length L < 100")
        case True
        then show ?thesis using c b(1) r2 False split Inr
          by (subst resolve_loop.simps) (simp add: scan_items_def)
      next
        case long: False
        have cur: "rsCursor r' = kvKey (last (take 100 L))" using scan_cursor [OF Inr] False by simp
        have rest: "drop 100 L = list_spec (abs (store s2)) \<lparr>Prefix = P, StartAfter = rsCursor r', Limit = 0\<rparr>"
          using list_spec_next [OF fin, of ?a 100] L long less.prems(3) cur reads_abs [OF r2] by simp
        have "length (drop 100 L) < length L" using False by simp
        from less.hyps [OF this reads_inv [OF r2] _ less.prems(3) rest] obtain s3 where
          s3: "resolve_loop S P limit r' s2 = Some (Inr (scan_items limit (scan ?V limit (drop 100 L) r')), s3)" "reads inv abs s2 s3"
          using less.prems(2) reads_abs [OF r2] by auto
        have "resolve_loop S P limit r s = resolve_loop S P limit r' s2"
          using c b(1) False Inr long by (subst resolve_loop.simps) simp
        then show ?thesis using s3 split Inr reads_trans [OF r2 s3(2)] by simp
      qed
    qed
  qed
qed

end

section \<open>The scan of a well-formed content\<close>

definition listed_keys :: "(string \<rightharpoonup> string) \<Rightarrow> string \<Rightarrow> string \<Rightarrow> string set" where
  "listed_keys m pfx sa = {key. nul_free key \<and> prefix pfx key \<and> (sa = [] \<or> sa < key) \<and> view m key \<noteq> None}"

definition listing :: "(string \<rightharpoonup> string) \<Rightarrow> string \<Rightarrow> string \<Rightarrow> SyncStoreItem list" where
  "listing m pfx sa = map (\<lambda>key. the (view m key)) (sorted_list_of_set (listed_keys m pfx sa))"

definition no_empty_key :: "(string \<rightharpoonup> string) \<Rightarrow> bool" where
  "no_empty_key m \<longleftrightarrow> (\<forall>ts u. m (ViewEntryKey [] ts u) = None)"

definition base_args :: "string \<Rightarrow> string \<Rightarrow> ListArgs" where
  "base_args pfx sa = \<lparr>Prefix = viewPrefixBase @ pfx,
     StartAfter = (if sa \<noteq> [] then viewPrefixBase @ sa @ [CHR 0x01] else []), Limit = 0\<rparr>"

lemma prefix_nul_free: "nul_free pfx \<Longrightarrow> prefix pfx (key @ NUL # x) \<longleftrightarrow> prefix pfx key"
proof (induction pfx arbitrary: key)
  case (Cons c pfx)
  then show ?case by (cases key) (auto simp: nul_free_def)
qed simp

lemma in_base_range:
  assumes "nul_free pfx" and "nul_free sa" and "nul_free key"
  shows "in_range (base_args pfx sa) (ViewEntryKey key ts u) \<longleftrightarrow> prefix pfx key \<and> (sa = [] \<or> sa < key)"
proof -
  have "viewPrefixBase @ sa @ [CHR 0x01] < ViewEntryKey key ts u \<longleftrightarrow> sa < key"
    using after_key_cursor [OF assms(3,2)] by (simp add: ViewEntryKey_def)
  then show ?thesis
    using prefix_nul_free [OF assms(1)] by (simp add: in_range_def base_args_def ViewEntryKey_def)
qed

lemma view_entry_key:
  assumes "wf m" and "m k = Some u" and "prefix viewPrefixBase k"
  obtains key ts where "nul_free key" "k = ViewEntryKey key ts u" "extractUserKey k = key"
  using assms extractUserKey_entry unfolding wf_def wf_views_def by metis

lemma fold_take_in: "fold take_in (map V xs) w = fold better (List.map_filter V xs) w"
  by (induction xs arbitrary: w) (auto simp: List.map_filter_simps split: option.split)

lemma concat_opt_list: "concat (map (\<lambda>k. opt_list (f k)) ks) = map (\<lambda>k. the (f k)) (filter (\<lambda>k. f k \<noteq> None) ks)"
  by (induction ks) auto

lemma base_entry:
  assumes wf: "wf m" and pfx: "nul_free pfx" and sa: "nul_free sa"
    and "m k = Some u" and "in_range (base_args pfx sa) k"
  obtains key ts where "nul_free key" "k = ViewEntryKey key ts u" "extractUserKey k = key"
    "prefix pfx key" "sa = [] \<or> sa < key"
proof -
  have "prefix viewPrefixBase k" using assms(5) by (auto simp: in_range_def base_args_def prefix_def)
  then obtain key ts where k: "nul_free key" "k = ViewEntryKey key ts u" "extractUserKey k = key"
    using view_entry_key [OF wf assms(4)] by blast
  then show thesis using that assms(5) in_base_range [OF pfx sa k(1)] by blast
qed

lemma group_range:
  assumes wf: "wf m" and pfx: "nul_free pfx" and sa: "nul_free sa"
    and key: "nul_free key" "prefix pfx key" "sa = [] \<or> sa < key"
  shows "{k \<in> {k \<in> dom m. in_range (base_args pfx sa) k}. extractUserKey k = key} = {k \<in> dom m. in_range (view_args key) k}"
proof (intro equalityI subsetI)
  fix k assume "k \<in> {k \<in> {k \<in> dom m. in_range (base_args pfx sa) k}. extractUserKey k = key}"
  then obtain u where k: "m k = Some u" "in_range (base_args pfx sa) k" "extractUserKey k = key" by auto
  obtain ts where "k = ViewEntryKey key ts u" using base_entry [OF wf pfx sa k(1,2)] k(3) by metis
  then show "k \<in> {k \<in> dom m. in_range (view_args key) k}"
    using k(1) key(1) by (auto simp: in_range_def view_args_def ViewPrefix_entry)
next
  fix k assume "k \<in> {k \<in> dom m. in_range (view_args key) k}"
  then obtain u where k: "m k = Some u" "prefix (ViewPrefix key) k" by (auto simp: in_range_def view_args_def)
  obtain key' ts where k': "nul_free key'" "k = ViewEntryKey key' ts u" "extractUserKey k = key'"
    using view_entry_key [OF wf k(1) ViewPrefix_base [OF k(2)]] by blast
  then have "key' = key" using k(2) key(1) ViewPrefix_entry [OF key(1) k'(1)] by auto
  then show "k \<in> {k \<in> {k \<in> dom m. in_range (base_args pfx sa) k}. extractUserKey k = key}"
    using k k' key in_base_range [OF pfx sa k'(1)] by auto
qed

lemma scan_listing:
  assumes wf: "wf m" and pfx: "nul_free pfx" and sa: "nul_free sa" and ek: "no_empty_key m"
    and L_def: "L = list_spec m (base_args pfx sa)"
  shows "winners (\<lambda>kv. extractUserKey (kvKey kv)) (\<lambda>kv. live m (kvValue kv)) [] None L = listing m pfx sa"
proof -
  let ?U = "\<lambda>kv. extractUserKey (kvKey kv)" and ?V = "\<lambda>kv. live m (kvValue kv)"
  let ?R = "{k \<in> dom m. in_range (base_args pfx sa) k}"
  have fin: "finite (dom m)" using wf_finite [OF wf] .
  have entry: "m (kvKey kv) = Some (kvValue kv)" "in_range (base_args pfx sa) (kvKey kv)" if "kv \<in> set L" for kv
    using list_spec_entry [OF fin] that unfolding L_def by blast+
  note base = base_entry [OF wf pfx sa entry]
  have ne: "?U kv \<noteq> []" if kv: "kv \<in> set L" for kv
  proof
    assume "?U kv = []"
    then obtain ts where "kvKey kv = ViewEntryKey [] ts (kvValue kv)"
      by (metis base [OF kv kv])
    then show False using entry(1) [OF kv] ek by (simp add: no_empty_key_def)
  qed
  have sorted: "sorted (map ?U L)"
  proof -
    have le: "?U x \<le> ?U y" if xy: "x \<in> set L" "y \<in> set L" "kvKey x < kvKey y" for x y
    proof -
      obtain k ts where x: "nul_free k" "kvKey x = ViewEntryKey k ts (kvValue x)" "?U x = k"
        using base [OF xy(1) xy(1)] by blast
      obtain k' ts' where y: "nul_free k'" "kvKey y = ViewEntryKey k' ts' (kvValue y)" "?U y = k'"
        using base [OF xy(2) xy(2)] by blast
      have "\<not> k' < k"
        using ViewEntryKey_order [OF y(1) x(1), of ts' "kvValue y" ts "kvValue x"] x(2) y(2) xy(3) by auto
      then show ?thesis using x y by simp
    qed
    have "sorted_wrt (\<lambda>x y. kvKey x < kvKey y) L"
      using list_spec_sorted [of m "base_args pfx sa"] by (simp add: L_def sorted_wrt_map)
    then show ?thesis unfolding sorted_map by (rule sorted_wrt_mono_rel [rotated]) (rule le)
  qed
  have group: "group_best ?U ?V L key = view m key"
    if "nul_free key" "prefix pfx key" "sa = [] \<or> sa < key" for key
  proof -
    have "filter (\<lambda>kv. ?U kv = key) L = map (entry_at m) (filter (\<lambda>k. extractUserKey k = key) (sorted_list_of_set ?R))"
      by (simp add: L_def list_spec_def base_args_def filter_map comp_def entry_at_def)
    also have "\<dots> = list_spec m (view_args key)"
      using fin group_range [OF wf pfx sa that] by (simp add: filter_sorted_list_of_set list_spec_def view_args_def)
    finally show ?thesis
      by (simp add: group_best_def fold_take_in view_def best_def versions_def live_of_def)
  qed
  have keys: "nul_free key" "prefix pfx key" "sa = [] \<or> sa < key" if "key \<in> ?U ` set L" for key
  proof -
    from that obtain kv where kv: "kv \<in> set L" "?U kv = key" by blast
    obtain key' where "nul_free key'" "?U kv = key'" "prefix pfx key'" "sa = [] \<or> sa < key'"
      by (rule base [OF kv(1) kv(1)])
    then show "nul_free key" "prefix pfx key" "sa = [] \<or> sa < key" using kv(2) by simp_all
  qed
  have lk: "{key \<in> ?U ` set L. view m key \<noteq> None} = listed_keys m pfx sa"
  proof (intro equalityI subsetI)
    fix key assume "key \<in> {key \<in> ?U ` set L. view m key \<noteq> None}"
    then show "key \<in> listed_keys m pfx sa" using keys by (simp add: listed_keys_def)
  next
    fix key assume key: "key \<in> listed_keys m pfx sa"
    then have k: "nul_free key" "prefix pfx key" "sa = [] \<or> sa < key" "view m key \<noteq> None"
      by (auto simp: listed_keys_def)
    then have "group_best ?U ?V L key \<noteq> None" using group by simp
    then have "filter (\<lambda>kv. ?U kv = key) L \<noteq> []" by (auto simp: group_best_def)
    then have "key \<in> ?U ` set L" by (auto simp: filter_empty_conv)
    then show "key \<in> {key \<in> ?U ` set L. view m key \<noteq> None}" using k(4) by simp
  qed
  have "map (\<lambda>k. opt_list (group_best ?U ?V L k)) (sorted_list_of_set (?U ` set L))
      = map (\<lambda>k. opt_list (view m k)) (sorted_list_of_set (?U ` set L))"
    using keys group by (intro map_cong) auto
  then have "winners ?U ?V [] None L = concat (map (\<lambda>k. opt_list (view m k)) (sorted_list_of_set (?U ` set L)))"
    using winners_all [OF sorted ne, of ?V] by (simp only:)
  also have "\<dots> = listing m pfx sa"
    unfolding concat_opt_list listing_def by (simp only: filter_sorted_list_of_set finite_imageI finite_set lk)
  finally show ?thesis .
qed

section \<open>Properties\<close>

context kv_store
begin

lemma resolveView_spec:
  assumes "inv (store s)" and "wf (abs (store s))" and "no_empty_key (abs (store s))"
    and "nul_free pfx" and "nul_free sa"
  shows "\<exists>s'. resolveView S pfx sa limit s = Some (Inr (limit_to limit (listing (abs (store s)) pfx sa)), s')
    \<and> reads inv abs s s'"
proof -
  let ?r = "\<lparr>rsCursor = (if sa \<noteq> [] then viewPrefixBase @ sa @ [CHR 0x01] else []), rsResult = [], rsKey = [], rsWinner = None\<rparr>"
  obtain s' where "resolve_loop S (viewPrefixBase @ pfx) limit ?r s =
      Some (Inr (scan_items limit (scan (\<lambda>kv. live (abs (store s)) (kvValue kv)) limit
        (list_spec (abs (store s)) (base_args pfx sa)) ?r)), s')" "reads inv abs s s'"
    using resolve_loop_spec [OF assms(1) wf_decodable [OF assms(2)], of "viewPrefixBase @ pfx" _ ?r limit]
    by (auto simp: base_args_def viewPrefixBase_def)
  then show ?thesis
    using scan_winners [of limit _ "list_spec (abs (store s)) (base_args pfx sa)" ?r]
      scan_listing [OF assms(2,4,5,3) refl]
    by (simp add: resolveView_def)
qed

end



end
