(* ===== verification/Replication.thy ===== *)
theory Replication
  imports Engine
begin

text \<open>
  Applying what peers send: \<open>SyncIn\<close>.  An item is replicated up to its local
  \<open>WriteTimestamp\<close> (\<open>strip\<close>).  \<open>syncIn_items_view\<close> says that a delivery merges its
  items into the view by last-writer-wins; convergence, idempotence and independence of
  the order of delivery follow from the algebra of \<open>best\<close>.

  The items of a system form a universe \<open>U\<close> in which an ID determines its item
  (\<open>one_item_per_id\<close>); \<open>from_univ\<close> is the invariant that a replica holds items of \<open>U\<close> only.
\<close>

section \<open>Specification\<close>

definition strip :: "SyncStoreItem \<Rightarrow> SyncStoreItem" where
  "strip it = it\<lparr>WriteTimestamp := 0\<rparr>"

definition one_item_per_id :: "SyncStoreItem set \<Rightarrow> bool" where
  "one_item_per_id U \<longleftrightarrow> (\<forall>x \<in> U. \<forall>y \<in> U. ID x = ID y \<longrightarrow> strip x = strip y)"

definition good_items :: "SyncStoreItem set \<Rightarrow> bool" where
  "good_items U \<longleftrightarrow> one_item_per_id U \<and> (\<forall>x \<in> U. nul_free (Key x) \<and> valid_item x)"

definition from_univ :: "SyncStoreItem set \<Rightarrow> (string \<rightharpoonup> string) \<Rightarrow> bool" where
  "from_univ U m \<longleftrightarrow> (\<forall>u x. live m u = Some x \<longrightarrow> strip x \<in> strip ` U) \<and>
     (\<forall>key ts u. nul_free key \<longrightarrow> m (ViewEntryKey key ts u) \<noteq> None \<longrightarrow>
        (\<exists>y \<in> U. Key y = key \<and> Timestamp y = ts \<and> ID y = u))"

text \<open>A sequence of \<open>SyncIn\<close> calls, each with its peer.\<close>

fun deliver ::
  "'s Store \<Rightarrow> (string \<times> SyncPayload) list \<Rightarrow> ('s, 'x) StoreSync \<Rightarrow> (unit, ('s, 'x) StoreSync) outcome" where
  "deliver S [] s = (Inr (), s)"
| "deliver S ((peer, p) # ps) s =
     (case SyncIn S peer p s of (Inl e, s) \<Rightarrow> (Inl e, s) | (Inr _, s) \<Rightarrow> deliver S ps s)"

definition delivered :: "(string \<times> SyncPayload) list \<Rightarrow> SyncStoreItem list" where
  "delivered ps = concat (map (Items \<circ> snd) ps)"

section \<open>Items up to their write time\<close>

lemma strip_simps [simp]:
  "Key (strip it) = Key it" "ID (strip it) = ID it" "Timestamp (strip it) = Timestamp it"
  "Value (strip it) = Value it" "Deleted (strip it) = Deleted it"
  "strip (it\<lparr>WriteTimestamp := t\<rparr>) = strip it" "strip (strip it) = strip it"
  by (simp_all add: strip_def)

lemma newer_strip [simp]: "newer (strip a) (strip b) = newer a b"
  by (simp add: newer_def)

lemma strip_better: "map_option strip (better a w) = better (strip a) (map_option strip w)"
  by (cases w) simp_all

lemma strip_eq_fields:
  assumes "strip a = strip b"
  shows "Key a = Key b" "ID a = ID b" "Timestamp a = Timestamp b"
  using arg_cong [OF assms, of Key] arg_cong [OF assms, of ID] arg_cong [OF assms, of Timestamp] by simp_all

lemma id_ok_univ:
  assumes "good_items U" and "from_univ U m" and "wf m" and "it \<in> U"
  shows "id_ok m it"
proof -
  have one: "strip x = strip it" if "x \<in> U" "ID x = ID it" for x
    using assms(1,4) that unfolding good_items_def one_item_per_id_def by blast
  have "Key x = Key it \<and> Timestamp x = Timestamp it" if x: "live m (ID it) = Some x" for x
  proof -
    obtain y where y: "y \<in> U" "strip x = strip y" using assms(2) x unfolding from_univ_def by blast
    have "ID y = ID it" using strip_eq_fields(2) [OF y(2)] wf_live_ID [OF assms(3) x] by simp
    then show ?thesis using strip_eq_fields [of x it] one [OF y(1)] y(2) by simp
  qed
  moreover have "key = Key it \<and> ts = Timestamp it"
    if k: "nul_free key" "m (ViewEntryKey key ts (ID it)) \<noteq> None" for key ts
  proof -
    obtain y where y: "y \<in> U" "Key y = key" "Timestamp y = ts" "ID y = ID it"
      using assms(2) k unfolding from_univ_def by blast
    then show ?thesis using strip_eq_fields [OF one [OF y(1,4)]] by simp
  qed
  ultimately show ?thesis by (simp add: id_ok_def)
qed

lemma from_univ_puts:
  assumes "from_univ U m" and "it \<in> U" and "good_items U" and "in_i64 wt"
  shows "from_univ U (puts m (it\<lparr>WriteTimestamp := wt\<rparr>))"
proof -
  have it: "nul_free (Key it)" "valid_item (it\<lparr>WriteTimestamp := wt\<rparr>)"
    using assms(2-4) by (auto simp: good_items_def valid_item_def)
  have "strip x \<in> strip ` U" if "live (puts m (it\<lparr>WriteTimestamp := wt\<rparr>)) u = Some x" for u x
    using that assms(1,2) live_puts [OF it(2)] by (auto simp: from_univ_def split: if_splits)
  moreover have "\<exists>y \<in> U. Key y = key \<and> Timestamp y = ts \<and> ID y = u"
    if k: "nul_free key" "puts m (it\<lparr>WriteTimestamp := wt\<rparr>) (ViewEntryKey key ts u) \<noteq> None" for key ts u
  proof (cases "key = Key it \<and> ts = Timestamp it \<and> u = ID it")
    case True
    then show ?thesis using assms(2) by blast
  next
    case False
    then have "m (ViewEntryKey key ts u) \<noteq> None"
      using k puts_entry [of "it\<lparr>WriteTimestamp := wt\<rparr>" key] it(1) by auto
    then show ?thesis using assms(1) k(1) by (simp add: from_univ_def)
  qed
  ultimately show ?thesis by (simp add: from_univ_def)
qed

section \<open>One delivery\<close>

definition accepts_all :: "('s, 'x) StoreSync \<Rightarrow> bool" where
  "accepts_all s \<longleftrightarrow> syncInFilters s = [] \<and> preSetItems s = []"

definition merge_key :: "SyncStoreItem list \<Rightarrow> string \<Rightarrow> SyncStoreItem option \<Rightarrow> SyncStoreItem option" where
  "merge_key items key w = fold better (map strip (filter (\<lambda>it. Key it = key) items)) w"

definition stripped_view :: "(string \<rightharpoonup> string) \<Rightarrow> string \<Rightarrow> SyncStoreItem option" where
  "stripped_view m key = map_option strip (view m key)"

lemma merge_key_simps [simp]:
  "merge_key [] key w = w"
  "merge_key (it # items) key w = merge_key items key (if Key it = key then better (strip it) w else w)"
  "merge_key (xs @ ys) key w = merge_key ys key (merge_key xs key w)"
  by (simp_all add: merge_key_def)

context kv_store
begin

lemma setItem_univ:
  assumes "inv (store s)" and "wf (abs (store s))" and "accepts_all s"
    and "good_items U" and "from_univ U (abs (store s))" and "it \<in> U"
    and "setItem S it (Some notifyListeners) s = (r, s')" and "r = Inr () \<or> r = Inl ErrStaleWrite"
  shows "inv (store s')" "wf (abs (store s'))" "accepts_all s'" "from_univ U (abs (store s'))"
    "nul_free key \<Longrightarrow> stripped_view (abs (store s')) key = merge_key [it] key (stripped_view (abs (store s)) key)"
proof -
  let ?m = "abs (store s)"
  have pre: "preSetItems s = []" "benign (preSetItems s)" using assms(3) by (simp_all add: accepts_all_def)
  obtain r' m' where rm: "setItem_abs s it ?m = (r', m')" by fastforce
  note res = setItem_result [OF assms(1) wf_decodable [OF assms(2)] pre(2), of it]
  have r: "r' = r" and ev: "evolves inv abs m' s s'" using res(1,2) rm assms(7) by simp_all
  have m': "abs (store s') = m'" "inv (store s')" using evolves_store [OF ev] by simp_all
  have wr: "writable ?m it"
    using assms(4,6) id_ok_univ [OF assms(4,5,2,6)] by (simp add: writable_def good_items_def)
  note post = setItem_abs_merge [OF rm [unfolded r] assms(8,2) wr pre(2)]
  show "inv (store s')" using m' by simp
  show "wf (abs (store s'))" using post(1) m' by simp
  show "accepts_all s'" using evolves_config [OF ev] assms(3) by (simp add: accepts_all_def)
  have "m' = ?m \<or> m' = puts ?m (it\<lparr>WriteTimestamp := write_time s\<rparr>)"
    using rm r assms(8) written_no_hooks [OF pre(1)] by (auto elim!: setItem_abs_cases)
  then show "from_univ U (abs (store s'))"
    using m'(1) assms(5) from_univ_puts [OF assms(5,6,4) write_time_range [of s]] by auto
  show "stripped_view (abs (store s')) key = merge_key [it] key (stripped_view ?m key)" if "nul_free key"
    using post(2) [OF that] m'(1) written_no_hooks [OF pre(1), of it] by (simp add: stripped_view_def strip_better)
qed

lemma syncIn_items_view:
  assumes "inv (store s)" and "wf (abs (store s))" and "accepts_all s"
    and "good_items U" and "from_univ U (abs (store s))" and "set items \<subseteq> U"
    and "syncIn_items S peer items s = (Inr (), s')"
  shows "inv (store s') \<and> wf (abs (store s')) \<and> accepts_all s' \<and> from_univ U (abs (store s')) \<and>
    (\<forall>key. nul_free key \<longrightarrow> stripped_view (abs (store s')) key = merge_key items key (stripped_view (abs (store s)) key))"
  using assms
proof (induction items arbitrary: s)
  case Nil
  then show ?case by simp
next
  case (Cons it items)
  obtain r t where t: "setItem S it (Some notifyListeners) s = (r, t)" by fastforce
  have run: "run_in_filters (syncInFilters s) it peer (hookState s) = (True, hookState s)"
    using Cons.prems(3) by (simp add: accepts_all_def)
  have r: "r = Inr () \<or> r = Inl ErrStaleWrite" and rest: "syncIn_items S peer items t = (Inr (), s')"
  proof -
    have "r = Inr () \<or> errors_Is e ErrStaleWrite" if "r = Inl e" for e
      using Cons.prems(7) that t run by (auto split: if_splits)
    moreover have "r = fst (setItem_abs s it (abs (store s)))"
      using setItem_result(1) [OF Cons.prems(1) wf_decodable [OF Cons.prems(2)], of it] Cons.prems(3) t
      by (simp add: accepts_all_def)
    ultimately show r: "r = Inr () \<or> r = Inl ErrStaleWrite"
      by (auto simp: setItem_abs_def Let_def split: if_splits)
    show "syncIn_items S peer items t = (Inr (), s')"
      using Cons.prems(7) t run r by auto
  qed
  have "it \<in> U" "set items \<subseteq> U" using Cons.prems(6) by auto
  note step = setItem_univ [OF Cons.prems(1-5) this(1) t r]
  from Cons.IH [OF step(1-3) Cons.prems(4) step(4) \<open>set items \<subseteq> U\<close> rest] step(5)
  show ?case by simp
qed

lemma SyncIn_view:
  assumes "inv (store s)" and "wf (abs (store s))" and "accepts_all s"
    and "good_items U" and "from_univ U (abs (store s))" and "set (Items p) \<subseteq> U"
    and "SyncIn S peer p s = (Inr (), s')"
  shows "inv (store s') \<and> wf (abs (store s')) \<and> accepts_all s' \<and> from_univ U (abs (store s')) \<and>
    (\<forall>key. nul_free key \<longrightarrow> stripped_view (abs (store s')) key = merge_key (Items p) key (stripped_view (abs (store s)) key))"
  using assms(7) syncIn_items_view [OF assms(1-6)] by (auto simp: SyncIn_def split: if_splits)

lemma deliver_view:
  assumes "inv (store s)" and "wf (abs (store s))" and "accepts_all s"
    and "good_items U" and "from_univ U (abs (store s))" and "set (delivered ps) \<subseteq> U"
    and "deliver S ps s = (Inr (), s')"
  shows "inv (store s') \<and> wf (abs (store s')) \<and> accepts_all s' \<and> from_univ U (abs (store s')) \<and>
    (\<forall>key. nul_free key \<longrightarrow> stripped_view (abs (store s')) key = merge_key (delivered ps) key (stripped_view (abs (store s)) key))"
  using assms
proof (induction ps arbitrary: s)
  case Nil
  then show ?case by (simp add: delivered_def)
next
  case (Cons q ps)
  obtain peer p where q: "q = (peer, p)" by fastforce
  have "set (Items p) \<subseteq> U" "set (delivered ps) \<subseteq> U" using Cons.prems(6) by (auto simp: delivered_def q)
  moreover obtain t where t: "SyncIn S peer p s = (Inr (), t)" "deliver S ps t = (Inr (), s')"
    using Cons.prems(7) by (auto simp: q split: prod.splits sum.splits)
  ultimately have step: "inv (store t) \<and> wf (abs (store t)) \<and> accepts_all t \<and> from_univ U (abs (store t)) \<and>
    (\<forall>key. nul_free key \<longrightarrow> stripped_view (abs (store t)) key = merge_key (Items p) key (stripped_view (abs (store s)) key))"
    using SyncIn_view [OF Cons.prems(1-5) _ t(1)] by blast
  then have "inv (store s') \<and> wf (abs (store s')) \<and> accepts_all s' \<and> from_univ U (abs (store s')) \<and>
    (\<forall>key. nul_free key \<longrightarrow> stripped_view (abs (store s')) key = merge_key (delivered ps) key (stripped_view (abs (store t)) key))"
    using Cons.IH [of t] Cons.prems(4) \<open>set (delivered ps) \<subseteq> U\<close> t(2) by blast
  moreover have "delivered (q # ps) = Items p @ delivered ps" by (simp add: delivered_def q)
  ultimately show ?case using step by simp
qed

end

section \<open>Order and repetition do not matter\<close>

lemma merge_key_best:
  "merge_key xs key w = best ((case w of None \<Rightarrow> [] | Some x \<Rightarrow> [x]) @ map strip (filter (\<lambda>it. Key it = key) xs))"
  by (cases w) (simp_all add: merge_key_def best_def)

lemma set_key_items:
  "set (map strip (filter (\<lambda>it. Key it = key) xs)) = {z \<in> strip ` set xs. Key z = key}"
  by auto

lemma merge_key_cong:
  assumes "one_item_per_id U" and "set xs \<subseteq> U" and "set ys \<subseteq> U" and "strip ` set xs = strip ` set ys"
    and "\<And>x. w = Some x \<Longrightarrow> x \<in> strip ` U"
  shows "merge_key xs key w = merge_key ys key w"
  unfolding merge_key_best
proof (rule best_cong_set)
  let ?l = "case w of None \<Rightarrow> [] | Some x \<Rightarrow> [x]"
  show "set (?l @ map strip (filter (\<lambda>it. Key it = key) xs)) = set (?l @ map strip (filter (\<lambda>it. Key it = key) ys))"
    unfolding set_append set_key_items assms(4) ..
  have sub: "set (?l @ map strip (filter (\<lambda>it. Key it = key) xs)) \<subseteq> strip ` U"
    unfolding set_append set_key_items using assms(2,5) by (auto split: option.splits)
  fix x y assume "x \<in> set (?l @ map strip (filter (\<lambda>it. Key it = key) xs))"
    and "y \<in> set (?l @ map strip (filter (\<lambda>it. Key it = key) xs))" and id: "ID x = ID y"
  then obtain a b where ab: "x = strip a" "a \<in> U" "y = strip b" "b \<in> U" using sub by blast
  then have "ID a = ID b" using id by simp
  with ab assms(1) show "x = y" unfolding one_item_per_id_def by blast
qed

lemma stripped_view_univ:
  assumes "wf m" and "from_univ U m" and "nul_free key" and "stripped_view m key = Some x"
  shows "x \<in> strip ` U"
  using assms view_live(1) [OF assms(1,3)] unfolding stripped_view_def from_univ_def by auto

lemma visible_stripped:
  "visible m key = (case stripped_view m key of None \<Rightarrow> None | Some it \<Rightarrow> if Deleted it then None else Some (Value it))"
  by (simp add: visible_def stripped_view_def split: option.split)

section \<open>When a delivery is accepted\<close>

text \<open>
  The clock conditions under which no write is refused: two consecutive readings are never
  further apart than the time offset, and no item is dated beyond the permitted skew.
\<close>

definition steady :: "('s, 'x) StoreSync \<Rightarrow> bool" where
  "steady s \<longleftrightarrow> (\<forall>n. clock s (Suc n) \<le> i64 (clock s n + timeOffset s))"

definition dated :: "('s, 'x) StoreSync \<Rightarrow> SyncStoreItem \<Rightarrow> bool" where
  "dated s it \<longleftrightarrow> (\<forall>n. Timestamp it \<le> i64 (clock s n + timeOffset s + maxClockSkew s))"

lemma setItem_abs_accepts:
  "steady s \<Longrightarrow> dated s it \<Longrightarrow> fst (setItem_abs s it m) = Inr () \<or> fst (setItem_abs s it m) = Inl ErrStaleWrite"
  unfolding steady_def dated_def
  by (drule spec [of _ "Suc (ticks s)"], drule spec [of _ "ticks s"])
    (simp add: setItem_abs_def Let_def write_time_def not_less)

context kv_store
begin

lemma syncIn_items_accepts:
  assumes "inv (store s)" and "wf (abs (store s))" and "accepts_all s"
    and "good_items U" and "from_univ U (abs (store s))" and "set items \<subseteq> U"
    and "steady s" and "\<forall>it \<in> set items. dated s it"
  shows "\<exists>s'. syncIn_items S peer items s = (Inr (), s') \<and> steady s' \<and> (\<forall>it. dated s it \<longrightarrow> dated s' it)"
  using assms
proof (induction items arbitrary: s)
  case Nil
  then show ?case by simp
next
  case (Cons it items)
  obtain r t where t: "setItem S it (Some notifyListeners) s = (r, t)" by fastforce
  have b: "benign (preSetItems s)" and f: "syncInFilters s = []" using Cons.prems(3) by (simp_all add: accepts_all_def)
  note res = setItem_result [OF Cons.prems(1) wf_decodable [OF Cons.prems(2)] b, of it]
  have r: "r = Inr () \<or> r = Inl ErrStaleWrite"
    using res(1) t setItem_abs_accepts [OF Cons.prems(7), of it] Cons.prems(8) by simp
  have U: "it \<in> U" "set items \<subseteq> U" using Cons.prems(6) by auto
  note step = setItem_univ [OF Cons.prems(1-5) U(1) t r]
  have ev: "evolves inv abs (snd (setItem_abs s it (abs (store s)))) s t" using res(2) t by simp
  have "steady t" and d: "dated s i \<Longrightarrow> dated t i" for i
    using Cons.prems(7) evolves_config [OF ev] by (simp_all add: steady_def dated_def)
  then obtain s' where s': "syncIn_items S peer items t = (Inr (), s')" "steady s'" "\<forall>it. dated t it \<longrightarrow> dated s' it"
    using Cons.IH [OF step(1-3) Cons.prems(4) step(4) U(2)] Cons.prems(8) by auto
  moreover have "syncIn_items S peer (it # items) s = syncIn_items S peer items t"
    using t r f by auto
  ultimately show ?case using d by auto
qed

lemma deliver_accepts:
  assumes "inv (store s)" and "wf (abs (store s))" and "accepts_all s"
    and "good_items U" and "from_univ U (abs (store s))" and "set (delivered ps) \<subseteq> U"
    and "steady s" and "\<forall>it \<in> set (delivered ps). dated s it"
    and "\<forall>(peer, p) \<in> set ps. length (Items p) \<le> MaxSyncInItems"
  shows "\<exists>s'. deliver S ps s = (Inr (), s')"
  using assms
proof (induction ps arbitrary: s)
  case Nil
  then show ?case by simp
next
  case (Cons q ps)
  obtain peer p where q: "q = (peer, p)" by fastforce
  have U: "set (Items p) \<subseteq> U" "set (delivered ps) \<subseteq> U" using Cons.prems(6) by (auto simp: delivered_def q)
  have d: "\<forall>it \<in> set (Items p). dated s it" "\<forall>it \<in> set (delivered ps). dated s it"
    using Cons.prems(8) by (auto simp: delivered_def q)
  obtain t where t: "syncIn_items S peer (Items p) s = (Inr (), t)" "steady t" "\<forall>it. dated s it \<longrightarrow> dated t it"
    using syncIn_items_accepts [OF Cons.prems(1-5) U(1) Cons.prems(7) d(1)] by blast
  have step: "inv (store t)" "wf (abs (store t))" "accepts_all t" "from_univ U (abs (store t))"
    using syncIn_items_view [OF Cons.prems(1-5) U(1) t(1)] by blast+
  have "SyncIn S peer p s = (Inr (), t)" using t(1) Cons.prems(9) by (simp add: q SyncIn_def)
  then show ?case
    using Cons.IH [OF step(1-3) Cons.prems(4) step(4) U(2) t(2)] t(3) d(2) Cons.prems(9) by (simp add: q)
qed

end

section \<open>Properties\<close>

text \<open>C2. Convergence: two replicas, possibly on different backends, that show the same
  data and then take in the same set of items, split into whatever payloads, in whatever
  order and with whatever repetitions, show the same version of every key afterwards, and
  \<open>Get\<close> answers the same on both.  An item ID is assumed to name one item.\<close>

theorem replicas_converge:
  assumes "kv_store S I A" and "I (store s)" and "wf (A (store s))" and "accepts_all s" and "from_univ U (A (store s))"
    and "kv_store S' I' A'" and "I' (store t)" and "wf (A' (store t))" and "accepts_all t" and "from_univ U (A' (store t))"
    and "good_items U" and "set (delivered ps) \<subseteq> U" and "set (delivered qs) \<subseteq> U"
    and "strip ` set (delivered ps) = strip ` set (delivered qs)"
    and "nul_free key" and "stripped_view (A (store s)) key = stripped_view (A' (store t)) key"
    and "deliver S ps s = (Inr (), s')" and "deliver S' qs t = (Inr (), t')"
  shows "stripped_view (A (store s')) key = stripped_view (A' (store t')) key \<and>
    fst (GetSync S key s') = fst (GetSync S' key t')"
proof -
  note d1 = kv_store.deliver_view [OF assms(1,2,3,4,11,5,12,17)]
  note d2 = kv_store.deliver_view [OF assms(6,7,8,9,11,10,13,18)]
  have "merge_key (delivered ps) key (stripped_view (A (store s)) key)
      = merge_key (delivered qs) key (stripped_view (A (store s)) key)"
    using assms(11-14) stripped_view_univ [OF assms(3,5,15)] unfolding good_items_def
    by (intro merge_key_cong) auto
  then have v: "stripped_view (A (store s')) key = stripped_view (A' (store t')) key"
    using d1 d2 assms(15,16) by simp
  have "fst (GetSync S key s') = get_result_of (visible (A (store s')) key)"
    "fst (GetSync S' key t') = get_result_of (visible (A' (store t')) key)"
    using kv_store.GetSync_spec(1) [OF assms(1), of s'] kv_store.GetSync_spec(1) [OF assms(6), of t'] d1 d2
      wf_decodable by auto
  then show ?thesis using v by (simp add: visible_stripped)
qed

definition demoUniv :: "SyncStoreItem set" where
  "demoUniv = {demoItem, laterItem}"

lemma demoUniv_good: "good_items demoUniv"
  by (auto simp: good_items_def one_item_per_id_def demoUniv_def nul_free_def valid_item_def in_i64_def
      utf8_valid_ascii laterItem_def)

lemma blank_accepts:
  "accepts_all blank" "steady blank" "it \<in> demoUniv \<Longrightarrow> dated blank it" "from_univ U (mem_abs (store blank))"
proof -
  show "accepts_all blank" by (simp add: accepts_all_def)
  have r: "in_i64 (1700000000000000001 + int (min n 1000) + d)" if "0 \<le> d" "d \<le> 310000000000" for n d
    using that by (simp add: in_i64_def min_def)
  show "steady blank" using r [of 10000000000] by (simp add: steady_def min_def)
  show "dated blank it" if "it \<in> demoUniv"
    using that r [of 310000000000] by (auto simp: dated_def demoUniv_def add.assoc)
  show "from_univ U (mem_abs (store blank))" by (simp add: from_univ_def blank_store live_def)
qed

theorem replicas_converge_witness:
  "\<exists>s' t'. deliver memStore [(''p'', \<lparr>Items = [demoItem, laterItem], LastSyncTimestamp = 0\<rparr>)] blank = (Inr (), s') \<and>
     deliver memStore [(''q'', \<lparr>Items = [laterItem], LastSyncTimestamp = 0\<rparr>),
       (''p'', \<lparr>Items = [laterItem, demoItem], LastSyncTimestamp = 0\<rparr>)] blank = (Inr (), t') \<and>
     fst (GetSync memStore ''k'' s') = fst (GetSync memStore ''k'' t')"
proof -
  let ?ps = "[(''p'', \<lparr>Items = [demoItem, laterItem], LastSyncTimestamp = 0\<rparr>)]"
  let ?qs = "[(''q'', \<lparr>Items = [laterItem], LastSyncTimestamp = 0\<rparr>),
    (''p'', \<lparr>Items = [laterItem, demoItem], LastSyncTimestamp = 0\<rparr>)]"
  have U: "set (delivered ?ps) \<subseteq> demoUniv" "set (delivered ?qs) \<subseteq> demoUniv"
    by (simp_all add: delivered_def demoUniv_def)
  have b: "mem_inv (store blank)" "wf (mem_abs (store blank))" by (simp_all add: blank_store)
  note acc = mem.deliver_accepts [OF b blank_accepts(1) demoUniv_good blank_accepts(4)]
  obtain s' where s': "deliver memStore ?ps blank = (Inr (), s')"
    using acc [OF U(1) blank_accepts(2)] U(1) blank_accepts(3) by (auto simp: MaxSyncInItems_def)
  obtain t' where t': "deliver memStore ?qs blank = (Inr (), t')"
    using acc [OF U(2) blank_accepts(2)] U(2) blank_accepts(3) by (auto simp: MaxSyncInItems_def)
  have "fst (GetSync memStore ''k'' s') = fst (GetSync memStore ''k'' t')"
    using replicas_converge [OF mem.kv_store_axioms b blank_accepts(1,4) mem.kv_store_axioms b blank_accepts(1,4)
        demoUniv_good U _ _ _ s' t', of "''k''"] by (simp add: nul_free_def delivered_def insert_commute)
  with s' t' show ?thesis by blast
qed

text \<open>A delivery is accepted: \<open>SyncIn\<close> of at most \<open>MaxSyncInItems\<close> items none of which
  is dated beyond the permitted clock skew returns success, on a clock whose readings are
  never further apart than the time offset; and the view of every key is then the merge of
  its old version with the delivered ones.\<close>

theorem SyncIn_accepts:
  assumes "kv_store S I A" and "I (store s)" and "wf (A (store s))" and "accepts_all s"
    and "good_items U" and "from_univ U (A (store s))" and "set (Items p) \<subseteq> U"
    and "steady s" and "\<forall>it \<in> set (Items p). dated s it" and "length (Items p) \<le> MaxSyncInItems"
  shows "\<exists>s'. SyncIn S peer p s = (Inr (), s') \<and> wf (A (store s')) \<and>
    (\<forall>key. nul_free key \<longrightarrow>
      stripped_view (A (store s')) key = merge_key (Items p) key (stripped_view (A (store s)) key))"
proof -
  obtain t where "syncIn_items S peer (Items p) s = (Inr (), t)"
    using kv_store.syncIn_items_accepts [OF assms(1-9)] by blast
  then have "SyncIn S peer p s = (Inr (), t)" using assms(10) by (simp add: SyncIn_def)
  then show ?thesis using kv_store.SyncIn_view [OF assms(1-7)] by blast
qed

theorem SyncIn_accepts_witness:
  "\<exists>s'. SyncIn memStore ''p'' \<lparr>Items = [laterItem, demoItem], LastSyncTimestamp = 0\<rparr> blank = (Inr (), s') \<and>
     stripped_view (mem_abs (store s')) ''k'' = Some (strip laterItem)"
proof -
  have "\<exists>s'. SyncIn memStore ''p'' \<lparr>Items = [laterItem, demoItem], LastSyncTimestamp = 0\<rparr> blank = (Inr (), s') \<and>
      wf (mem_abs (store s')) \<and> (\<forall>key. nul_free key \<longrightarrow> stripped_view (mem_abs (store s')) key =
        merge_key [laterItem, demoItem] key (stripped_view (mem_abs (store blank)) key))"
    using SyncIn_accepts [OF mem.kv_store_axioms _ _ blank_accepts(1) demoUniv_good blank_accepts(4) _ blank_accepts(2),
        of "\<lparr>Items = [laterItem, demoItem], LastSyncTimestamp = 0\<rparr>" "''p''"] blank_accepts(3)
    by (simp add: blank_store demoUniv_def MaxSyncInItems_def)
  moreover have "merge_key [laterItem, demoItem] ''k'' (stripped_view (mem_abs (store blank)) ''k'') = Some (strip laterItem)"
    by (simp add: stripped_view_def blank_store newer_def)
  ultimately show ?thesis by (auto simp: nul_free_def)
qed

text \<open>An oversized payload is refused as a whole: with more than \<open>MaxSyncInItems\<close> items
  \<open>SyncIn\<close> returns an error and the engine, its store included, is untouched.\<close>

theorem SyncIn_oversize:
  assumes "length (Items p) > MaxSyncInItems"
  shows "snd (SyncIn S peer p s) = s \<and> (\<exists>e. fst (SyncIn S peer p s) = Inl e)"
  using assms by (simp add: SyncIn_def)

theorem SyncIn_oversize_witness:
  "\<exists>e. fst (SyncIn memStore ''p'' \<lparr>Items = replicate 5001 demoItem, LastSyncTimestamp = 0\<rparr> blank) = Inl e"
  using SyncIn_oversize [of "\<lparr>Items = replicate 5001 demoItem, LastSyncTimestamp = 0\<rparr>" memStore "''p''" blank]
  by (simp add: MaxSyncInItems_def)

end
