(* ===== verification/Outbound.thy ===== *)
theory Outbound
  imports Replication
begin

text \<open>
  What the engine sends: \<open>SyncOut\<close>, \<open>AckSyncOut\<close> and \<open>Sync\<close>.  A payload is a window of
  the queue after the peer's cursor.  \<open>queue_ok\<close> is the invariant of the queue: an entry
  names the write time, the ID and the key of its item, and write times are 19-digit
  nanosecond times, on which the byte order of the keys is the order in time.

  \<open>syncOut_spec\<close> computes the payload from the content; the properties are about what the
  cursor of the payload promises.
\<close>

section \<open>Specification\<close>

definition queue_ok :: "(string \<rightharpoonup> string) \<Rightarrow> bool" where
  "queue_ok m \<longleftrightarrow> (\<forall>k u. m k = Some u \<longrightarrow> prefix (QueueKey []) k \<longrightarrow>
     (\<exists>wt key. k = QueueKey (QueueID wt u key) \<and> nano19 wt \<and>
       (\<forall>it. live m u = Some it \<longrightarrow> WriteTimestamp it = wt \<and> Key it = key)))"

definition queued :: "(string \<rightharpoonup> string) \<Rightarrow> SyncStoreItem \<Rightarrow> bool" where
  "queued m it \<longleftrightarrow> live m (ID it) = Some it \<and>
     m (QueueKey (QueueID (WriteTimestamp it) (ID it) (Key it))) = Some (ID it)"

definition cursor_ok :: "int \<Rightarrow> bool" where
  "cursor_ok c \<longleftrightarrow> c = 0 \<or> nano19 c"

definition cursor_of :: "(string \<rightharpoonup> string) \<Rightarrow> string \<Rightarrow> int" where
  "cursor_of m peer = (case m (LastSyncOutKey peer) of None \<Rightarrow> 0
     | Some raw \<Rightarrow> (case unmarshal_int64 raw of None \<Rightarrow> 0 | Some c \<Rightarrow> c))"

definition cursor_wf :: "(string \<rightharpoonup> string) \<Rightarrow> string \<Rightarrow> bool" where
  "cursor_wf m peer \<longleftrightarrow> (\<forall>raw. m (LastSyncOutKey peer) = Some raw \<longrightarrow> unmarshal_int64 raw \<noteq> None) \<and>
     cursor_ok (cursor_of m peer)"

definition queue_args :: "int \<Rightarrow> int \<Rightarrow> ListArgs" where
  "queue_args c limit = \<lparr>Prefix = QueueKey [], StartAfter = QueueKey (itoa c @ ''~''), Limit = limit\<rparr>"

definition window :: "(string \<rightharpoonup> string) \<Rightarrow> int \<Rightarrow> int \<Rightarrow> SyncStoreItem list" where
  "window m c limit = live_of m (list_spec m (queue_args c limit))"

definition advance :: "int \<Rightarrow> SyncStoreItem \<Rightarrow> int \<Rightarrow> int" where
  "advance now it c = (if WriteTimestamp it > c \<and> WriteTimestamp it \<le> now then WriteTimestamp it else c)"

definition payload_of :: "('s, 'x) StoreSync \<Rightarrow> (string \<rightharpoonup> string) \<Rightarrow> int \<Rightarrow> int \<Rightarrow> string \<Rightarrow> SyncPayload" where
  "payload_of s m c limit peer =
     \<lparr>Items = filter (\<lambda>it. passes_out (syncOutFilters s) it peer (hookState s)) (window m c limit),
      LastSyncTimestamp = fold (advance (clock s (ticks s))) (window m c limit) c\<rparr>"

definition effective_limit :: "int \<Rightarrow> int" where
  "effective_limit limit = (if limit \<le> 0 \<or> limit > MaxSyncOutLimit then MaxSyncOutLimit else limit)"

section \<open>Refinement\<close>

context kv_store
begin

lemma syncOut_loop_spec:
  assumes "inv (store s)" and "decodable (abs (store s))"
  shows "\<exists>s'. syncOut_loop S now peer kvs items c s =
      (Inr \<lparr>Items = items @ filter (\<lambda>it. passes_out (syncOutFilters s) it peer (hookState s)) (live_of (abs (store s)) kvs),
            LastSyncTimestamp = fold (advance now) (live_of (abs (store s)) kvs) c\<rparr>, s') \<and> reads inv abs s s'"
  using assms
proof (induction kvs arbitrary: items c s)
  case Nil
  then show ?case by (simp add: live_of_def List.map_filter_simps reads_refl)
next
  case (Cons kv kvs)
  let ?m = "abs (store s)" and ?P = "\<lambda>it. passes_out (syncOutFilters s) it peer (hookState s)"
  obtain s1 where s1: "getValue S (kvValue kv) s = (view_result (live ?m (kvValue kv)), s1)" "reads inv abs s s1"
    using getValue_spec [OF Cons.prems] .
  have IH: "\<exists>s'. syncOut_loop S now peer kvs xs c' s1 =
      (Inr \<lparr>Items = xs @ filter ?P (live_of ?m kvs), LastSyncTimestamp = fold (advance now) (live_of ?m kvs) c'\<rparr>, s')
      \<and> reads inv abs s s'" for xs c'
    using Cons.IH [of s1 xs c'] reads_inv [OF s1(2)] reads_abs [OF s1(2)] reads_fields [OF s1(2)] Cons.prems(2)
      reads_trans [OF s1(2)] by auto
  show ?case
  proof (cases "live ?m (kvValue kv)")
    case None
    then show ?thesis using IH [of items c] s1(1) by (simp add: live_of_def List.map_filter_simps)
  next
    case (Some it)
    then show ?thesis
      using IH [of "items @ [it]" "advance now it c"] IH [of items "advance now it c"] s1(1) reads_fields [OF s1(2)]
      by (simp add: live_of_def List.map_filter_simps Let_def flip: advance_def)
  qed
qed

lemma syncOut_spec:
  assumes "inv (store s)" and "decodable (abs (store s))"
  obtains s' where "syncOut S c limit peer s = (Inr (payload_of s (abs (store s)) c limit peer), s')"
    "evolves inv abs (abs (store s)) s s'" "hookState s' = hookState s"
proof -
  define s1 where "s1 = s\<lparr>ticks := Suc (ticks s), store := snd (sList S (queue_args c limit) (store s))\<rparr>"
  let ?kvs = "list_spec (abs (store s)) (queue_args c limit)"
  have s1: "inv (store s1)" "abs (store s1) = abs (store s)" "evolves inv abs (abs (store s)) s s1"
    using assms(1) by (simp_all add: s1_def store_simps evolves_def)
  have c: "call (sList S (queue_args c limit)) (s\<lparr>ticks := Suc (ticks s)\<rparr>) = (Inr ?kvs, s1)"
    using assms(1) by (simp add: call_def store_simps s1_def)
  obtain s2 where l: "syncOut_loop S (clock s (ticks s)) peer ?kvs [] c s1 =
      (Inr (payload_of s (abs (store s)) c limit peer), s2)" "reads inv abs s1 s2"
    using syncOut_loop_spec [of s1 "clock s (ticks s)" peer ?kvs "[]" c] s1 assms(2)
    by (auto simp: payload_of_def window_def s1_def)
  have "syncOut S c limit peer s = (Inr (payload_of s (abs (store s)) c limit peer), s2)"
    using c l(1) by (simp add: syncOut_def time_now_def queue_args_def)
  moreover have "evolves inv abs (abs (store s)) s s2"
    using evolves_trans [OF s1(3) reads_evolves [OF l(2)]] s1(2) by simp
  moreover have "hookState s2 = hookState s" using reads_fields(11) [OF l(2)] by (simp add: s1_def)
  ultimately show thesis using that by blast
qed

lemma SyncOut_spec:
  assumes "inv (store s)" and "decodable (abs (store s))" and "cursor_wf (abs (store s)) peer"
  obtains s' where "SyncOut S peer limit s =
      (Inr (payload_of s (abs (store s)) (cursor_of (abs (store s)) peer) (effective_limit limit) peer), s')"
    "evolves inv abs (abs (store s)) s s'" "hookState s' = hookState s"
proof -
  let ?m = "abs (store s)" and ?c = "cursor_of (abs (store s)) peer"
  define s1 where "s1 = s\<lparr>store := snd (sGet S (LastSyncOutKey peer) (store s))\<rparr>"
  have s1: "inv (store s1)" "abs (store s1) = ?m" "evolves inv abs ?m s s1" "hookState s1 = hookState s"
    using assms(1) by (simp_all add: s1_def store_simps evolves_def)
  have p: "payload_of s1 = payload_of s" by (simp add: fun_eq_iff payload_of_def s1_def)
  obtain s2 where s2: "syncOut S ?c (effective_limit limit) peer s1 =
      (Inr (payload_of s ?m ?c (effective_limit limit) peer), s2)" "evolves inv abs ?m s1 s2" "hookState s2 = hookState s1"
    using syncOut_spec [of s1 ?c "effective_limit limit" peer] s1 assms(2) p by auto
  have "call (sGet S (LastSyncOutKey peer)) s =
      (case ?m (LastSyncOutKey peer) of None \<Rightarrow> Inl ErrNotFound | Some v \<Rightarrow> Inr v, s1)"
    using assms(1) by (simp add: call_def store_simps s1_def)
  then have "SyncOut S peer limit s = syncOut S ?c (effective_limit limit) peer s1"
    using assms(3)
    by (cases "?m (LastSyncOutKey peer)") (auto simp: SyncOut_def effective_limit_def cursor_of_def cursor_wf_def)
  then show thesis using that [of s2] s2 s1(4) evolves_trans [OF s1(3) s2(2)] by simp
qed

end

section \<open>The window and the cursor\<close>

lemma fold_advance:
  "c \<le> fold (advance now) xs c \<and>
   (fold (advance now) xs c = c \<or> (\<exists>x \<in> set xs. WriteTimestamp x = fold (advance now) xs c \<and> fold (advance now) xs c \<le> now)) \<and>
   (\<forall>x \<in> set xs. WriteTimestamp x \<le> now \<longrightarrow> WriteTimestamp x \<le> fold (advance now) xs c)"
proof (induction xs arbitrary: c)
  case Nil
  then show ?case by simp
next
  case (Cons x xs)
  have a: "c \<le> advance now x c" "advance now x c = c \<or> advance now x c = WriteTimestamp x \<and> advance now x c \<le> now"
    "WriteTimestamp x \<le> now \<Longrightarrow> WriteTimestamp x \<le> advance now x c"
    by (auto simp: advance_def)
  from Cons.IH [of "advance now x c"] a show ?case by (simp, smt (verit))
qed

lemma take_sorted_less:
  assumes "sorted_wrt (<) (xs :: 'a :: linorder list)" and "x \<in> set xs" and "x \<notin> set (take n xs)" and "y \<in> set (take n xs)"
  shows "y < x"
proof -
  have "x \<in> set (drop n xs)" using assms(2,3) by (metis Un_iff append_take_drop_id set_append)
  moreover have "sorted_wrt (<) (take n xs @ drop n xs)" using assms(1) by simp
  ultimately show ?thesis using assms(4) unfolding sorted_wrt_append by blast
qed

lemma in_range_queue:
  assumes "nano19 wt" and "cursor_ok c"
  shows "in_range (queue_args c limit) (QueueKey (QueueID wt u key)) \<longleftrightarrow> c < wt"
  using assms queue_zero_cursor [OF assms(1)] queue_cursor_order [OF assms(1)]
  by (auto simp: in_range_def queue_args_def cursor_ok_def key_simps nano19_def QueueKey_def)

lemma window_queued:
  assumes "wf m" and "queue_ok m" and "cursor_ok c" and "it \<in> set (window m c limit)"
  shows "queued m it" and "c < WriteTimestamp it" and "nano19 (WriteTimestamp it)"
    and "QueueKey (QueueID (WriteTimestamp it) (ID it) (Key it)) \<in> kvKey ` set (list_spec m (queue_args c limit))"
proof -
  obtain kv where kv: "kv \<in> set (list_spec m (queue_args c limit))" "live m (kvValue kv) = Some it"
    using assms(4) by (auto simp: window_def set_live_of)
  have e: "m (kvKey kv) = Some (kvValue kv)" "in_range (queue_args c limit) (kvKey kv)"
    using list_spec_entry [OF wf_finite [OF assms(1)] kv(1)] by auto
  have "prefix (QueueKey []) (kvKey kv)" using e(2) by (simp add: in_range_def queue_args_def)
  then obtain wt key where k: "kvKey kv = QueueKey (QueueID wt (kvValue kv) key)" "nano19 wt"
      "WriteTimestamp it = wt" "Key it = key"
    using assms(2) e(1) kv(2) unfolding queue_ok_def by blast
  have "ID it = kvValue kv" using wf_live_ID [OF assms(1) kv(2)] .
  then show "queued m it" and "c < WriteTimestamp it" and "nano19 (WriteTimestamp it)"
    and "QueueKey (QueueID (WriteTimestamp it) (ID it) (Key it)) \<in> kvKey ` set (list_spec m (queue_args c limit))"
    using e k kv in_range_queue [OF k(2) assms(3)]
    by (auto simp: queued_def intro!: image_eqI [of _ kvKey kv])
qed

lemma queued_in_list:
  assumes "finite (dom m)" and "queued m it"
    and "QueueKey (QueueID (WriteTimestamp it) (ID it) (Key it)) \<in> set (limit_to limit (sorted_list_of_set {k \<in> dom m. in_range (queue_args c limit) k}))"
  shows "it \<in> set (window m c limit)"
proof -
  let ?k = "QueueKey (QueueID (WriteTimestamp it) (ID it) (Key it))"
  have "entry_at m ?k \<in> set (list_spec m (queue_args c limit))"
    using assms(3) by (simp add: list_spec_def limit_to_map queue_args_def)
  moreover have "kvValue (entry_at m ?k) = ID it" using assms(2) by (simp add: entry_at_def queued_def)
  ultimately show ?thesis using assms(2)
    by (auto simp: window_def set_live_of queued_def intro!: bexI [of _ "entry_at m ?k"])
qed

lemma cursor_covers:
  assumes "wf m" and "queue_ok m" and "cursor_ok c" and "queued m it" and "c < WriteTimestamp it"
    and "WriteTimestamp it \<le> fold (advance now) (window m c limit) c"
    and "\<And>x. queued m x \<Longrightarrow> WriteTimestamp x = WriteTimestamp it \<Longrightarrow>
      WriteTimestamp it = fold (advance now) (window m c limit) c \<Longrightarrow> x = it"
  shows "it \<in> set (window m c limit)"
proof (rule ccontr)
  assume out: "it \<notin> set (window m c limit)"
  let ?c = "fold (advance now) (window m c limit) c"
  let ?key = "\<lambda>it. QueueKey (QueueID (WriteTimestamp it) (ID it) (Key it))"
  let ?xs = "sorted_list_of_set {k \<in> dom m. in_range (queue_args c limit) k}"
  have fin: "finite (dom m)" using wf_finite [OF assms(1)] .
  obtain x where x: "x \<in> set (window m c limit)" "WriteTimestamp x = ?c"
    using fold_advance [of c now "window m c limit"] assms(5,6) by fastforce
  note wx = window_queued [OF assms(1-3) x(1)]
  have nano: "nano19 (WriteTimestamp it)"
  proof -
    have "prefix (QueueKey []) (?key it)" by (simp add: key_simps)
    then show ?thesis using assms(2,4) unfolding queue_ok_def queued_def by blast
  qed
  have mem: "?key it \<in> set ?xs"
    using assms(4,5) fin in_range_queue [OF nano assms(3)] by (auto simp: queued_def)
  have notin: "?key it \<notin> set (limit_to limit ?xs)" using queued_in_list [OF fin assms(4)] out by blast
  have lx: "?key x \<in> set (limit_to limit ?xs)"
    using wx(4) list_spec_keys [of m "queue_args c limit"] by (simp add: queue_args_def flip: set_map)
  have "?key x < ?key it"
    using take_sorted_less [of ?xs "?key it" "nat limit" "?key x"] mem notin lx strict_sorted_list_of_set
    by (auto simp: limit_to_def split: if_splits)
  then have "\<not> WriteTimestamp it < WriteTimestamp x"
    using queue_time_order [OF nano wx(3), of "ID it" "Key it" "ID x" "Key x"] by auto
  then have "WriteTimestamp x = WriteTimestamp it" "WriteTimestamp it = ?c" using x(2) assms(6) by auto
  then show False using assms(7) [OF wx(1)] x(1) out by simp
qed

lemma length_live_of: "length (live_of m kvs) \<le> length kvs"
  unfolding live_of_def by (induction kvs) (auto simp: List.map_filter_simps split: option.splits)

lemma effective_limit_range: "0 < effective_limit l" "effective_limit l \<le> MaxSyncOutLimit"
  by (simp_all add: effective_limit_def MaxSyncOutLimit_def)

lemma length_window: "int (length (window m c (effective_limit l))) \<le> effective_limit l"
proof -
  have "int (length (list_spec m (queue_args c (effective_limit l)))) \<le> effective_limit l"
    using effective_limit_range(1) [of l] by (simp add: list_spec_def queue_args_def length_limit_to)
  then show ?thesis using length_live_of [of m "list_spec m (queue_args c (effective_limit l))"]
    unfolding window_def by linarith
qed

section \<open>Acknowledgement, and what a sync leaves alone\<close>

context kv_store
begin

lemma AckSyncOut_spec:
  assumes "inv (store s)" and "postSyncOuts s = []"
  shows "fst (AckSyncOut S peer p s) = Inr ()"
    and "evolves inv abs ((abs (store s))(LastSyncOutKey peer \<mapsto> marshal_int64 (LastSyncTimestamp p))) s
      (snd (AckSyncOut S peer p s))"
  using assms by (simp_all add: AckSyncOut_def call_Set evolves_def store_simps)

lemma setItem_frame:
  assumes "inv (store s)" and "decodable (abs (store s))" and "benign (preSetItems s)"
    and "setItem S it (Some notifyListeners) s = (r, s')"
  shows "inv (store s')" and "preSetItems s' = preSetItems s"
    and "abs (store s') (LastSyncOutKey q) = abs (store s) (LastSyncOutKey q)"
proof -
  have ev: "evolves inv abs (snd (setItem_abs s it (abs (store s)))) s s'"
    using setItem_result(2) [OF assms(1-3), of it] assms(4) by simp
  show "inv (store s')" and "preSetItems s' = preSetItems s"
    using evolves_store(1) [OF ev] evolves_config(8) [OF ev] by simp_all
  show "abs (store s') (LastSyncOutKey q) = abs (store s) (LastSyncOutKey q)"
    unfolding evolves_store(2) [OF ev]
    by (simp add: setItem_abs_def Let_def puts_def unputs_def key_simps)
qed

end

section \<open>Properties\<close>


text \<open>The concrete engine again, at a time when its item has matured.\<close>

definition demoLate :: "(StoreMemory, unit) StoreSync" where
  "demoLate = demo\<lparr>clock := \<lambda>_. 1700000020000000000\<rparr>"

lemma demoLate_simps [simp]:
  "store demoLate = demoMem" "clock demoLate n = 1700000020000000000" "ticks demoLate = 0"
  "syncOutFilters demoLate = []" "postSyncOuts demoLate = []"
  by (simp_all add: demoLate_def)

lemma demo_live: "live (mem_abs demoMem) u = (if u = ''i0'' then Some demoItem else None)"
  using live_puts [of demoItem Map.empty u] demoItem_writable by (simp add: demoMem_abs live_def writable_def)

lemma demo_queued: "queued (mem_abs demoMem) it \<longleftrightarrow> it = demoItem"
proof -
  have "mem_abs demoMem (QueueKey (QueueID 1700000010000000000 ''i0'' ''k'')) = Some ''i0''"
    by (simp add: demoMem_abs puts_def key_simps)
  then show ?thesis by (auto simp: queued_def demo_live split: if_splits)
qed

lemma demo_queue_ok: "queue_ok (mem_abs demoMem)"
  unfolding queue_ok_def
proof (intro allI impI)
  fix k u assume k: "mem_abs demoMem k = Some u" "prefix (QueueKey []) k"
  have "k = QueueKey (QueueID 1700000010000000000 ''i0'' ''k'')" "u = ''i0''"
    using k prefix_kinds by (auto simp: demoMem_abs puts_def split: if_splits)
  then show "\<exists>wt key. k = QueueKey (QueueID wt u key) \<and> nano19 wt \<and>
      (\<forall>it. live (mem_abs demoMem) u = Some it \<longrightarrow> WriteTimestamp it = wt \<and> Key it = key)"
    by (intro exI [of _ 1700000010000000000] exI [of _ "''k''"]) (simp add: demo_live nano19_def)
qed

lemma demo_cursor: "cursor_wf (mem_abs demoMem) peer" "cursor_of (mem_abs demoMem) peer = 0"
  by (simp_all add: cursor_wf_def cursor_of_def cursor_ok_def demoMem_abs puts_def key_simps)




lemma acked_SyncOut:
  assumes "kv_store S I A" and "I (store s)" and "wf (A (store s))" and "queue_ok (A (store s))"
    and "postSyncOuts s = []" and "cursor_ok (LastSyncTimestamp p)" and "in_i64 (LastSyncTimestamp p)"
    and "AckSyncOut S peer p s = (r, s')"
  shows "r = Inr () \<and> cursor_of (A (store s')) peer = LastSyncTimestamp p \<and> wf (A (store s')) \<and>
    (\<exists>p' t. SyncOut S peer limit s' = (Inr p', t) \<and>
      (\<forall>it \<in> set (Items p'). LastSyncTimestamp p < WriteTimestamp it))"
proof -
  let ?m = "A (store s)"
  let ?m' = "?m(LastSyncOutKey peer \<mapsto> marshal_int64 (LastSyncTimestamp p))"
  have r: "r = Inr ()" and ev: "evolves I A ?m' s s'"
    using kv_store.AckSyncOut_spec [OF assms(1,2,5), of peer p] assms(8) by simp_all
  have same: "same_data ?m ?m'" by (rule same_data_upd)
  have wf': "wf ?m'" using same_data_wf [OF same assms(3)] wf_finite [OF assms(3)] by simp
  have q': "queue_ok ?m'"
    using assms(4) same_data_live [OF same] prefix_kinds(8) unfolding queue_ok_def by (simp add: fun_upd_def)
  have c: "cursor_of ?m' peer = LastSyncTimestamp p" "cursor_wf ?m' peer"
    using assms(6,7) by (simp_all add: cursor_of_def cursor_wf_def)
  have m': "A (store s') = ?m'" "I (store s')" using evolves_store [OF ev] by simp_all
  obtain t where t: "SyncOut S peer limit s' =
      (Inr (payload_of s' (A (store s')) (cursor_of (A (store s')) peer) (effective_limit limit) peer), t)"
    by (rule kv_store.SyncOut_spec [OF assms(1) m'(2), of peer limit]) (use m' wf' c wf_decodable in \<open>simp_all\<close>)
  have "LastSyncTimestamp p < WriteTimestamp it"
    if "it \<in> set (window ?m' (LastSyncTimestamp p) (effective_limit limit))" for it
    using window_queued(2) [OF wf' q' assms(6) that] .
  then show ?thesis using r c wf' t by (auto simp: m' payload_of_def)
qed



text \<open>Two items with the same write time.\<close>

definition twinItem :: SyncStoreItem where
  "twinItem = demoItem\<lparr>Key := ''l'', ID := ''u1''\<rparr>"

definition twinMem :: StoreMemory where
  "twinMem = snd (memSet (ValueKey ''u1'') (marshal_item twinItem)
     (snd (memSet (ViewEntryKey ''l'' 1700000000000000000 ''u1'') ''u1''
       (snd (memSet (QueueKey (QueueID 1700000010000000000 ''u1'' ''l'')) ''u1'' demoMem)))))"

definition twinLate :: "(StoreMemory, unit) StoreSync" where
  "twinLate = demoLate\<lparr>store := twinMem\<rparr>"

lemma twinItem_simps [simp]:
  "Key twinItem = ''l''" "ID twinItem = ''u1''" "Timestamp twinItem = 1700000000000000000"
  "WriteTimestamp twinItem = 1700000010000000000"
  by (simp_all add: twinItem_def)

lemma twinLate_simps [simp]:
  "store twinLate = twinMem" "clock twinLate n = 1700000020000000000" "syncOutFilters twinLate = []"
  "postSyncOuts twinLate = []"
  by (simp_all add: twinLate_def)

lemma twinMem_inv: "mem_inv twinMem"
  using demoMem_inv by (simp add: twinMem_def memSet_def mem_inv_def distinct_update)

lemma twinMem_abs: "mem_abs twinMem = puts (mem_abs demoMem) twinItem"
  by (simp add: twinMem_def memSet_def mem_abs_def update_conv' puts_def)

lemma twin_writable: "writable (mem_abs demoMem) twinItem"
  by (simp add: writable_def valid_item_def id_ok_fresh demo_fresh nul_free_def utf8_valid_ascii in_i64_def twinItem_def)

lemma twin_wf: "wf (mem_abs twinMem)"
  unfolding twinMem_abs by (rule wf_puts [OF demo_wf twin_writable])

lemma twin_live: "live (mem_abs twinMem) u = (if u = ''u1'' then Some twinItem else live (mem_abs demoMem) u)"
  using twin_writable by (simp add: twinMem_abs live_puts writable_def)

lemma twin_cursor: "cursor_wf (mem_abs twinMem) peer" "cursor_of (mem_abs twinMem) peer = 0"
  using demo_cursor by (simp_all add: cursor_wf_def cursor_of_def twinMem_abs puts_def key_simps)

lemma queue_ok_puts:
  assumes "queue_ok m" and "fresh_id m (ID w)" and "valid_item w" and "nano19 (WriteTimestamp w)"
  shows "queue_ok (puts m w)"
  unfolding queue_ok_def
proof (intro allI impI)
  fix k u assume k: "puts m w k = Some u" "prefix (QueueKey []) k"
  show "\<exists>wt key. k = QueueKey (QueueID wt u key) \<and> nano19 wt \<and>
      (\<forall>it. live (puts m w) u = Some it \<longrightarrow> WriteTimestamp it = wt \<and> Key it = key)"
  proof (cases "k = QueueKey (QueueID (WriteTimestamp w) (ID w) (Key w))")
    case True
    then have "u = ID w" using k by (simp add: puts_def key_simps)
    then show ?thesis using True assms live_puts [OF assms(3)] by (auto simp: live_puts [OF assms(3)])
  next
    case False
    then have mk: "m k = Some u" using k prefix_kinds by (auto simp: puts_def split: if_splits)
    then obtain wt key where kt: "k = QueueKey (QueueID wt u key)" "nano19 wt"
        "\<And>it. live m u = Some it \<Longrightarrow> WriteTimestamp it = wt \<and> Key it = key"
      using assms(1) k(2) unfolding queue_ok_def by blast
    then have "u \<noteq> ID w" using mk assms(2) by (auto simp: fresh_id_def)
    then show ?thesis using kt live_puts [OF assms(3)] by auto
  qed
qed

lemma twin_queue_ok: "queue_ok (mem_abs twinMem)"
  unfolding twinMem_abs using twin_writable
  by (intro queue_ok_puts [OF demo_queue_ok]) (simp_all add: demo_fresh writable_def nano19_def)

lemma queue_range_puts:
  "{k \<in> dom (puts m w). in_range (queue_args c l) k} =
    (if in_range (queue_args c l) (QueueKey (QueueID (WriteTimestamp w) (ID w) (Key w)))
     then insert (QueueKey (QueueID (WriteTimestamp w) (ID w) (Key w))) {k \<in> dom m. in_range (queue_args c l) k}
     else {k \<in> dom m. in_range (queue_args c l) k})"
proof -
  have "\<not> in_range (queue_args c l) (ViewEntryKey a b d)" "\<not> in_range (queue_args c l) (ValueKey a)" for a b d
    by (simp_all add: in_range_def queue_args_def key_simps)
  then show ?thesis by (auto simp: puts_def)
qed

lemma twin_window: "window (mem_abs twinMem) 0 1 = [demoItem]"
proof -
  let ?k = "QueueKey (QueueID 1700000010000000000 ''i0'' ''k'')" and ?l = "QueueKey (QueueID 1700000010000000000 ''u1'' ''l'')"
  have in_r: "in_range (queue_args 0 1) ?k" "in_range (queue_args 0 1) ?l"
    by (subst in_range_queue; simp add: nano19_def cursor_ok_def)+
  have lookup: "mem_abs twinMem ?k = Some ''i0''" "mem_abs twinMem ?l = Some ''u1''"
    by (simp_all add: twinMem_abs demoMem_abs puts_def key_simps QueueID_inject)
  have "{k \<in> dom (mem_abs twinMem). in_range (queue_args 0 1) k} = {?k, ?l}"
    using in_r queue_range_puts [of "mem_abs demoMem" twinItem 0 1] queue_range_puts [of Map.empty demoItem 0 1]
    by (simp add: twinMem_abs demoMem_abs insert_commute)
  moreover have "?k < ?l" by (simp add: QueueKey_def QueueID_def)
  ultimately have "list_spec (mem_abs twinMem) (queue_args 0 1) = [entry_at (mem_abs twinMem) ?k]"
    by (simp add: list_spec_def limit_to_def queue_args_def less_imp_le)
  then show ?thesis by (simp add: window_def live_of_def List.map_filter_simps entry_at_def lookup twin_live demo_live)
qed

text \<open>A cursor can skip an item: when two items carry the same write time and a payload
  ends between them, its cursor is already their write time.  Here the second item is
  stored and queued, is in neither the first payload nor, after the acknowledgement, in the
  second one.\<close>

theorem equal_write_times_lose_item:
  "\<exists>p s1 s2 p' s3. SyncOut memStore ''p'' 1 twinLate = (Inr p, s1) \<and> AckSyncOut memStore ''p'' p s1 = (Inr (), s2) \<and>
     SyncOut memStore ''p'' 1 s2 = (Inr p', s3) \<and> queued (mem_abs (store s1)) twinItem \<and>
     twinItem \<notin> set (Items p) \<and> twinItem \<notin> set (Items p')"
proof -
  let ?m = "mem_abs twinMem"
  let ?p = "payload_of twinLate ?m 0 1 ''p''"
  have p: "Items ?p = [demoItem]" "LastSyncTimestamp ?p = 1700000010000000000"
    by (simp_all add: payload_of_def twin_window passes_out_def advance_def)
  obtain s1 where s1: "SyncOut memStore ''p'' 1 twinLate = (Inr (payload_of twinLate (mem_abs (store twinLate))
      (cursor_of (mem_abs (store twinLate)) ''p'') (effective_limit 1) ''p''), s1)"
      "evolves mem_inv mem_abs (mem_abs (store twinLate)) twinLate s1"
    by (rule mem.SyncOut_spec [of twinLate "''p''" 1]) (simp_all add: twinMem_inv wf_decodable twin_wf twin_cursor)
  have m1: "mem_inv (store s1)" "mem_abs (store s1) = ?m" "postSyncOuts s1 = []"
    using evolves_store [OF s1(2)] evolves_config(7) [OF s1(2)] by simp_all
  define s2 where "s2 = snd (AckSyncOut memStore ''p'' ?p s1)"
  let ?m2 = "?m(LastSyncOutKey ''p'' \<mapsto> marshal_int64 1700000010000000000)"
  have ack: "AckSyncOut memStore ''p'' ?p s1 = (Inr (), s2)" "mem_inv (store s2)" "mem_abs (store s2) = ?m2"
    using mem.AckSyncOut_spec [OF m1(1,3), of "''p''" ?p] evolves_store m1(2)
    by (auto simp: s2_def prod_eq_iff p)
  have same: "same_data ?m ?m2" by (rule same_data_upd)
  have wf2: "wf ?m2" using same_data_wf [OF same twin_wf] wf_finite [OF twin_wf] by simp
  have q2: "queue_ok ?m2"
    using twin_queue_ok same_data_live [OF same] prefix_kinds(8) unfolding queue_ok_def by (simp add: fun_upd_def)
  have c2: "cursor_of ?m2 ''p'' = 1700000010000000000" "cursor_wf ?m2 ''p''"
    by (simp_all add: cursor_of_def cursor_wf_def in_i64_def cursor_ok_def nano19_def)
  obtain s3 where s3: "SyncOut memStore ''p'' 1 s2 = (Inr (payload_of s2 (mem_abs (store s2))
      (cursor_of (mem_abs (store s2)) ''p'') (effective_limit 1) ''p''), s3)"
    by (rule mem.SyncOut_spec [of s2 "''p''" 1]) (use ack wf2 c2 wf_decodable in simp_all)
  have "twinItem \<notin> set (window ?m2 1700000010000000000 (effective_limit 1))"
    using window_queued(2) [OF wf2 q2, of 1700000010000000000 twinItem] by (auto simp: cursor_ok_def nano19_def)
  then have "twinItem \<notin> set (Items (payload_of s2 (mem_abs (store s2)) (cursor_of (mem_abs (store s2)) ''p'') (effective_limit 1) ''p''))"
    by (simp add: payload_of_def ack c2)
  moreover have "queued ?m twinItem" by (simp add: queued_def twin_live) (simp add: twinMem_abs puts_def key_simps)
  moreover have "twinItem \<noteq> demoItem"
  proof
    assume "twinItem = demoItem"
    then have "ID twinItem = ID demoItem" by (rule arg_cong)
    then show False by simp
  qed
  ultimately show ?thesis
    using s1(1) ack(1) s3 m1(2) p twin_cursor(2) [of "''p''"] by (auto simp: effective_limit_def MaxSyncOutLimit_def)
qed

end
