(* ===== verification/Collect.thy ===== *)
theory Collect
  imports Listing Outbound
begin

text \<open>
  Garbage collection of superseded versions, \<open>gcKey\<close>.  Each phase is refined to the removal
  of a set of keys from the content; \<open>gc_spec\<close> says what may be in that set.  A collection
  ends, and it changes no visible version of any key: it removes orphaned view entries,
  versions that lost, and queue entries that name a lost version.
\<close>

section \<open>Removing keys\<close>

lemma live_submap: "m' \<subseteq>\<^sub>m m \<Longrightarrow> live m' u = Some it \<Longrightarrow> live m u = Some it"
  by (auto simp: live_def map_le_def bind_eq_Some_conv) (metis domI)

lemma wf_submap:
  assumes "wf m" and "m' \<subseteq>\<^sub>m m"
  shows "wf m'"
proof -
  have sub: "m k = Some v" if "m' k = Some v" for k v using assms(2) that by (auto simp: map_le_def) (metis domI)
  have "finite (dom m')" using assms finite_subset map_le_implies_dom_le by (auto simp: wf_def)
  moreover have "wf_values m'" using assms(1) sub by (auto simp: wf_def wf_values_def)
  moreover have "wf_views m'"
    unfolding wf_views_def
  proof (intro allI impI)
    fix k u assume k: "m' k = Some u" "prefix viewPrefixBase k"
    obtain key ts where "nul_free key" "k = ViewEntryKey key ts u" "\<And>it. live m u = Some it \<Longrightarrow> Key it = key \<and> Timestamp it = ts"
      using assms(1) sub [OF k(1)] k(2) unfolding wf_def wf_views_def by blast
    then show "\<exists>key ts. nul_free key \<and> k = ViewEntryKey key ts u \<and> (\<forall>it. live m' u = Some it \<longrightarrow> Key it = key \<and> Timestamp it = ts)"
      using live_submap [OF assms(2)] by blast
  qed
  ultimately show ?thesis by (simp add: wf_def)
qed

lemma versions_submap:
  assumes "wf m" and "m' \<subseteq>\<^sub>m m" and "nul_free key"
  shows "set (versions m' key) \<subseteq> set (versions m key)"
  using assms wf_submap [OF assms(1,2)] live_submap [OF assms(2)]
  by (auto simp: set_versions map_le_def) (metis domI)

text \<open>A submap that keeps every visible version keeps the view.\<close>

lemma view_submap:
  assumes "wf m" and "m' \<subseteq>\<^sub>m m" and "nul_free key"
    and "\<And>w. view m key = Some w \<Longrightarrow> m' (ValueKey (ID w)) = m (ValueKey (ID w)) \<and>
      m' (ViewEntryKey key (Timestamp w) (ID w)) = m (ViewEntryKey key (Timestamp w) (ID w))"
  shows "view m' key = view m key"
proof (cases "view m key")
  case None
  then have "versions m key = []" by (simp add: view_def best_None_iff)
  then have "versions m' key = []" using versions_submap [OF assms(1-3)] by auto
  then show ?thesis using None by (simp add: view_def)
next
  case (Some w)
  then have w: "w \<in> set (versions m key)" "\<And>x. x \<in> set (versions m key) \<Longrightarrow> \<not> newer x w"
    using view_Some_iff [OF assms(1,3)] by auto
  have "w \<in> set (versions m' key)"
    using w(1) assms(4) [OF Some] set_versions [OF assms(1,3)] set_versions [OF wf_submap [OF assms(1,2)] assms(3)]
    by (auto simp: live_def)
  then have "view m' key = Some w"
    using view_Some_iff [OF wf_submap [OF assms(1,2)] assms(3)] w(2) versions_submap [OF assms(1-3)] by blast
  then show ?thesis using Some by simp
qed

definition remove_keys :: "(string \<rightharpoonup> string) \<Rightarrow> string set \<Rightarrow> (string \<rightharpoonup> string)" where
  "remove_keys m X = m |` (- X)"

lemma remove_keys_simps:
  "remove_keys m {} = m" "(remove_keys m X)(k := None) = remove_keys m (insert k X)"
  "remove_keys (remove_keys m X) Y = remove_keys m (X \<union> Y)" "remove_keys m X \<subseteq>\<^sub>m m"
  by (auto simp: remove_keys_def restrict_map_def map_le_def fun_eq_iff)

lemma remove_keys_apply: "remove_keys m X k = (if k \<in> X then None else m k)"
  by (simp add: remove_keys_def restrict_map_def)

section \<open>Choosing the losers\<close>

lemma gc_winner_correct:
  assumes "gc_winner cs i j w = n" and "j < i"
  shows "(n = j \<and> (\<forall>c \<in> set cs. \<not> newer (veItem c) (veItem w))) \<or>
    (\<exists>d. i \<le> n \<and> n < i + length cs \<and> d = cs ! (n - i) \<and> newer (veItem d) (veItem w) \<and>
      (\<forall>c \<in> set cs. \<not> newer (veItem c) (veItem d)))"
  using assms
proof (induction cs arbitrary: i j w)
  case Nil
  then show ?case by simp
next
  case (Cons c cs)
  show ?case
  proof (cases "newer (veItem c) (veItem w)")
    case True
    then have IH: "(n = i \<and> (\<forall>d \<in> set cs. \<not> newer (veItem d) (veItem c))) \<or>
      (\<exists>d. Suc i \<le> n \<and> n < Suc i + length cs \<and> d = cs ! (n - Suc i) \<and> newer (veItem d) (veItem c) \<and>
        (\<forall>e \<in> set cs. \<not> newer (veItem e) (veItem d)))"
      using Cons.IH [of "Suc i" i c] Cons.prems by simp
    then show ?thesis
    proof
      assume "n = i \<and> (\<forall>d \<in> set cs. \<not> newer (veItem d) (veItem c))"
      then show ?thesis using True newer_irrefl by auto
    next
      assume "\<exists>d. Suc i \<le> n \<and> n < Suc i + length cs \<and> d = cs ! (n - Suc i) \<and> newer (veItem d) (veItem c) \<and>
        (\<forall>e \<in> set cs. \<not> newer (veItem e) (veItem d))"
      then obtain d where d: "Suc i \<le> n" "n < Suc i + length cs" "d = cs ! (n - Suc i)" "newer (veItem d) (veItem c)"
          "\<forall>e \<in> set cs. \<not> newer (veItem e) (veItem d)" by blast
      have "(c # cs) ! (n - i) = d" using d(1,3) by (simp add: nth_Cons')
      moreover have "newer (veItem d) (veItem w)" using newer_trans [OF d(4) True] .
      ultimately show ?thesis using d newer_asym [OF d(4)] by (intro disjI2 exI [of _ d]) auto
    qed
  next
    case False
    then have IH: "(n = j \<and> (\<forall>d \<in> set cs. \<not> newer (veItem d) (veItem w))) \<or>
      (\<exists>d. Suc i \<le> n \<and> n < Suc i + length cs \<and> d = cs ! (n - Suc i) \<and> newer (veItem d) (veItem w) \<and>
        (\<forall>e \<in> set cs. \<not> newer (veItem e) (veItem d)))"
      using Cons.IH [of "Suc i" j w] Cons.prems by simp
    then show ?thesis
    proof
      assume "n = j \<and> (\<forall>d \<in> set cs. \<not> newer (veItem d) (veItem w))"
      then show ?thesis using False by auto
    next
      assume "\<exists>d. Suc i \<le> n \<and> n < Suc i + length cs \<and> d = cs ! (n - Suc i) \<and> newer (veItem d) (veItem w) \<and>
        (\<forall>e \<in> set cs. \<not> newer (veItem e) (veItem d))"
      then obtain d where d: "Suc i \<le> n" "n < Suc i + length cs" "d = cs ! (n - Suc i)" "newer (veItem d) (veItem w)"
          "\<forall>e \<in> set cs. \<not> newer (veItem e) (veItem d)" by blast
      have "(c # cs) ! (n - i) = d" using d(1,3) by (simp add: nth_Cons')
      moreover have "\<not> newer (veItem c) (veItem d)" using False d(4) newer_trans by (meson newer_asym)
      ultimately show ?thesis using d by (intro disjI2 exI [of _ d]) auto
    qed
  qed
qed

lemma set_other_index:
  assumes "distinct cs" and "n < length cs"
  shows "set (map snd (filter (\<lambda>(i, _). i \<noteq> n) (enumerate 0 cs))) = set cs - {cs ! n}"
proof -
  have "set (map snd (filter (\<lambda>(i, _). i \<noteq> n) (enumerate 0 cs))) = {cs ! i | i. i < length cs \<and> i \<noteq> n}"
    by (force simp: in_set_enumerate_eq)
  also have "\<dots> = set cs - {cs ! n}"
    using assms by (auto simp: set_conv_nth nth_eq_iff_index_eq)
  finally show ?thesis .
qed

lemma gc_losers_spec:
  assumes "cs \<noteq> []" and "distinct cs"
  obtains w where "w \<in> set cs" "\<And>c. c \<in> set cs \<Longrightarrow> \<not> newer (veItem c) (veItem w)" "set (gc_losers cs) = set cs - {w}"
proof -
  obtain c rest where cs: "cs = c # rest" using assms(1) by (cases cs) auto
  define n where "n = gc_winner rest 1 0 c"
  from gc_winner_correct [of rest 1 0 c n]
  have "(n = 0 \<and> (\<forall>c' \<in> set rest. \<not> newer (veItem c') (veItem c))) \<or>
      (\<exists>d. 1 \<le> n \<and> n < 1 + length rest \<and> d = rest ! (n - 1) \<and> newer (veItem d) (veItem c) \<and>
        (\<forall>c \<in> set rest. \<not> newer (veItem c) (veItem d)))"
    by (simp add: n_def)
  then have n: "n < length cs" "\<And>d. d \<in> set cs \<Longrightarrow> \<not> newer (veItem d) (veItem (cs ! n))"
    using newer_irrefl newer_asym by (auto simp: cs nth_Cons')
  have "gc_losers cs = map snd (filter (\<lambda>(i, _). i \<noteq> n) (enumerate 0 cs))"
    by (simp add: gc_losers_def cs n_def)
  then have "set (gc_losers cs) = set cs - {cs ! n}" using set_other_index [OF assms(2) n(1)] by (simp only:)
  then show thesis using that n nth_mem [OF n(1)] by blast
qed

section \<open>The phases\<close>

lemma set_map_filter: "set (List.map_filter f xs) = {y. \<exists>x \<in> set xs. f x = Some y}"
  by (induction xs) (auto simp: List.map_filter_simps split: option.splits)


definition orphans :: "(string \<rightharpoonup> string) \<Rightarrow> KeyValuePair list \<Rightarrow> string set" where
  "orphans m kvs = {kvKey kv | kv. kv \<in> set kvs \<and> live m (kvValue kv) = None}"

definition candidates_of :: "(string \<rightharpoonup> string) \<Rightarrow> KeyValuePair list \<Rightarrow> viewEntry list" where
  "candidates_of m kvs = List.map_filter (\<lambda>kv. map_option
     (\<lambda>it. \<lparr>veStoreKey = kvKey kv, veItemID = kvValue kv, veItem = it\<rparr>) (live m (kvValue kv))) kvs"

definition loser_keys :: "viewEntry list \<Rightarrow> string set" where
  "loser_keys cs = veStoreKey ` set cs \<union> (ValueKey \<circ> veItemID) ` set cs"

lemma set_candidates_of:
  "c \<in> set (candidates_of m kvs) \<longleftrightarrow> (\<exists>kv \<in> set kvs. live m (kvValue kv) = Some (veItem c) \<and>
     veStoreKey c = kvKey kv \<and> veItemID c = kvValue kv)"
  unfolding candidates_of_def set_map_filter by (cases c) auto

context kv_store
begin

lemma delete_step:
  assumes "evolves inv abs (remove_keys m X) s s'"
  shows "evolves inv abs (remove_keys m (insert k X)) s (call_ignore (sDelete S k) s')"
proof -
  have "evolves inv abs ((remove_keys m X)(k := None)) s' (call_ignore (sDelete S k) s')"
    using evolves_store [OF assms] by (simp add: call_ignore_Delete evolves_def store_simps)
  then show ?thesis using evolves_trans [OF assms] by (simp add: remove_keys_simps)
qed

lemma gc_candidates_spec:
  assumes "inv (store s)" and "decodable (abs (store s))"
    and "\<And>kv. kv \<in> set kvs \<Longrightarrow> prefix viewPrefixBase (kvKey kv)"
  shows "\<exists>s'. gc_candidates S kvs s = (Some (candidates_of (abs (store s)) kvs), s') \<and>
    evolves inv abs (remove_keys (abs (store s)) (orphans (abs (store s)) kvs)) s s'"
  using assms
proof (induction kvs arbitrary: s)
  case Nil
  then show ?case by (simp add: candidates_of_def List.map_filter_simps orphans_def remove_keys_simps evolves_refl)
next
  case (Cons kv kvs)
  let ?m = "abs (store s)"
  obtain s1 where s1: "getValue S (kvValue kv) s = (view_result (live ?m (kvValue kv)), s1)" "reads inv abs s s1"
    using getValue_spec [OF Cons.prems(1,2)] .
  show ?case
  proof (cases "live ?m (kvValue kv)")
    case (Some it)
    obtain s2 where s2: "gc_candidates S kvs s1 = (Some (candidates_of ?m kvs), s2)"
        "evolves inv abs (remove_keys ?m (orphans ?m kvs)) s1 s2"
      using Cons.IH [of s1] reads_inv [OF s1(2)] reads_abs [OF s1(2)] Cons.prems(2,3) by auto
    have "orphans ?m (kv # kvs) = orphans ?m kvs" using Some by (auto simp: orphans_def)
    then show ?thesis using Some s1(1) s2 evolves_trans [OF reads_evolves [OF s1(2)] s2(2)]
      by (auto simp: candidates_of_def List.map_filter_simps)
  next
    case None
    let ?s2 = "call_ignore (sDelete S (kvKey kv)) s1"
    have ev2: "evolves inv abs (remove_keys ?m {kvKey kv}) s ?s2"
      using delete_step [of ?m "{}" s s1 "kvKey kv"] reads_evolves [OF s1(2)] by (simp add: remove_keys_simps)
    have m2: "abs (store ?s2) = remove_keys ?m {kvKey kv}" "inv (store ?s2)" using evolves_store [OF ev2] by auto
    have "ValueKey u \<noteq> kvKey kv" for u using Cons.prems(3) [of kv] prefix_base_kinds(1) [of "[]" u] by auto
    then have live2: "live (abs (store ?s2)) = live ?m"
      by (simp add: m2 fun_eq_iff live_def remove_keys_apply)
    have "decodable (abs (store ?s2))"
      using Cons.prems(2) by (simp add: m2 decodable_def remove_keys_apply)
    then obtain s3 where s3: "gc_candidates S kvs ?s2 = (Some (candidates_of ?m kvs), s3)"
        "evolves inv abs (remove_keys (remove_keys ?m {kvKey kv}) (orphans ?m kvs)) ?s2 s3"
      using Cons.IH [of ?s2] m2 Cons.prems(3) live2 by (auto simp: candidates_of_def orphans_def)
    have "orphans ?m (kv # kvs) = {kvKey kv} \<union> orphans ?m kvs" using None by (auto simp: orphans_def)
    then show ?thesis using None s1(1) s3 evolves_trans [OF ev2 s3(2)]
      by (auto simp: candidates_of_def List.map_filter_simps remove_keys_simps)
  qed
qed

lemma gc_delete_losers_spec:
  assumes "evolves inv abs (remove_keys m X) s s'"
  shows "evolves inv abs (remove_keys m (X \<union> loser_keys cs)) s (gc_delete_losers S cs s')"
  using assms
proof (induction cs arbitrary: X s')
  case Nil
  then show ?case by (simp add: loser_keys_def)
next
  case (Cons c cs)
  from delete_step [OF delete_step [OF Cons.prems, of "veStoreKey c"], of "ValueKey (veItemID c)"]
  have "evolves inv abs (remove_keys m (insert (ValueKey (veItemID c)) (insert (veStoreKey c) X))) s
      (call_ignore (sDelete S (ValueKey (veItemID c))) (call_ignore (sDelete S (veStoreKey c)) s'))" .
  from Cons.IH [OF this] show ?case by (simp add: loser_keys_def Un_commute Un_assoc insert_commute)
qed

lemma gc_queue_page_spec:
  assumes "inv (store s)"
  shows "\<exists>X. X \<subseteq> {kvKey kv | kv. kv \<in> set kvs \<and> kvValue kv \<in> losers} \<and>
    evolves inv abs (remove_keys (abs (store s)) X) s (gc_queue_page S sfx losers kvs s)"
  using assms
proof (induction kvs arbitrary: s)
  case Nil
  then show ?case by (auto simp: remove_keys_simps evolves_refl intro!: exI [of _ "{}"])
next
  case (Cons kv kvs)
  show ?case
  proof (cases "gc_queue_page S sfx losers (kv # kvs) s = gc_queue_page S sfx losers kvs s")
    case True
    obtain X where X: "X \<subseteq> {kvKey kv | kv. kv \<in> set kvs \<and> kvValue kv \<in> losers}"
        "evolves inv abs (remove_keys (abs (store s)) X) s (gc_queue_page S sfx losers kvs s)"
      using Cons.IH [OF Cons.prems] by blast
    show ?thesis unfolding True using X by (intro exI [of _ X]) auto
  next
    case False
    let ?t = "call_ignore (sDelete S (kvKey kv)) s"
    have ev: "evolves inv abs (remove_keys (abs (store s)) {kvKey kv}) s ?t"
      using delete_step [of "abs (store s)" "{}" s s "kvKey kv"] evolves_refl [of inv s abs] Cons.prems
      by (simp add: remove_keys_simps)
    have step: "gc_queue_page S sfx losers (kv # kvs) s = gc_queue_page S sfx losers kvs ?t" "kvValue kv \<in> losers"
      using False by (auto simp: Let_def split: if_splits)
    obtain X where X: "X \<subseteq> {kvKey kv | kv. kv \<in> set kvs \<and> kvValue kv \<in> losers}"
        "evolves inv abs (remove_keys (abs (store ?t)) X) ?t (gc_queue_page S sfx losers kvs ?t)"
      using Cons.IH [OF evolves_store(1) [OF ev]] by blast
    have "evolves inv abs (remove_keys (abs (store s)) ({kvKey kv} \<union> X)) s (gc_queue_page S sfx losers kvs ?t)"
      using evolves_trans [OF ev X(2)] evolves_store(2) [OF ev] by (simp add: remove_keys_simps)
    then show ?thesis using X(1) step
      by (intro exI [of _ "{kvKey kv} \<union> X"]) auto
  qed
qed

lemma gc_queue_spec:
  assumes "inv (store s)"
    and "L = list_spec (abs (store s)) \<lparr>Prefix = QueueKey [], StartAfter = sa, Limit = 0\<rparr>"
  shows "\<exists>X s'. gc_queue S sfx losers sa s = Some s' \<and>
    X \<subseteq> {k. prefix (QueueKey []) k \<and> (\<exists>u \<in> losers. abs (store s) k = Some u)} \<and>
    evolves inv abs (remove_keys (abs (store s)) X) s s'"
  using assms
proof (induction "length L" arbitrary: L sa s rule: less_induct)
  case less
  let ?m = "abs (store s)" and ?a = "\<lparr>Prefix = QueueKey [], StartAfter = sa, Limit = 100\<rparr>"
  have fin: "finite (dom ?m)" using content_finite [OF less.prems(1)] .
  have L: "L = list_spec ?m (?a\<lparr>Limit := 0\<rparr>)" using less.prems(2) by simp
  have page: "list_spec ?m ?a = take 100 L" using list_spec_limited [of ?m ?a] L by (simp add: limit_to_def)
  define s1 where "s1 = s\<lparr>store := snd (sList S ?a (store s))\<rparr>"
  have c: "call (sList S ?a) s = (Inr (take 100 L), s1)"
    using less.prems(1) by (simp add: call_def store_simps s1_def page)
  have r1: "reads inv abs s s1" using less.prems(1) by (simp add: s1_def reads_def store_simps)
  have none: ?case if "gc_queue S sfx losers sa s = Some t" "evolves inv abs ?m s t" for t
    using that by (auto simp: remove_keys_simps intro!: exI [of _ "{}"])
  have entry: "?m (kvKey kv) = Some (kvValue kv)" "prefix (QueueKey []) (kvKey kv)" if "kv \<in> set L" for kv
    using list_spec_entry [OF fin, of kv "?a\<lparr>Limit := 0\<rparr>"] that L by (simp_all add: in_range_def)
  show ?case
  proof (cases "done_closed s \<or> L = []")
    case True
    have "gc_queue S sfx losers sa s = Some (if done_closed s then s else s1)"
      using True c by (subst gc_queue.simps) auto
    then show ?thesis using none reads_evolves [OF r1] evolves_refl [of inv s abs] less.prems(1) by auto
  next
    case False
    let ?s2 = "gc_queue_page S sfx losers (take 100 L) s1"
    obtain X where X: "X \<subseteq> {kvKey kv | kv. kv \<in> set (take 100 L) \<and> kvValue kv \<in> losers}"
        "evolves inv abs (remove_keys (abs (store s1)) X) s1 ?s2"
      using gc_queue_page_spec [OF reads_inv [OF r1]] by blast
    have ev2: "evolves inv abs (remove_keys ?m X) s ?s2"
      using evolves_trans [OF reads_evolves [OF r1] X(2)] reads_abs [OF r1] by simp
    have Xok: "X \<subseteq> {k. prefix (QueueKey []) k \<and> (\<exists>u \<in> losers. ?m k = Some u)}"
      using X(1) entry set_take_subset [of 100 L] by fastforce
    show ?thesis
    proof (cases "length L < 100")
      case True
      then have "gc_queue S sfx losers sa s = Some ?s2"
        using c False by (subst gc_queue.simps) (auto simp: Let_def)
      then show ?thesis using ev2 Xok by blast
    next
      case long: False
      let ?x = "kvKey (last (take 100 L))"
      have eq: "gc_queue S sfx losers sa s = gc_queue S sfx losers ?x ?s2"
        using c False long by (subst gc_queue.simps) (auto simp: Let_def)
      have next_L: "drop 100 L = list_spec ?m \<lparr>Prefix = QueueKey [], StartAfter = ?x, Limit = 0\<rparr>"
        using list_spec_next [OF fin, of ?a 100] L long by (simp add: QueueKey_def)
      have notX: "k \<notin> X" if "in_range \<lparr>Prefix = QueueKey [], StartAfter = ?x, Limit = 0\<rparr> k" for k
      proof
        assume "k \<in> X"
        then obtain kv where kv: "kv \<in> set (take 100 L)" "k = kvKey kv" using X(1) by blast
        have xin: "last (take 100 L) \<in> set (take 100 L)" using False by (intro last_in_set) simp
        then have "?x \<noteq> []" using entry(2) set_take_subset [of 100 L] by (fastforce simp: QueueKey_def)
        then have "?x < k" "prefix (QueueKey []) k" using that by (auto simp: in_range_def)
        then have "k \<in> kvKey ` set (drop 100 L)"
          using that kv entry set_take_subset [of 100 L] fin
          by (subst next_L, subst set_list_spec_unlimited) (auto simp: entry_at_def image_iff)
        then obtain kv' where "kv' \<in> set (drop 100 L)" "kvKey kv' = kvKey kv" using kv by auto
        then have "\<not> distinct (map kvKey (take 100 L @ drop 100 L))" using kv(1) by (force simp del: append_take_drop_id)
        then show False using list_spec_distinct [of ?m "?a\<lparr>Limit := 0\<rparr>"] L by simp
      qed
      have "list_spec (remove_keys ?m X) \<lparr>Prefix = QueueKey [], StartAfter = ?x, Limit = 0\<rparr>
          = list_spec ?m \<lparr>Prefix = QueueKey [], StartAfter = ?x, Limit = 0\<rparr>"
        by (rule list_spec_agree) (use notX in \<open>simp add: remove_keys_apply\<close>)
      then have rest: "drop 100 L = list_spec (abs (store ?s2)) \<lparr>Prefix = QueueKey [], StartAfter = ?x, Limit = 0\<rparr>"
        unfolding evolves_store(2) [OF ev2] using next_L by (rule trans [OF _ sym, rotated])
      have "length (drop 100 L) < length L" using False by simp
      from less.hyps [OF this evolves_store(1) [OF ev2] rest] obtain Y s' where
        Y: "gc_queue S sfx losers ?x ?s2 = Some s'" "Y \<subseteq> {k. prefix (QueueKey []) k \<and> (\<exists>u \<in> losers. abs (store ?s2) k = Some u)}"
          "evolves inv abs (remove_keys (abs (store ?s2)) Y) ?s2 s'" by blast
      have "evolves inv abs (remove_keys ?m (X \<union> Y)) s s'"
        using evolves_trans [OF ev2 Y(3)] evolves_store(2) [OF ev2] by (simp add: remove_keys_simps)
      moreover have "X \<union> Y \<subseteq> {k. prefix (QueueKey []) k \<and> (\<exists>u \<in> losers. ?m k = Some u)}"
      proof -
        have "Y \<subseteq> {k. prefix (QueueKey []) k \<and> (\<exists>u \<in> losers. ?m k = Some u)}"
          using Y(2) unfolding evolves_store(2) [OF ev2] remove_keys_apply by (auto split: if_splits)
        then show ?thesis using Xok by blast
      qed
      ultimately show ?thesis using eq Y(1) by (intro exI [of _ "X \<union> Y"] exI [of _ s']) simp
    qed
  qed
qed

end

section \<open>A whole collection\<close>

lemma distinct_candidates: "distinct (map kvKey kvs) \<Longrightarrow> distinct (candidates_of m kvs)"
proof (induction kvs)
  case (Cons kv kvs)
  have "c \<notin> set (candidates_of m kvs)" if "veStoreKey c = kvKey kv" for c
    using that Cons.prems by (auto simp: set_candidates_of)
  then show ?case using Cons by (auto simp: candidates_of_def List.map_filter_simps split: option.split)
qed (simp add: candidates_of_def List.map_filter_simps)

lemma candidate_version:
  assumes "wf m" and "nul_free key"
  shows "c \<in> set (candidates_of m (list_spec m (view_args key))) \<longleftrightarrow>
    veItem c \<in> set (versions m key) \<and> veItemID c = ID (veItem c) \<and>
    veStoreKey c = ViewEntryKey key (Timestamp (veItem c)) (ID (veItem c))" (is "?L \<longleftrightarrow> ?R")
proof
  assume ?L
  then obtain kv where kv: "kv \<in> set (list_spec m (view_args key))" "live m (kvValue kv) = Some (veItem c)"
      "veStoreKey c = kvKey kv" "veItemID c = kvValue kv"
    by (auto simp: set_candidates_of)
  have v: "veItem c \<in> set (versions m key)" using kv by (auto simp: versions_def set_live_of)
  have e: "m (kvKey kv) = Some (kvValue kv)" "prefix (ViewPrefix key) (kvKey kv)"
    using list_spec_entry [OF wf_finite [OF assms(1)] kv(1)] by (auto simp: in_range_def view_args_def)
  obtain k ts where "nul_free k" "kvKey kv = ViewEntryKey k ts (kvValue kv)"
      "Key (veItem c) = k \<and> Timestamp (veItem c) = ts"
    using assms(1) e(1) ViewPrefix_base [OF e(2)] kv(2) unfolding wf_def wf_views_def by blast
  moreover have "Key (veItem c) = key" using v assms by (simp add: set_versions)
  ultimately show ?R using v kv wf_live_ID [OF assms(1) kv(2)] by simp
next
  assume R: ?R
  let ?k = "ViewEntryKey key (Timestamp (veItem c)) (ID (veItem c))"
  have it: "live m (ID (veItem c)) = Some (veItem c)" "m ?k = Some (ID (veItem c))"
    using R set_versions [OF assms] by auto
  have "entry_at m ?k \<in> set (list_spec m (view_args key))"
    using it(2) assms(2) wf_finite [OF assms(1)]
    by (subst set_list_spec_unlimited) (auto simp: view_args_def in_range_def ViewPrefix_entry)
  then show ?L using R it by (auto simp: set_candidates_of entry_at_def intro!: bexI [of _ "entry_at m ?k"])
qed

definition gc_keeps :: "(string \<rightharpoonup> string) \<Rightarrow> string set \<Rightarrow> bool" where
  "gc_keeps m X \<longleftrightarrow> (\<forall>key w. nul_free key \<longrightarrow> view m key = Some w \<longrightarrow>
     ValueKey (ID w) \<notin> X \<and> ViewEntryKey key (Timestamp w) (ID w) \<notin> X \<and>
     (\<forall>q. m (QueueKey q) = Some (ID w) \<longrightarrow> QueueKey q \<notin> X))"

lemma visible_version:
  assumes "wf m" and "nul_free key" and "view m key = Some w"
  shows "w \<in> set (versions m key)" "Key w = key" "live m (ID w) = Some w" "m (ViewEntryKey key (Timestamp w) (ID w)) = Some (ID w)"
  using assms by (auto simp: view_Some_iff set_versions)

lemma orphans_keep:
  assumes "wf m" and "nul_free key" and "X = orphans m (list_spec m (view_args key))"
  shows "gc_keeps m X"
  unfolding gc_keeps_def
proof (intro allI impI)
  fix k w assume k: "nul_free k" "view m k = Some w"
  note vw = visible_version [OF assms(1) k]
  have orphan: "m x = Some u \<Longrightarrow> live m u = None \<and> prefix viewPrefixBase x" if "x \<in> X" for x u
  proof -
    from that assms(3) obtain kv where kv: "x = kvKey kv" "kv \<in> set (list_spec m (view_args key))" "live m (kvValue kv) = None"
      by (auto simp: orphans_def)
    then show "m x = Some u \<Longrightarrow> live m u = None \<and> prefix viewPrefixBase x"
      using list_spec_entry [OF wf_finite [OF assms(1)] kv(2)] ViewPrefix_base by (auto simp: in_range_def view_args_def)
  qed
  have "m (ValueKey (ID w)) \<noteq> None" using vw(3) by (auto simp: live_def bind_eq_Some_conv)
  then show "ValueKey (ID w) \<notin> X \<and> ViewEntryKey k (Timestamp w) (ID w) \<notin> X \<and>
     (\<forall>q. m (QueueKey q) = Some (ID w) \<longrightarrow> QueueKey q \<notin> X)"
    using orphan vw prefix_base_kinds [of "[]"] by fastforce
qed

lemma gc_keeps_Un: "gc_keeps m X \<Longrightarrow> gc_keeps m Y \<Longrightarrow> gc_keeps m (X \<union> Y)"
  by (auto simp: gc_keeps_def)

lemma gc_keeps_empty [simp]: "gc_keeps m {}"
  by (simp add: gc_keeps_def)

text \<open>The items that a collection of one key may drop: those that are not visible.\<close>

lemma losers_keep:
  assumes "wf m" and "nul_free key" and cs: "cs = candidates_of m (list_spec m (view_args key))"
    and w: "w \<in> set cs" "\<And>c. c \<in> set cs \<Longrightarrow> \<not> newer (veItem c) (veItem w)"
    and L: "set losers = set cs - {w}"
    and Q: "Q \<subseteq> {k. prefix (QueueKey []) k \<and> (\<exists>u \<in> veItemID ` set losers. m k = Some u)}"
  shows "gc_keeps m (loser_keys losers)" and "gc_keeps m Q"
proof -
  note cv = candidate_version [OF assms(1,2), folded cs]
  have other: "veItemID c \<noteq> ID v" "veStoreKey c \<noteq> ViewEntryKey k (Timestamp v) (ID v)"
    if c: "c \<in> set losers" and k: "nul_free k" "view m k = Some v" for c k v
  proof -
    note vv = visible_version [OF assms(1) k]
    have c': "c \<in> set cs" "c \<noteq> w" "veItem c \<in> set (versions m key)" "veItemID c = ID (veItem c)"
        "veStoreKey c = ViewEntryKey key (Timestamp (veItem c)) (ID (veItem c))"
      using c L cv by auto
    show id: "veItemID c \<noteq> ID v"
    proof
      assume eq: "veItemID c = ID v"
      have same: "x = v" if "x \<in> set (versions m key)" "ID x = ID v" for x
      proof -
        have "live m (ID x) = Some x" using that(1) assms(1,2) by (simp add: set_versions)
        then show ?thesis unfolding that(2) vv(3) by simp
      qed
      have v: "veItem c = v" using same [OF c'(3)] eq c'(4) by (simp only:)
      have "Key (veItem c) = key" using c'(3) assms(1,2) by (simp add: set_versions)
      then have "k = key" using vv(2) v by (simp only:)
      moreover have ww: "veItem w \<in> set (versions m key)" using w(1) cv by blast
      ultimately have "\<not> newer (veItem w) v" using view_Some_iff [OF assms(1) k(1)] k(2) by auto
      moreover have "\<not> newer v (veItem w)" using w(2) [OF c'(1)] v by simp
      ultimately have "ID (veItem w) = ID v" using newer_linear by blast
      then have "veItem w = v" using same [OF ww] by blast
      then have "c = w" using w(1) c' v cv by (cases c; cases w) auto
      then show False using c'(2) by simp
    qed
    show "veStoreKey c \<noteq> ViewEntryKey k (Timestamp v) (ID v)"
      using c'(4,5) id key_simps assms(2) k(1) ViewEntryKey_inject [OF assms(2) k(1)] by auto
  qed
  have store: "prefix viewPrefixBase (veStoreKey c)" if "c \<in> set losers" for c
    using that L cv by (auto simp: ViewEntryKey_def)
  show "gc_keeps m (loser_keys losers)"
    unfolding gc_keeps_def
  proof (intro allI impI conjI)
    fix k v assume k: "nul_free k" "view m k = Some v"
    show "ValueKey (ID v) \<notin> loser_keys losers"
      using other(1) [OF _ k] store prefix_base_kinds(1) [of "[]"] by (auto simp: loser_keys_def key_simps; metis)
    show "ViewEntryKey k (Timestamp v) (ID v) \<notin> loser_keys losers"
      using other(2) [OF _ k] by (auto simp: loser_keys_def key_simps; metis)
    show "QueueKey q \<notin> loser_keys losers" for q
      using store prefix_base_kinds(2) [of "[]"] by (auto simp: loser_keys_def key_simps; metis)
  qed
  show "gc_keeps m Q"
    unfolding gc_keeps_def
  proof (intro allI impI conjI)
    fix k v assume k: "nul_free k" "view m k = Some v"
    show "ValueKey (ID v) \<notin> Q" "ViewEntryKey k (Timestamp v) (ID v) \<notin> Q" using Q prefix_kinds by auto
    show "QueueKey q \<notin> Q" if "m (QueueKey q) = Some (ID v)" for q
      using Q that other(1) [OF _ k] by auto
  qed
qed

context kv_store
begin

lemma gcKey_spec:
  assumes "inv (store s)" and "wf (abs (store s))" and "nul_free key"
  shows "\<exists>X s'. gcKey S key cid s = Some s' \<and> evolves inv abs (remove_keys (abs (store s)) X) s s' \<and>
    gc_keeps (abs (store s)) X \<and>
    (\<exists>w. set (versions (remove_keys (abs (store s)) X) key) \<subseteq> {w})"
proof -
  let ?m = "abs (store s)" and ?a = "\<lparr>Prefix = ViewPrefix key, StartAfter = [], Limit = 0\<rparr>"
  let ?kvs = "list_spec ?m (view_args key)"
  define s1 where "s1 = s\<lparr>store := snd (sList S ?a (store s))\<rparr>"
  have c: "call (sList S ?a) s = (Inr ?kvs, s1)"
    using assms(1) by (simp add: call_def s1_def store_simps view_args_def)
  have r1: "reads inv abs s s1" using assms(1) by (simp add: s1_def reads_def store_simps)
  have len_versions: "length (versions ?m key) \<le> length ?kvs" by (simp add: versions_def length_live_of)
  have single: "\<exists>w. set xs \<subseteq> {w}" if "length xs \<le> 1" for xs :: "SyncStoreItem list"
    using that by (cases xs) auto
  have pre: "prefix viewPrefixBase (kvKey kv)" if "kv \<in> set ?kvs" for kv
    using list_spec_entry [OF wf_finite [OF assms(2)] that] ViewPrefix_base by (auto simp: in_range_def view_args_def)
  define cs where "cs = candidates_of ?m ?kvs"
  note cv = candidate_version [OF assms(2,3), folded cs_def]
  obtain s2 where s2: "gc_candidates S ?kvs s1 = (Some cs, s2)"
      "evolves inv abs (remove_keys (abs (store s1)) (orphans (abs (store s1)) ?kvs)) s1 s2"
    using gc_candidates_spec [OF reads_inv [OF r1], of ?kvs] wf_decodable [OF assms(2)] pre reads_abs [OF r1]
    by (auto simp: cs_def)
  define X1 where "X1 = orphans ?m ?kvs"
  have ev2: "evolves inv abs (remove_keys ?m X1) s s2"
    using evolves_trans [OF reads_evolves [OF r1] s2(2)] reads_abs [OF r1] by (simp add: X1_def)
  have k1: "gc_keeps ?m X1" using orphans_keep [OF assms(2,3)] by (simp add: X1_def)
  have sub: "set (versions (remove_keys ?m X) key) \<subseteq> set (versions ?m key)" for X
    using versions_submap [OF assms(2) _ assms(3)] remove_keys_simps(4) by blast
  consider "length ?kvs \<le> 1" | "length ?kvs > 1" "length cs \<le> 1" | "length ?kvs > 1" "length cs > 1" by linarith
  then show ?thesis
  proof cases
    case 1
    then have "gcKey S key cid s = Some s1" using c by (simp add: gcKey_def)
    moreover have "\<exists>w. set (versions ?m key) \<subseteq> {w}" using 1 len_versions by (intro single) linarith
    ultimately show ?thesis using reads_evolves [OF r1]
      by (intro exI [of _ "{}"] exI [of _ s1]) (simp add: remove_keys_simps)
  next
    case 2
    have "set (versions ?m key) \<subseteq> veItem ` set cs"
    proof
      fix x assume "x \<in> set (versions ?m key)"
      then have "\<lparr>veStoreKey = ViewEntryKey key (Timestamp x) (ID x), veItemID = ID x, veItem = x\<rparr> \<in> set cs" using cv by simp
      then show "x \<in> veItem ` set cs" by force
    qed
    moreover have "\<exists>w. veItem ` set cs \<subseteq> {w}" using 2(2) single [of "map veItem cs"] by simp
    ultimately have "\<exists>w. set (versions (remove_keys ?m X1) key) \<subseteq> {w}" using sub by (meson subset_trans)
    moreover have "gcKey S key cid s = Some s2" using c s2(1) 2 by (simp add: gcKey_def)
    ultimately show ?thesis using ev2 k1 by blast
  next
    case 3
    have "distinct cs" using distinct_candidates [OF list_spec_distinct] by (simp add: cs_def)
    moreover have "cs \<noteq> []" using 3(2) by auto
    ultimately obtain w where w: "w \<in> set cs" "\<And>c. c \<in> set cs \<Longrightarrow> \<not> newer (veItem c) (veItem w)"
        "set (gc_losers cs) = set cs - {w}" using gc_losers_spec by blast
    let ?L = "gc_losers cs" and ?s3 = "gc_delete_losers S (gc_losers cs) s2"
    have ev3: "evolves inv abs (remove_keys ?m (X1 \<union> loser_keys ?L)) s ?s3"
      using gc_delete_losers_spec [OF ev2] .
    obtain Q s4 where q: "gc_queue S (''%'' @ key) (veItemID ` set ?L) [] ?s3 = Some s4"
        "Q \<subseteq> {k. prefix (QueueKey []) k \<and> (\<exists>u \<in> veItemID ` set ?L. abs (store ?s3) k = Some u)}"
        "evolves inv abs (remove_keys (abs (store ?s3)) Q) ?s3 s4"
      using gc_queue_spec [OF evolves_store(1) [OF ev3] refl] by blast
    have Q: "Q \<subseteq> {k. prefix (QueueKey []) k \<and> (\<exists>u \<in> veItemID ` set ?L. ?m k = Some u)}"
      using q(2) unfolding evolves_store(2) [OF ev3] remove_keys_apply by (auto split: if_splits)
    let ?X = "X1 \<union> loser_keys ?L \<union> Q"
    have "evolves inv abs (remove_keys ?m ?X) s s4"
      using evolves_trans [OF ev3 q(3)] unfolding evolves_store(2) [OF ev3] by (simp add: remove_keys_simps)
    moreover have "gc_keeps ?m ?X"
      using k1 losers_keep [OF assms(2,3) cs_def w(1,2,3) Q] by (intro gc_keeps_Un)
    moreover have "set (versions (remove_keys ?m ?X) key) \<subseteq> {veItem w}"
    proof
      fix x assume x: "x \<in> set (versions (remove_keys ?m ?X) key)"
      let ?c = "\<lparr>veStoreKey = ViewEntryKey key (Timestamp x) (ID x), veItemID = ID x, veItem = x\<rparr>"
      have "remove_keys ?m ?X (ViewEntryKey key (Timestamp x) (ID x)) \<noteq> None"
        using x wf_submap [OF assms(2) remove_keys_simps(4)] assms(3) by (simp add: set_versions)
      then have "veStoreKey ?c \<notin> loser_keys ?L" by (auto simp: remove_keys_apply split: if_splits)
      then have "?c \<notin> set ?L" unfolding loser_keys_def by blast
      moreover have "?c \<in> set cs" using sub x cv by auto
      ultimately have "?c = w" using w(3) by auto
      then show "x \<in> {veItem w}" by (metis singletonI viewEntry.select_convs(3))
    qed
    moreover have "gcKey S key cid s = Some s4" using c s2(1) 3 q(1) by (simp add: gcKey_def Let_def)
    ultimately show ?thesis by blast
  qed
qed

end

section \<open>Properties\<close>



end
