(* ===== verification/Lifecycle.thy ===== *)
theory Lifecycle
  imports Collect
begin

text \<open>
  The life of one engine: any sequence of calls of the API of \<open>StoreSync\<close>, of incoming
  payloads and of turns of the GC workers, as the step relation \<open>engine_step\<close>.  Two
  invariants hold in every reachable state: the stored content is well formed
  (\<open>content_ok\<close>), and no step takes a key back to an older version (\<open>forward\<close>).

  IDs are UUIDs.  That a UUID names one version of one key across all peers is the parameter
  \<open>own\<close>, which maps an ID to its key and timestamp; \<open>admissible own it\<close> says that an item
  respects it and is valid UTF-8 without NUL in its key.
\<close>

section \<open>The invariant of the content\<close>

definition admissible :: "(string \<Rightarrow> string \<times> int) \<Rightarrow> SyncStoreItem \<Rightarrow> bool" where
  "admissible own it \<longleftrightarrow> nul_free (Key it) \<and> valid_item it \<and> own (ID it) = (Key it, Timestamp it) \<and>
     CHR ''%'' \<notin> set (ID it)"

definition owned :: "(string \<Rightarrow> string \<times> int) \<Rightarrow> (string \<rightharpoonup> string) \<Rightarrow> bool" where
  "owned own m \<longleftrightarrow>
     (\<forall>u x. live m u = Some x \<longrightarrow> own u = (Key x, Timestamp x) \<and> CHR ''%'' \<notin> set u) \<and>
     (\<forall>key ts u. nul_free key \<longrightarrow> m (ViewEntryKey key ts u) \<noteq> None \<longrightarrow> own u = (key, ts))"

definition winners_queued :: "(string \<rightharpoonup> string) \<Rightarrow> bool" where
  "winners_queued m \<longleftrightarrow> (\<forall>key w. nul_free key \<longrightarrow> view m key = Some w \<longrightarrow> queued m w)"

definition content_ok :: "(string \<Rightarrow> string \<times> int) \<Rightarrow> (string \<rightharpoonup> string) \<Rightarrow> bool" where
  "content_ok own m \<longleftrightarrow> wf m \<and> owned own m \<and> winners_queued m \<and> (\<forall>peer. cursor_wf m peer)"

definition forward :: "(string \<rightharpoonup> string) \<Rightarrow> (string \<rightharpoonup> string) \<Rightarrow> bool" where
  "forward m m' \<longleftrightarrow> (\<forall>key w. nul_free key \<longrightarrow> view m key = Some w \<longrightarrow>
     (\<exists>w'. view m' key = Some w' \<and> \<not> newer w w'))"

lemma forward_refl [simp]: "forward m m"
  by (simp add: forward_def newer_irrefl)

lemma forward_trans: "forward m m' \<Longrightarrow> forward m' m'' \<Longrightarrow> forward m m''"
  unfolding forward_def using not_newer_trans by meson

lemma forward_same: "(\<And>key. nul_free key \<Longrightarrow> view m' key = view m key) \<Longrightarrow> forward m m'"
  by (simp add: forward_def newer_irrefl)

lemma owned_id_ok:
  assumes "owned own m" and "admissible own it"
  shows "id_ok m it"
proof -
  have "own (ID it) = (key, ts)" if "nul_free key" "m (ViewEntryKey key ts (ID it)) \<noteq> None" for key ts
    using assms(1) that unfolding owned_def by blast
  moreover have "own (ID it) = (Key x, Timestamp x)" if "live m (ID it) = Some x" for x
    using assms(1) that unfolding owned_def by blast
  ultimately show ?thesis using assms(2) by (simp add: admissible_def id_ok_def)
qed

lemma admissible_writable: "owned own m \<Longrightarrow> admissible own it \<Longrightarrow> writable m it"
  using owned_id_ok by (simp add: writable_def admissible_def)

text \<open>The visible version of any key has another ID than an item that does not replace it.\<close>

lemma winner_other_ID:
  assumes "wf m" and "owned own m" and "admissible own it"
    and "\<And>e. view m (Key it) = Some e \<Longrightarrow> ID e \<noteq> ID it"
    and "nul_free key" and "view m key = Some w"
  shows "ID w \<noteq> ID it"
proof
  assume eq: "ID w = ID it"
  have "live m (ID w) = Some w" "Key w = key" using view_live [OF assms(1,5,6)] by auto
  then have "Key w = Key it" using assms(2,3) eq by (auto simp: owned_def admissible_def)
  then show False using assms(4,6) eq \<open>Key w = key\<close> by auto
qed

lemma queue_key_ID:
  assumes "CHR ''%'' \<notin> set u" and "CHR ''%'' \<notin> set u'"
    and "QueueKey (QueueID t u k) = QueueKey (QueueID t' u' k')"
  shows "u = u'"
  using assms split_at_percent [OF assms(1,2), of k k'] by (simp add: key_simps QueueID_inject)

lemma cursor_wf_submap: "cursor_wf m peer \<Longrightarrow> m' \<subseteq>\<^sub>m m \<Longrightarrow> cursor_wf m' peer"
  by (cases "m' (LastSyncOutKey peer)")
    (auto simp: cursor_wf_def cursor_of_def cursor_ok_def map_le_def dest: bspec [of _ _ "LastSyncOutKey peer"])

text \<open>Removing keys other than those of visible versions.\<close>

lemma content_remove:
  assumes "content_ok own m" and "m' \<subseteq>\<^sub>m m"
    and "\<And>key w. nul_free key \<Longrightarrow> view m key = Some w \<Longrightarrow> m' (ValueKey (ID w)) = m (ValueKey (ID w)) \<and>
      m' (ViewEntryKey key (Timestamp w) (ID w)) = m (ViewEntryKey key (Timestamp w) (ID w)) \<and>
      m' (QueueKey (QueueID (WriteTimestamp w) (ID w) (Key w))) = m (QueueKey (QueueID (WriteTimestamp w) (ID w) (Key w)))"
  shows "content_ok own m'" and "forward m m'"
proof -
  have c: "wf m" "owned own m" "winners_queued m" "\<And>peer. cursor_wf m peer"
    using assms(1) by (auto simp: content_ok_def)
  have v: "view m' key = view m key" if "nul_free key" for key
    using view_submap [OF c(1) assms(2) that] assms(3) [OF that] by blast
  have sub: "m k \<noteq> None" if "m' k \<noteq> None" for k
    using assms(2) that by (metis domIff map_le_def)
  have "owned own m'" using c(2) live_submap [OF assms(2)] sub unfolding owned_def by blast
  moreover have "winners_queued m'"
    using c(3) v assms(3) by (auto simp: winners_queued_def queued_def live_def)
  ultimately show "content_ok own m'"
    using wf_submap [OF c(1) assms(2)] cursor_wf_submap [OF c(4) assms(2)] by (simp add: content_ok_def)
  show "forward m m'" using v by (rule forward_same)
qed

lemma content_puts:
  assumes "content_ok own m" and "admissible own w"
    and other: "\<And>e. view m (Key w) = Some e \<Longrightarrow> ID e \<noteq> ID w"
  shows "content_ok own (puts m w)" and "forward m (puts m w)"
proof -
  have c: "wf m" "owned own m" "winners_queued m" "\<And>peer. cursor_wf m peer"
    using assms(1) by (auto simp: content_ok_def)
  have w: "valid_item w" "nul_free (Key w)" "CHR ''%'' \<notin> set (ID w)" "own (ID w) = (Key w, Timestamp w)"
    using assms(2) by (auto simp: admissible_def)
  have wr: "writable m w" using admissible_writable [OF c(2) assms(2)] .
  note vp = view_puts [OF c(1) wr _ other]
  have "owned own (puts m w)"
    using c(2) w by (auto simp: owned_def live_puts puts_entry split: if_splits)
  moreover have "queued (puts m w) e" if e: "nul_free key" "view (puts m w) key = Some e" for key e
  proof (cases "e = w")
    case True
    then show ?thesis using w(1) by (simp add: queued_def live_puts) (simp add: puts_def key_simps)
  next
    case False
    then have ve: "view m key = Some e" using vp e by (cases "view m key") (auto split: if_splits)
    have q: "queued m e" using c(3) ve e(1) by (auto simp: winners_queued_def)
    have ne: "ID e \<noteq> ID w" by (rule winner_other_ID [OF c(1,2) assms(2) other e(1) ve])
    have "CHR ''%'' \<notin> set (ID e)" using c(2) q by (auto simp: owned_def queued_def)
    then have "QueueKey (QueueID t (ID e) k) \<noteq> QueueKey (QueueID t' (ID w) k')" for t k t' k'
      using queue_key_ID w(3) ne by blast
    then show ?thesis using q ne w(1) by (simp add: queued_def live_puts) (simp add: puts_def key_simps)
  qed
  moreover have "cursor_wf (puts m w) peer" for peer
    using c(4) [of peer] by (simp add: cursor_wf_def cursor_of_def puts_def key_simps)
  ultimately show "content_ok own (puts m w)"
    using wf_puts [OF c(1) wr] by (auto simp: content_ok_def winners_queued_def)
  show "forward m (puts m w)"
    unfolding forward_def
  proof (intro allI impI)
    fix key e assume e: "nul_free key" "view m key = Some e"
    then show "\<exists>w'. view (puts m w) key = Some w' \<and> \<not> newer e w'"
      using vp [OF e(1)] newer_asym by (auto simp: newer_irrefl)
  qed
qed

lemma content_unputs:
  assumes "content_ok own m" and "admissible own w"
    and other: "\<And>e. view m (Key w) = Some e \<Longrightarrow> ID e \<noteq> ID w"
  shows "content_ok own (unputs m w)" and "forward m (unputs m w)"
proof -
  have c: "wf m" "owned own m" using assms(1) by (auto simp: content_ok_def)
  have w: "nul_free (Key w)" "CHR ''%'' \<notin> set (ID w)" using assms(2) by (auto simp: admissible_def)
  have sub: "unputs m w \<subseteq>\<^sub>m m" by (auto simp: unputs_def map_le_def)
  have keep: "unputs m w (ValueKey (ID e)) = m (ValueKey (ID e)) \<and>
      unputs m w (ViewEntryKey key (Timestamp e) (ID e)) = m (ViewEntryKey key (Timestamp e) (ID e)) \<and>
      unputs m w (QueueKey (QueueID (WriteTimestamp e) (ID e) (Key e))) = m (QueueKey (QueueID (WriteTimestamp e) (ID e) (Key e)))"
    if e: "nul_free key" "view m key = Some e" for key e
  proof -
    have ne: "ID e \<noteq> ID w" by (rule winner_other_ID [OF c assms(2) other e])
    have "CHR ''%'' \<notin> set (ID e)" using c view_live(1) [OF c(1) e] by (auto simp: owned_def)
    then have "QueueKey (QueueID t (ID e) k) \<noteq> QueueKey (QueueID t' (ID w) k')" for t k t' k'
      using queue_key_ID w(2) ne by blast
    then show ?thesis using ne w(1) e(1) by (simp add: unputs_def key_simps)
  qed
  show "content_ok own (unputs m w)" and "forward m (unputs m w)"
    by (rule content_remove [OF assms(1) sub keep]; assumption)+
qed

lemma content_invisible:
  assumes "content_ok own m"
  shows "content_ok own (m(LockKey k := v))" and "forward m (m(LockKey k := v))"
    and "cursor_ok c \<Longrightarrow> in_i64 c \<Longrightarrow> content_ok own (m(LastSyncOutKey p \<mapsto> marshal_int64 c))"
    and "forward m (m(LastSyncOutKey p \<mapsto> marshal_int64 c))"
proof -
  have fin: "finite (dom m)" using assms wf_finite by (auto simp: content_ok_def)
  note sd = same_data_upd(1) [of m k v] same_data_upd(3) [of m p "Some (marshal_int64 c)"]
  have base: "LockKey k \<noteq> ViewEntryKey x y z" "LastSyncOutKey k \<noteq> ViewEntryKey x y z" for k x y z
    by (simp_all add: key_simps)
  show "forward m (m(LockKey k := v))" "forward m (m(LastSyncOutKey p \<mapsto> marshal_int64 c))"
    using same_data_view [OF sd(1)] same_data_view [OF sd(2)] by (auto intro!: forward_same)
  show "content_ok own (m(LockKey k := v))"
    using assms same_data_wf [OF sd(1)] same_data_live [OF sd(1)] same_data_view [OF sd(1)] fin
    by (auto simp: content_ok_def owned_def winners_queued_def queued_def cursor_wf_def cursor_of_def key_simps split: if_splits)
  show "content_ok own (m(LastSyncOutKey p \<mapsto> marshal_int64 c))" if "cursor_ok c" "in_i64 c"
    using assms same_data_wf [OF sd(2)] same_data_live [OF sd(2)] same_data_view [OF sd(2)] fin that
    by (auto simp: content_ok_def owned_def winners_queued_def queued_def cursor_wf_def cursor_of_def key_simps split: if_splits)
qed

lemma content_setItem_abs:
  assumes "content_ok own m" and "admissible own it" and "benign (preSetItems s)"
  shows "content_ok own (snd (setItem_abs s it m))" and "forward m (snd (setItem_abs s it m))"
proof -
  let ?w = "written s it (write_time s)"
  have w: "admissible own ?w" "Key ?w = Key it" "ID ?w = ID it"
    using assms(2,3) write_time_range [of s] by (auto simp: admissible_def written_fields)
  obtain r m' where rm: "setItem_abs s it m = (r, m')" by fastforce
  have other: "ID e \<noteq> ID ?w" if "\<not> blocked m it" "view m (Key ?w) = Some e" for e
    using not_blocked_ID that w by auto
  have "content_ok own m' \<and> forward m m'"
    using rm content_puts [OF assms(1) w(1) other] content_unputs [OF assms(1) w(1) other] assms(1)
    by (auto elim!: setItem_abs_cases)
  then show "content_ok own (snd (setItem_abs s it m))" and "forward m (snd (setItem_abs s it m))"
    by (simp_all add: rm)
qed

section \<open>The engine\<close>

definition engine_ok ::
  "(string \<Rightarrow> string \<times> int) \<Rightarrow> ('s \<Rightarrow> bool) \<Rightarrow> ('s \<Rightarrow> (string \<rightharpoonup> string)) \<Rightarrow> ('s, 'x) StoreSync \<Rightarrow> bool" where
  "engine_ok own I A s \<longleftrightarrow> I (store s) \<and> content_ok own (A (store s)) \<and> benign (preSetItems s) \<and> postSyncOuts s = []"

definition progress ::
  "(string \<Rightarrow> string \<times> int) \<Rightarrow> ('s \<Rightarrow> bool) \<Rightarrow> ('s \<Rightarrow> (string \<rightharpoonup> string)) \<Rightarrow> ('s, 'x) StoreSync \<Rightarrow> ('s, 'x) StoreSync \<Rightarrow> bool" where
  "progress own I A s s' \<longleftrightarrow> engine_ok own I A s' \<and> forward (A (store s)) (A (store s'))"

lemma progress_trans: "progress own I A s s' \<Longrightarrow> progress own I A s' s'' \<Longrightarrow> progress own I A s s''"
  using forward_trans by (auto simp: progress_def)

lemma progress_evolves:
  assumes "engine_ok own I A s" and "evolves I A m s s'"
    and "content_ok own m" and "forward (A (store s)) m"
  shows "progress own I A s s'"
  using assms evolves_store [OF assms(2)] evolves_config [OF assms(2)] by (simp add: progress_def engine_ok_def)

lemma progress_same:
  assumes "engine_ok own I A s" and "evolves I A (A (store s)) s s'"
  shows "progress own I A s s'"
  using progress_evolves [OF assms] assms(1) by (simp add: engine_ok_def)

lemma progress_reads: "engine_ok own I A s \<Longrightarrow> reads I A s s' \<Longrightarrow> progress own I A s s'"
  using progress_same reads_evolves by blast

lemma engine_okD:
  assumes "engine_ok own I A s"
  shows "I (store s)" "content_ok own (A (store s))" "wf (A (store s))" "decodable (A (store s))"
    "owned own (A (store s))" "cursor_wf (A (store s)) peer" "benign (preSetItems s)" "postSyncOuts s = []"
  using assms wf_decodable by (auto simp: engine_ok_def content_ok_def)

lemma engine_ok_hook [simp]: "engine_ok own I A (s\<lparr>hookState := x\<rparr>) = engine_ok own I A s"
  by (simp add: engine_ok_def)

lemma admissible_tombstone:
  "admissible own (fresh_item [] key [] s) \<Longrightarrow> utf8_valid app \<Longrightarrow> admissible own (tombstone app key s)"
  by (simp add: admissible_def tombstone_def fresh_item_def zeroItem_def valid_item_def)

context kv_store
begin

lemma progress_getItem:
  assumes "engine_ok own inv abs s"
  shows "progress own inv abs s (snd (getItem S key s))"
proof -
  obtain s' where "getItem S key s = (view_result (view (abs (store s)) key), s')" "reads inv abs s s'"
    using getItem_spec engine_okD(1,4) [OF assms] by blast
  then show ?thesis using progress_reads [OF assms] by simp
qed

lemma progress_setItem:
  assumes "engine_ok own inv abs s" and "admissible own it"
  shows "progress own inv abs s (snd (setItem S it (Some notifyListeners) s))"
  using progress_evolves [OF assms(1) setItem_result(2) [OF engine_okD(1,4,7) [OF assms(1)]]]
    content_setItem_abs [OF engine_okD(2) [OF assms(1)] assms(2) engine_okD(7) [OF assms(1)]]
  by blast

lemma progress_stamped: "engine_ok own inv abs s \<Longrightarrow> progress own inv abs s (stamped s)"
  using progress_same evolves_stamped engine_okD(1) by blast

lemma progress_SetItem:
  assumes "engine_ok own inv abs s" and "admissible own (fresh_item app key value s)"
  shows "progress own inv abs s (snd (SetItem S app key value s))"
proof -
  let ?it = "fresh_item app key value s"
  have s: "progress own inv abs s (stamped s)" using progress_stamped [OF assms(1)] .
  have "snd (SetItem S app key value s) = snd (setItem S ?it (Some notifyListeners) (stamped s))"
    by (simp add: SetItem_def time_now_def uuid_new_def stamped_def fresh_item_def split: prod.splits sum.splits)
  then show ?thesis
    using progress_trans [OF s progress_setItem [of own "stamped s", OF _ assms(2)]] s by (simp add: progress_def)
qed

lemma progress_DeleteSync:
  assumes "engine_ok own inv abs s" and "admissible own (fresh_item [] key [] s)"
  shows "progress own inv abs s (snd (DeleteSync S key s))"
proof -
  obtain r s1 where g: "getItem S key s = (r, s1)" by fastforce
  have p1: "progress own inv abs s s1" using progress_getItem [OF assms(1), of key] g by simp
  show ?thesis
  proof (cases "\<exists>e. r = Inr e \<and> \<not> Deleted e")
    case False
    then have "snd (DeleteSync S key s) = s1" using g by (auto simp: DeleteSync_def split: sum.split)
    then show ?thesis using p1 by simp
  next
    case True
    then obtain e where e: "r = Inr e" "\<not> Deleted e" by blast
    obtain s1' where g': "getItem S key s = (view_result (view (abs (store s)) key), s1')" "reads inv abs s s1'"
      using getItem_spec engine_okD(1,4) [OF assms(1)] by blast
    have rd: "reads inv abs s s1" "view (abs (store s)) key = Some e"
      using g g' e by (auto simp: view_result_def split: option.splits)
    have "nul_free key" using assms(2) by (simp add: admissible_def)
    then have "utf8_valid (App e)"
      using wf_live_valid [OF engine_okD(3) [OF assms(1)] view_live(1)] engine_okD(3) [OF assms(1)] rd(2)
      by (auto simp: valid_item_def)
    then have ad: "admissible own (tombstone (App e) key s1)"
      using admissible_tombstone [OF assms(2)] setItem_abs_cong(3) [OF rd(1)] by simp
    have "snd (DeleteSync S key s) = snd (setItem S (tombstone (App e) key s1) (Some notifyListeners) (stamped s1))"
      using g e by (simp add: DeleteSync_def time_now_def uuid_new_def stamped_def tombstone_def fresh_item_def zeroItem_def)
    moreover have p2: "progress own inv abs s (stamped s1)"
      using progress_trans [OF p1 progress_stamped] p1 by (simp add: progress_def)
    ultimately show ?thesis
      using progress_trans [OF p2 progress_setItem [OF _ ad]] p2 by (simp add: progress_def)
  qed
qed

lemma progress_claim_write:
  assumes "engine_ok own inv abs s" and "admissible own it" and "view (abs (store s)) (Key it) = None"
  shows "progress own inv abs s (snd (claim_write S it s))"
proof -
  let ?m = "abs (store s)" and ?w = "claimed s it"
  have w: "admissible own ?w" "view ?m (Key ?w) = None" "Key ?w = Key it"
    using assms(2,3) i64_range by (auto simp: claimed_def admissible_def valid_item_def)
  note ok = engine_okD(2) [OF assms(1)]
  have p: "content_ok own (puts ?m ?w)" "forward ?m (puts ?m ?w)" "content_ok own (unputs ?m ?w)" "forward ?m (unputs ?m ?w)"
    using content_puts [OF ok w(1)] content_unputs [OF ok w(1)] w(2) by auto
  show ?thesis
    using progress_evolves [OF assms(1) claim_write_spec(2) [OF engine_okD(1) [OF assms(1)], of it]] p
      content_invisible(1) [OF p(3)] forward_trans [OF p(4) content_invisible(2) [OF p(3)]]
    by simp
qed

lemma progress_SetIfNotExistsSync:
  assumes "engine_ok own inv abs s" and "admissible own (fresh_item [] key value s)"
  shows "progress own inv abs s (snd (SetIfNotExistsSync S key value s))"
proof -
  let ?m = "abs (store s)" and ?it = "fresh_item [] key value s"
  obtain s1 where s1: "getItem S key s = (view_result (view ?m key), s1)" "reads inv abs s s1"
    using getItem_spec [OF engine_okD(1,4) [OF assms(1)]] .
  have p1: "progress own inv abs s s1" using progress_reads [OF assms(1) s1(2)] .
  have ok1: "engine_ok own inv abs s1" using p1 by (simp add: progress_def)
  have it1: "fresh_item [] key value s1 = ?it" using setItem_abs_cong(2) [OF s1(2)] .
  show ?thesis
  proof (cases "view ?m key")
    case (Some e)
    then have "snd (SetIfNotExistsSync S key value s) = (if Deleted e then snd (SetItem S [] key value s1) else s1)"
      using s1(1) by (auto simp: SetIfNotExistsSync_def Let_def split: prod.split sum.split)
    then show ?thesis
      using p1 progress_trans [OF p1 progress_SetItem [OF ok1]] assms(2) it1 by simp
  next
    case None
    define s2 where "s2 = (stamped s1)\<lparr>store := snd (sSetIfNotExists S (LockKey key) (ID ?it) (store s1))\<rparr>"
    have i1: "inv (store s1)" "abs (store s1) = ?m" using reads_inv [OF s1(2)] reads_abs [OF s1(2)] by auto
    have i2: "inv (store s2)" "abs (store s2) = (if ?m (LockKey key) = None then ?m(LockKey key \<mapsto> ID ?it) else ?m)"
      using i1 by (simp_all add: s2_def store_simps)
    have "evolves inv abs (abs (store s2)) s1 s2" using i2 by (simp add: evolves_def s2_def stamped_def)
    then have p2: "progress own inv abs s1 s2"
      using progress_evolves [OF ok1] i1 i2 content_invisible(1,2) [OF engine_okD(2) [OF assms(1)]] engine_okD(2) [OF assms(1)]
      by auto
    have v2: "view (abs (store s2)) key = None" using i2(2) None same_data_view [OF same_data_upd(1)] by simp
    have "SetIfNotExistsSync S key value s = (if ?m (LockKey key) = None then claim_write S ?it s2 else (Inr False, s2))"
      using s1(1) None i1 it1
      by (simp add: SetIfNotExistsSync_def Let_def time_now_def uuid_new_def call_def store_simps s2_def stamped_def
          fresh_item_def)
    moreover have "progress own inv abs s2 (snd (claim_write S ?it s2))"
      by (rule progress_claim_write [OF _ assms(2)]) (use p2 v2 in \<open>simp_all add: progress_def\<close>)
    ultimately show ?thesis using progress_trans [OF p1 p2] progress_trans by (simp split: if_split) blast
  qed
qed

lemma progress_refl: "engine_ok own inv abs s \<Longrightarrow> progress own inv abs s s"
  by (simp add: progress_def)

lemma progress_hook: "engine_ok own inv abs s \<Longrightarrow> progress own inv abs s (s\<lparr>hookState := x\<rparr>)"
  by (simp add: progress_def)

lemma progress_syncIn_items:
  assumes "engine_ok own inv abs s" and "\<forall>it \<in> set items. admissible own it"
  shows "progress own inv abs s (snd (syncIn_items S peer items s))"
  using assms
proof (induction items arbitrary: s)
  case Nil
  then show ?case by (simp add: progress_refl)
next
  case (Cons it items)
  obtain ok x where run: "run_in_filters (syncInFilters s) it peer (hookState s) = (ok, x)" by fastforce
  let ?s = "s\<lparr>hookState := x\<rparr>"
  have p0: "progress own inv abs s ?s" using progress_hook [OF Cons.prems(1)] .
  show ?case
  proof (cases ok)
    case False
    have "progress own inv abs s (notifyListeners it ?s)"
      using progress_hook [OF Cons.prems(1)] by (simp add: notifyListeners_def)
    moreover from this have "progress own inv abs (notifyListeners it ?s) (snd (syncIn_items S peer items (notifyListeners it ?s)))"
      using Cons.IH Cons.prems(2) by (simp add: progress_def)
    ultimately show ?thesis using progress_trans run False by (simp add: Let_def) blast
  next
    case True
    obtain r t where t: "setItem S it (Some notifyListeners) ?s = (r, t)" by fastforce
    have "progress own inv abs ?s t"
      using progress_setItem [of own ?s it] Cons.prems t by simp
    then have p1: "progress own inv abs s t" using progress_trans [OF p0] by blast
    then have "progress own inv abs t (snd (syncIn_items S peer items t))"
      using Cons.IH Cons.prems(2) by (simp add: progress_def)
    then have "progress own inv abs s (snd (syncIn_items S peer items t))" using progress_trans [OF p1] by blast
    then show ?thesis using run True t p1 by (cases r) (simp_all add: Let_def)
  qed
qed

lemma progress_SyncIn:
  assumes "engine_ok own inv abs s" and "\<forall>it \<in> set (Items p). admissible own it"
  shows "progress own inv abs s (snd (SyncIn S peer p s))"
  using progress_refl [OF assms(1)] progress_syncIn_items [OF assms] by (simp add: SyncIn_def)

lemma progress_SyncOut:
  assumes "engine_ok own inv abs s"
  shows "progress own inv abs s (snd (SyncOut S peer limit s))"
proof -
  obtain p s' where "SyncOut S peer limit s = (Inr p, s')" "evolves inv abs (abs (store s)) s s'"
    using SyncOut_spec engine_okD(1,4,6) [OF assms] by blast
  then show ?thesis using progress_same [OF assms] by simp
qed

lemma progress_AckSyncOut:
  assumes "engine_ok own inv abs s" and "cursor_ok (LastSyncTimestamp p)" and "in_i64 (LastSyncTimestamp p)"
  shows "progress own inv abs s (snd (AckSyncOut S peer p s))"
  by (rule progress_evolves [OF assms(1) AckSyncOut_spec(2) [OF engine_okD(1,8) [OF assms(1)]]])
    (use content_invisible(3,4) [OF engine_okD(2) [OF assms(1)]] assms(2,3) in auto)

lemma progress_Sync:
  assumes "engine_ok own inv abs s" and "\<forall>p it. incoming = Some p \<longrightarrow> it \<in> set (Items p) \<longrightarrow> admissible own it"
  shows "progress own inv abs s (snd (Sync S peer incoming s))"
proof -
  let ?in = "case incoming of None \<Rightarrow> [] | Some p \<Rightarrow> Items p"
  define X where "X = (if ?in = [] then (Inr (), s) else SyncIn S peer (the incoming) s)"
  obtain r t where t: "X = (r, t)" by fastforce
  have "progress own inv abs s (snd X)"
    using progress_refl [OF assms(1)] progress_SyncIn [OF assms(1)] assms(2)
    by (cases incoming) (auto simp: X_def)
  then have p1: "progress own inv abs s t" by (simp add: t)
  then have ok: "engine_ok own inv abs t" by (simp add: progress_def)
  obtain q u where u: "SyncOut S peer MaxSyncOutLimit t = (q, u)" by fastforce
  have p2: "progress own inv abs s u"
    using progress_trans [OF p1 progress_SyncOut [OF ok, of peer MaxSyncOutLimit]] u by simp
  then have "progress own inv abs s (u\<lparr>hookState := x\<rparr>)" for x
    using progress_trans progress_hook by (simp add: progress_def)
  then show ?thesis
    using t u p1 p2 unfolding Sync_def X_def by (auto simp: Let_def split: sum.split)
qed

lemma progress_resolveView:
  assumes "engine_ok own inv abs s"
  obtains r s' where "resolveView S pfx sa limit s = Some (Inr r, s')" "progress own inv abs s s'"
proof -
  have "viewPrefixBase @ pfx \<noteq> []" by (simp add: viewPrefixBase_def)
  from resolve_loop_spec [OF engine_okD(1,4) [OF assms] this refl] show thesis
    using that progress_reads [OF assms] unfolding resolveView_def by blast
qed

lemma progress_gcKey:
  assumes "engine_ok own inv abs s" and "nul_free key"
  obtains s' where "gcKey S key cid s = Some s'" "progress own inv abs s s'"
proof -
  let ?m = "abs (store s)"
  note ok = engine_okD(2) [OF assms(1)]
  obtain X s' where g: "gcKey S key cid s = Some s'" "evolves inv abs (remove_keys ?m X) s s'" "gc_keeps ?m X"
    using gcKey_spec [OF engine_okD(1,3) [OF assms(1)] assms(2)] by blast
  have keep: "remove_keys ?m X (ValueKey (ID w)) = ?m (ValueKey (ID w)) \<and>
      remove_keys ?m X (ViewEntryKey k (Timestamp w) (ID w)) = ?m (ViewEntryKey k (Timestamp w) (ID w)) \<and>
      remove_keys ?m X (QueueKey (QueueID (WriteTimestamp w) (ID w) (Key w))) = ?m (QueueKey (QueueID (WriteTimestamp w) (ID w) (Key w)))"
    if "nul_free k" "view ?m k = Some w" for k w
    using g(3) that ok by (auto simp: gc_keeps_def remove_keys_apply content_ok_def winners_queued_def queued_def)
  note c = content_remove [OF ok remove_keys_simps(4) keep]
  have "progress own inv abs s s'"
    by (rule progress_evolves [OF assms(1) g(2) c]; assumption)
  then show thesis using that g(1) by blast
qed

end

section \<open>Reachable states\<close>

text \<open>
  One step of the engine: a call of the API with any result, a turn of a GC worker, or a
  change of its listeners.  Written keys and values are valid UTF-8, keys have no NUL byte,
  and a new UUID is not in use for another version.
\<close>

inductive engine_step ::
  "'s Store \<Rightarrow> (string \<Rightarrow> string \<times> int) \<Rightarrow> ('s, 'x) StoreSync \<Rightarrow> ('s, 'x) StoreSync \<Rightarrow> bool"
  for S :: "'s Store" and own :: "string \<Rightarrow> string \<times> int" where
  do_Get: "GetSync S key s = (r, s') \<Longrightarrow> engine_step S own s s'"
| do_GetItem: "GetItem S key s = (r, s') \<Longrightarrow> engine_step S own s s'"
| do_List: "ListSync S args s = Some (r, s') \<Longrightarrow> engine_step S own s s'"
| do_ListItems: "ListItems S pfx sa limit s = Some (r, s') \<Longrightarrow> engine_step S own s s'"
| do_Set: "admissible own (fresh_item [] key value s) \<Longrightarrow> SetSync S key value s = (r, s') \<Longrightarrow> engine_step S own s s'"
| do_SetItem: "admissible own (fresh_item app key value s) \<Longrightarrow> SetItem S app key value s = (r, s') \<Longrightarrow>
    engine_step S own s s'"
| do_SetIfNotExists: "admissible own (fresh_item [] key value s) \<Longrightarrow> SetIfNotExistsSync S key value s = (c, s') \<Longrightarrow>
    engine_step S own s s'"
| do_Delete: "admissible own (fresh_item [] key [] s) \<Longrightarrow> DeleteSync S key s = (r, s') \<Longrightarrow> engine_step S own s s'"
| do_SyncIn: "\<forall>it \<in> set (Items p). admissible own it \<Longrightarrow> SyncIn S peer p s = (r, s') \<Longrightarrow> engine_step S own s s'"
| do_SyncOut: "SyncOut S peer limit s = (q, s') \<Longrightarrow> engine_step S own s s'"
| do_Ack: "cursor_ok (LastSyncTimestamp p) \<Longrightarrow> in_i64 (LastSyncTimestamp p) \<Longrightarrow> AckSyncOut S peer p s = (r, s') \<Longrightarrow>
    engine_step S own s s'"
| do_Sync: "\<forall>p it. incoming = Some p \<longrightarrow> it \<in> set (Items p) \<longrightarrow> admissible own it \<Longrightarrow>
    Sync S peer incoming s = (q, s') \<Longrightarrow> engine_step S own s s'"
| do_gc: "gcCh s = r # rs \<Longrightarrow> nul_free (gcrKey r) \<Longrightarrow> gcWorker S s = Some s' \<Longrightarrow> engine_step S own s s'"
| do_OnUpdate: "OnUpdate fn s = (n, s') \<Longrightarrow> engine_step S own s s'"
| do_unsubscribe: "engine_step S own s (unsubscribe n s)"
| do_Close: "CloseSync s = (r, s') \<Longrightarrow> engine_step S own s s'"

abbreviation engine_run ::
  "'s Store \<Rightarrow> (string \<Rightarrow> string \<times> int) \<Rightarrow> ('s, 'x) StoreSync \<Rightarrow> ('s, 'x) StoreSync \<Rightarrow> bool" where
  "engine_run S own \<equiv> (engine_step S own)\<^sup>*\<^sup>*"

lemma engine_ok_config [simp]:
  "engine_ok own I A (s\<lparr>listeners := ls\<rparr>) = engine_ok own I A s"
  "engine_ok own I A (s\<lparr>nextListenID := n\<rparr>) = engine_ok own I A s"
  "engine_ok own I A (s\<lparr>gcCh := g\<rparr>) = engine_ok own I A s"
  "engine_ok own I A (s\<lparr>done_closed := b\<rparr>) = engine_ok own I A s"
  by (simp_all add: engine_ok_def)

lemma snd_when:
  "snd (GetSync S key s) = snd (getItem S key s)" "snd (GetItem S key s) = snd (getItem S key s)"
  by (simp_all add: GetSync_def GetItem_def split: prod.split sum.split)

context kv_store
begin

lemma progress_ListSync:
  assumes "engine_ok own inv abs s" and "ListSync S args s = Some (r, s')"
  shows "progress own inv abs s s'"
proof -
  obtain x t where "resolveView S (Prefix args) (StartAfter args) (Limit args) s = Some (Inr x, t)" "progress own inv abs s t"
    using progress_resolveView [OF assms(1)] .
  then show ?thesis using assms(2) by (auto simp: ListSync_def Let_def)
qed

lemma progress_ListItems:
  assumes "engine_ok own inv abs s" and "ListItems S pfx sa limit s = Some (r, s')"
  shows "progress own inv abs s s'"
proof -
  obtain x t where "resolveView S pfx sa limit s = Some (Inr x, t)" "progress own inv abs s t"
    using progress_resolveView [OF assms(1)] .
  then show ?thesis using assms(2) by (auto simp: ListItems_def)
qed

lemma progress_gcWorker:
  assumes "engine_ok own inv abs s" and "gcCh s = r # rs" and "nul_free (gcrKey r)" and "gcWorker S s = Some s'"
  shows "progress own inv abs s s'"
proof -
  let ?s = "s\<lparr>gcCh := rs\<rparr>"
  obtain t where "gcKey S (gcrKey r) (gcrCurrentID r) ?s = Some t" "progress own inv abs ?s t"
    using progress_gcKey [of own ?s "gcrKey r"] assms(1,3) by auto
  then show ?thesis using assms by (auto simp: gcWorker_def progress_def split: if_splits)
qed

lemma engine_step_progress:
  assumes "engine_step S own s s'" and "engine_ok own inv abs s"
  shows "progress own inv abs s s'"
  using assms
proof (cases rule: engine_step.cases)
  case do_Get then show ?thesis using progress_getItem [OF assms(2)] snd_when(1) by (metis snd_conv)
next
  case do_GetItem then show ?thesis using progress_getItem [OF assms(2)] snd_when(2) by (metis snd_conv)
next
  case do_List then show ?thesis using progress_ListSync [OF assms(2)] by blast
next
  case do_ListItems then show ?thesis using progress_ListItems [OF assms(2)] by blast
next
  case do_Set then show ?thesis using progress_SetItem [OF assms(2)] unfolding SetSync_def by (metis snd_conv)
next
  case do_SetItem then show ?thesis using progress_SetItem [OF assms(2)] by (metis snd_conv)
next
  case do_SetIfNotExists then show ?thesis using progress_SetIfNotExistsSync [OF assms(2)] by (metis snd_conv)
next
  case do_Delete then show ?thesis using progress_DeleteSync [OF assms(2)] by (metis snd_conv)
next
  case (do_SyncIn p peer r) then show ?thesis using progress_SyncIn [OF assms(2), of p peer] by simp
next
  case do_SyncOut then show ?thesis using progress_SyncOut [OF assms(2)] by (metis snd_conv)
next
  case do_Ack then show ?thesis using progress_AckSyncOut [OF assms(2)] by (metis snd_conv)
next
  case (do_Sync incoming peer q) then show ?thesis using progress_Sync [OF assms(2), of incoming peer] by simp
next
  case do_gc then show ?thesis using progress_gcWorker [OF assms(2)] by blast
next
  case do_OnUpdate then show ?thesis using assms(2) by (auto simp: OnUpdate_def Let_def progress_def)
next
  case do_unsubscribe then show ?thesis using assms(2) by (simp add: unsubscribe_def progress_def)
next
  case do_Close then show ?thesis
    using assms(2) by (auto simp: CloseSync_def drainGC_def progress_def split: if_splits)
qed

lemma engine_run_progress:
  assumes "engine_run S own s s'" and "engine_ok own inv abs s"
  shows "progress own inv abs s s'"
  using assms
proof (induction rule: rtranclp_induct)
  case base
  then show ?case by (rule progress_refl)
next
  case (step t u)
  then show ?case using engine_step_progress progress_trans by (simp add: progress_def) blast
qed

end

lemma engine_ok_new:
  assumes "I st" and "A st = Map.empty"
  shows "engine_ok own I A (NewSync st offsets x clk us)"
  using assms
  by (simp add: engine_ok_def content_ok_def NewSync_def NewWithOptions_def WithTimeOffset_def Let_def owned_def
      winners_queued_def live_def cursor_wf_def cursor_of_def cursor_ok_def)

section \<open>A concrete run\<close>

definition blankOwn :: "string \<Rightarrow> string \<times> int" where
  "blankOwn u = (''k'', 1700000000000000001)"

lemma blank_admissible: "admissible blankOwn (fresh_item [] ''k'' ''z'' blank)"
  by (simp add: admissible_def fresh_item_def zeroItem_def valid_item_def nul_free_def utf8_valid_ascii in_i64_def
      blankOwn_def dec_no_percent)

lemma blank_SetSync:
  obtains s w where "SetSync memStore ''k'' ''z'' blank = (Inr (), s)" "view (mem_abs (store s)) ''k'' = Some w"
    "engine_step memStore blankOwn blank s"
proof -
  let ?it = "fresh_item [] ''k'' ''z'' blank"
  have "fst (setItem_abs (stamped blank) ?it (mem_abs NewMemory)) = Inr ()"
    by (simp add: setItem_abs_def Let_def blocked_def blank_store nul_free_def dec.simps in_i64_def write_time_def stamped_def)
  then obtain s where s: "SetItem memStore [] ''k'' ''z'' blank = (Inr (), s)"
    using mem.SetItem_spec [OF refl, of blank "[]" "''k''" "''z''"] blank_store
    by (fastforce simp: ignore_stale_def decodable_def)
  have nf: "nul_free ''k''" by (simp add: nul_free_def)
  have "ready blank (mem_abs (store blank)) ''k'' ''z''"
    by (simp add: ready_def blank_store nul_free_def utf8_valid_ascii in_i64_def dec.simps digit_def)
  from mem.SetItem_view(3) [OF _ _ _ this _ s nf] have "\<exists>w. view (mem_abs (store s)) ''k'' = Some w"
    by (simp add: blank_store)
  then show thesis using that s do_Set [OF blank_admissible] by (auto simp: SetSync_def)
qed

lemma blank_new: "blank = NewSync NewMemory [] () (clock blank) (uuids blank)"
  by (simp add: blank_def NewSync_def NewWithOptions_def WithTimeOffset_def)

section \<open>Properties\<close>

text \<open>C16. Whatever sequence of API calls, incoming payloads and GC turns an engine created on an
  empty store goes through, and whatever results they return, its content stays well formed:
  every stored value decodes to a valid item under its own ID, every view entry names one
  version of one key, and the cursor of every peer can be read back.\<close>

theorem reachable_well_formed:
  assumes "kv_store S I A" and "I st" and "A st = Map.empty"
    and "engine_run S own (NewSync st offsets x clk us) s"
  shows "I (store s) \<and> wf (A (store s)) \<and> (\<forall>peer. cursor_wf (A (store s)) peer)"
  using kv_store.engine_run_progress [OF assms(1,4) engine_ok_new [where I = I and A = A, OF assms(2,3)]]
  by (auto simp: progress_def engine_ok_def content_ok_def)

theorem reachable_well_formed_witness:
  "\<exists>s. SetSync memStore ''k'' ''z'' blank = (Inr (), s) \<and> wf (mem_abs (store s))"
proof -
  obtain s where s: "SetSync memStore ''k'' ''z'' blank = (Inr (), s)" "engine_step memStore blankOwn blank s"
    using blank_SetSync by blast
  have run: "engine_run memStore blankOwn (NewSync NewMemory [] () (clock blank) (uuids blank)) s"
    using s(2) blank_new by (metis r_into_rtranclp)
  show ?thesis using reachable_well_formed [OF mem.kv_store_axioms blank_store run] s(1) by blast
qed

text \<open>C15. In every reachable state the visible version of a key is queued for the peers, and no
  later step takes the key back: it stays visible or is replaced by a version that is not older.\<close>

theorem no_rollback:
  assumes "kv_store S I A" and "I st" and "A st = Map.empty"
    and "engine_run S own (NewSync st offsets x clk us) s" and "engine_run S own s s'"
    and "nul_free key" and "view (A (store s)) key = Some w"
  shows "queued (A (store s)) w \<and> (\<exists>w'. view (A (store s')) key = Some w' \<and> \<not> newer w w')"
proof -
  have ok: "engine_ok own I A s"
    using kv_store.engine_run_progress [OF assms(1,4) engine_ok_new [where I = I and A = A, OF assms(2,3)]]
    by (simp add: progress_def)
  then have "forward (A (store s)) (A (store s'))"
    using kv_store.engine_run_progress [OF assms(1,5) ok] by (simp add: progress_def)
  then show ?thesis using ok assms(6,7) by (auto simp: engine_ok_def content_ok_def winners_queued_def forward_def)
qed

theorem no_rollback_witness:
  "\<exists>s w. SetSync memStore ''k'' ''z'' blank = (Inr (), s) \<and> view (mem_abs (store s)) ''k'' = Some w \<and>
    queued (mem_abs (store s)) w"
proof -
  obtain s w where s: "SetSync memStore ''k'' ''z'' blank = (Inr (), s)" "view (mem_abs (store s)) ''k'' = Some w"
      "engine_step memStore blankOwn blank s"
    using blank_SetSync by blast
  have run: "engine_run memStore blankOwn (NewSync NewMemory [] () (clock blank) (uuids blank)) s"
    using s(3) blank_new by (metis r_into_rtranclp)
  have "nul_free ''k''" by (simp add: nul_free_def)
  then have "queued (mem_abs (store s)) w"
    using no_rollback [OF mem.kv_store_axioms blank_store run rtranclp.rtrancl_refl _ s(2)] by blast
  then show ?thesis using s by blast
qed

end
