(* ===== verification/Cache.thy ===== *)
theory Cache
  imports Memory Keys
begin

text \<open>
  The caching wrapper, \<open>src/sync/cache/main.go\<close>, over any store \<open>S\<close>.  The two Go maps are
  association lists.  Go evicts the entry that a randomised map iteration meets first; the
  model takes the position from the sequence \<open>picks\<close>, and nothing that is proved depends on
  it.  A method that holds no lock while it calls the store is split at that point
  (\<open>cache_fill\<close>, \<open>cache_fill_list\<close>), so that another call can be interleaved there.

  The main results: run alone, a cached store answers every sequence of operations like the
  bare store (\<open>run_cache_run_store\<close>), as long as list arguments contain no NUL byte; and
  the size of each map stays within the limit.
\<close>

section \<open>Model\<close>

definition DefaultMaxSize :: int where "DefaultMaxSize = 1000"

type_synonym getCacheEntry = "string result"
type_synonym listCacheEntry = "KeyValuePair list result"

record 's StoreCache =
  cStore :: 's
  maxSize :: int
  gets :: "(string \<times> getCacheEntry) list"
  lists :: "(string \<times> listCacheEntry) list"
  picks :: "nat \<Rightarrow> nat"
  picked :: nat

definition WithMaxSize :: "int \<Rightarrow> 's StoreCache \<Rightarrow> 's StoreCache" where
  "WithMaxSize n c = c\<lparr>maxSize := n\<rparr>"

definition NewCache :: "'s \<Rightarrow> ('s StoreCache \<Rightarrow> 's StoreCache) list \<Rightarrow> (nat \<Rightarrow> nat) \<Rightarrow> 's StoreCache" where
  "NewCache st opts ps = fold (\<lambda>opt c. opt c) opts
     \<lparr>cStore = st, maxSize = DefaultMaxSize, gets = [], lists = [], picks = ps, picked = 0\<rparr>"

definition CloseCache :: "'s StoreCache \<Rightarrow> (unit, 's StoreCache) outcome" where
  "CloseCache c = (Inr (), c)"

definition Unwrap :: "'s StoreCache \<Rightarrow> 's" where
  "Unwrap c = cStore c"

definition MaxSize :: "'s StoreCache \<Rightarrow> int" where
  "MaxSize c = maxSize c"

definition remove_nth :: "nat \<Rightarrow> 'a list \<Rightarrow> 'a list" where
  "remove_nth i xs = take i xs @ drop (Suc i) xs"

definition evictOneGet :: "'s StoreCache \<Rightarrow> 's StoreCache" where
  "evictOneGet c = (if gets c = [] then c
     else c\<lparr>gets := remove_nth (picks c (picked c) mod length (gets c)) (gets c), picked := Suc (picked c)\<rparr>)"

definition evictOneList :: "'s StoreCache \<Rightarrow> 's StoreCache" where
  "evictOneList c = (if lists c = [] then c
     else c\<lparr>lists := remove_nth (picks c (picked c) mod length (lists c)) (lists c), picked := Suc (picked c)\<rparr>)"

definition listCacheKey :: "ListArgs \<Rightarrow> string" where
  "listCacheKey args = Prefix args @ NUL # StartAfter args @ NUL # itoa (Limit args)"

definition parseListCacheKey :: "string \<Rightarrow> string \<times> string" where
  "parseListCacheKey k = (if NUL \<in> set k then (upto_char NUL k, after_char NUL k) else (k, []))"

definition invalidateListsLocked :: "string \<Rightarrow> 's StoreCache \<Rightarrow> 's StoreCache" where
  "invalidateListsLocked key c = c\<lparr>lists := filter (\<lambda>(k, entry).
     \<not> (prefix (fst (parseListCacheKey k)) key \<or>
        (case entry of Inl _ \<Rightarrow> False | Inr result \<Rightarrow> \<exists>kv \<in> set result. kvKey kv = key))) (lists c)\<rparr>"

definition invalidateKey :: "string \<Rightarrow> 's StoreCache \<Rightarrow> 's StoreCache" where
  "invalidateKey key c = invalidateListsLocked key (c\<lparr>gets := AList.delete key (gets c)\<rparr>)"

definition InvalidateAll :: "'s StoreCache \<Rightarrow> 's StoreCache" where
  "InvalidateAll c = c\<lparr>gets := [], lists := []\<rparr>"

definition InvalidateKey :: "string \<Rightarrow> 's StoreCache \<Rightarrow> 's StoreCache" where
  "InvalidateKey key c = invalidateKey key c"

text \<open>The second critical section of \<open>Get\<close>, after the store has answered \<open>r\<close>.\<close>

definition cache_fill :: "string \<Rightarrow> getCacheEntry \<Rightarrow> 's StoreCache \<Rightarrow> 's StoreCache" where
  "cache_fill key r c =
     (let c = (if maxSize c > 0 \<and> int (length (gets c)) \<ge> maxSize c then evictOneGet c else c)
      in c\<lparr>gets := AList.update key r (gets c)\<rparr>)"

definition cGet :: "'s Store \<Rightarrow> string \<Rightarrow> 's StoreCache \<Rightarrow> (string, 's StoreCache) outcome" where
  "cGet S key c =
     (case map_of (gets c) key of
        Some r \<Rightarrow> (r, c)
      | None \<Rightarrow>
          (case sGet S key (cStore c) of (r, st) \<Rightarrow> (r, cache_fill key r (c\<lparr>cStore := st\<rparr>))))"

definition cSet :: "'s Store \<Rightarrow> string \<Rightarrow> string \<Rightarrow> 's StoreCache \<Rightarrow> (unit, 's StoreCache) outcome" where
  "cSet S key value c =
     (case sSet S key value (cStore c) of
        (Inl e, st) \<Rightarrow> (Inl e, c\<lparr>cStore := st\<rparr>)
      | (Inr _, st) \<Rightarrow> (Inr (), invalidateKey key (c\<lparr>cStore := st\<rparr>)))"

definition cSetIfNotExists :: "'s Store \<Rightarrow> string \<Rightarrow> string \<Rightarrow> 's StoreCache \<Rightarrow> (bool, 's StoreCache) outcome" where
  "cSetIfNotExists S key value c =
     (case sSetIfNotExists S key value (cStore c) of
        (Inl e, st) \<Rightarrow> (Inl e, c\<lparr>cStore := st\<rparr>)
      | (Inr created, st) \<Rightarrow>
          (Inr created, if created then invalidateKey key (c\<lparr>cStore := st\<rparr>) else c\<lparr>cStore := st\<rparr>))"

definition cDelete :: "'s Store \<Rightarrow> string \<Rightarrow> 's StoreCache \<Rightarrow> (unit, 's StoreCache) outcome" where
  "cDelete S key c =
     (case sDelete S key (cStore c) of
        (Inl e, st) \<Rightarrow> (Inl e, c\<lparr>cStore := st\<rparr>)
      | (Inr _, st) \<Rightarrow> (Inr (), invalidateKey key (c\<lparr>cStore := st\<rparr>)))"

definition cache_fill_list :: "string \<Rightarrow> listCacheEntry \<Rightarrow> 's StoreCache \<Rightarrow> 's StoreCache" where
  "cache_fill_list ck r c =
     (let c = (if maxSize c > 0 \<and> int (length (lists c)) \<ge> maxSize c then evictOneList c else c)
      in c\<lparr>lists := AList.update ck r (lists c)\<rparr>)"

definition cList :: "'s Store \<Rightarrow> ListArgs \<Rightarrow> 's StoreCache \<Rightarrow> (KeyValuePair list, 's StoreCache) outcome" where
  "cList S args c =
     (let ck = listCacheKey args
      in (case map_of (lists c) ck of
            Some r \<Rightarrow> (r, c)
          | None \<Rightarrow>
              (case sList S args (cStore c) of (r, st) \<Rightarrow> (r, cache_fill_list ck r (c\<lparr>cStore := st\<rparr>)))))"

definition cacheStore :: "'s Store \<Rightarrow> 's StoreCache Store" where
  "cacheStore S = \<lparr>sGet = cGet S, sSet = cSet S, sSetIfNotExists = cSetIfNotExists S,
     sDelete = cDelete S, sList = cList S, sClose = CloseCache\<rparr>"

section \<open>Cache keys\<close>

definition clean_args :: "ListArgs \<Rightarrow> bool" where
  "clean_args a \<longleftrightarrow> nul_free (Prefix a) \<and> nul_free (StartAfter a)"

lemma itoa_inject [simp]: "itoa x = itoa y \<longleftrightarrow> x = y"
proof -
  have "CHR ''-'' # s \<noteq> dec n" for s n using dec_not_minus [of n] by (metis prefix_def append_Cons append_Nil)
  then show ?thesis by (auto simp: itoa_def dest: sym)
qed

lemma listCacheKey_inject:
  assumes "clean_args a" and "clean_args b"
  shows "listCacheKey a = listCacheKey b \<longleftrightarrow> a = b"
  using assms nul_free_split [of "Prefix a" "Prefix b"] nul_free_split [of "StartAfter a" "StartAfter b"]
  by (cases a; cases b) (auto simp: clean_args_def listCacheKey_def)

text \<open>The prefix read back from a cache key is never longer than the one that was put in.\<close>

lemma parse_listCacheKey: "prefix (fst (parseListCacheKey (listCacheKey a))) (Prefix a)"
proof -
  have "prefix (takeWhile (\<lambda>x. x \<noteq> NUL) (p @ NUL # r)) p" for p r
    by (induction p) auto
  then show ?thesis by (simp add: parseListCacheKey_def listCacheKey_def upto_char_def)
qed

section \<open>Coherence\<close>

definition get_answer :: "(string \<rightharpoonup> string) \<Rightarrow> string \<Rightarrow> string result" where
  "get_answer m k = (case m k of None \<Rightarrow> Inl ErrNotFound | Some v \<Rightarrow> Inr v)"

definition coherent :: "(string \<rightharpoonup> string) \<Rightarrow> 's StoreCache \<Rightarrow> bool" where
  "coherent m c \<longleftrightarrow>
     (\<forall>(k, r) \<in> set (gets c). r = get_answer m k) \<and>
     (\<forall>(ck, r) \<in> set (lists c). \<exists>a. clean_args a \<and> ck = listCacheKey a \<and> r = Inr (list_spec m a))"

definition bounded :: "'s StoreCache \<Rightarrow> bool" where
  "bounded c \<longleftrightarrow> maxSize c > 0 \<longrightarrow> int (length (gets c)) \<le> maxSize c \<and> int (length (lists c)) \<le> maxSize c"

lemma set_remove_nth: "set (remove_nth i xs) \<subseteq> set xs"
  by (auto simp: remove_nth_def dest: in_set_takeD in_set_dropD)

lemma length_remove_nth: "i < length xs \<Longrightarrow> length (remove_nth i xs) = length xs - 1"
  by (simp add: remove_nth_def)

lemma evict_sub:
  "set (gets (evictOneGet c)) \<subseteq> set (gets c)" "lists (evictOneGet c) = lists c"
  "set (lists (evictOneList c)) \<subseteq> set (lists c)" "gets (evictOneList c) = gets c"
  "maxSize (evictOneGet c) = maxSize c" "maxSize (evictOneList c) = maxSize c"
  "cStore (evictOneGet c) = cStore c" "cStore (evictOneList c) = cStore c"
  by (simp_all add: evictOneGet_def evictOneList_def set_remove_nth)

lemma evict_length:
  "gets c \<noteq> [] \<Longrightarrow> length (gets (evictOneGet c)) = length (gets c) - 1"
  "lists c \<noteq> [] \<Longrightarrow> length (lists (evictOneList c)) = length (lists c) - 1"
  by (simp_all add: evictOneGet_def evictOneList_def length_remove_nth)

lemma set_AList_update: "set (AList.update k v xs) \<subseteq> insert (k, v) (set xs)"
  by (induction xs) auto

lemma length_AList_update: "length (AList.update k v xs) \<le> Suc (length xs)"
  by (induction xs) auto

lemma set_AList_delete: "set (AList.delete k xs) = {(k', v) \<in> set xs. k' \<noteq> k}"
  by (auto simp: AList.delete_eq)

lemma coherent_sub:
  assumes "coherent m c" and "set (gets c') \<subseteq> insert (k, get_answer m k) (set (gets c))" and "set (lists c') \<subseteq> set (lists c)"
  shows "coherent m c'"
  using assms unfolding coherent_def by blast

lemma fill_fields:
  "cStore (cache_fill k r c) = cStore c" "maxSize (cache_fill k r c) = maxSize c"
  "cStore (cache_fill_list ck l c) = cStore c" "maxSize (cache_fill_list ck l c) = maxSize c"
  by (simp_all add: cache_fill_def cache_fill_list_def Let_def evict_sub)

lemma fill_coherent:
  assumes "coherent m c"
  shows "coherent m (cache_fill k (get_answer m k) c)"
proof -
  let ?c = "if maxSize c > 0 \<and> int (length (gets c)) \<ge> maxSize c then evictOneGet c else c"
  have c: "set (gets ?c) \<subseteq> set (gets c)" "lists ?c = lists c" using evict_sub by auto
  show "coherent m (cache_fill k (get_answer m k) c)"
    by (rule coherent_sub [OF assms, of _ k])
      (use c set_AList_update [of k "get_answer m k" "gets ?c"] in \<open>auto simp: cache_fill_def Let_def split: if_splits\<close>)
qed

lemma fill_list_coherent:
  assumes "coherent m c" and "clean_args a"
  shows "coherent m (cache_fill_list (listCacheKey a) (Inr (list_spec m a)) c)"
proof -
  let ?c = "if maxSize c > 0 \<and> int (length (lists c)) \<ge> maxSize c then evictOneList c else c"
  let ?f = "cache_fill_list (listCacheKey a) (Inr (list_spec m a)) c"
  have "set (lists ?f) \<subseteq> insert (listCacheKey a, Inr (list_spec m a)) (set (lists c))"
    using set_AList_update [of "listCacheKey a" "Inr (list_spec m a)" "lists ?c"] evict_sub(3) [of c]
    by (auto simp: cache_fill_list_def Let_def split: if_splits)
  moreover have "gets ?f = gets c" by (simp add: cache_fill_list_def Let_def evict_sub)
  ultimately show "coherent m ?f" using assms unfolding coherent_def by fastforce
qed

lemma fill_bounded:
  assumes "bounded c"
  shows "bounded (cache_fill k r c)" and "bounded (cache_fill_list ck l c)"
proof -
  show "bounded (cache_fill k r c)"
    using assms evict_length(1) [of c] length_AList_update [of k r "gets c"] length_AList_update [of k r "gets (evictOneGet c)"]
    by (cases "gets c = []") (auto simp: bounded_def cache_fill_def Let_def evict_sub)
  show "bounded (cache_fill_list ck l c)"
    using assms evict_length(2) [of c] length_AList_update [of ck l "lists c"] length_AList_update [of ck l "lists (evictOneList c)"]
    by (cases "lists c = []") (auto simp: bounded_def cache_fill_list_def Let_def evict_sub)
qed

lemma invalidate_coherent:
  assumes "coherent m c" and "\<And>k. k \<noteq> key \<Longrightarrow> m' k = m k"
  shows "coherent m' (invalidateKey key c)"
proof -
  have "r = get_answer m' k" if "(k, r) \<in> set (gets (invalidateKey key c))" for k r
    using that assms by (auto simp: coherent_def invalidateKey_def invalidateListsLocked_def set_AList_delete get_answer_def)
  moreover have "\<exists>a. clean_args a \<and> ck = listCacheKey a \<and> r = Inr (list_spec m' a)"
    if ck: "(ck, r) \<in> set (lists (invalidateKey key c))" for ck r
  proof -
    have "(ck, r) \<in> set (lists c)" and np: "\<not> prefix (fst (parseListCacheKey ck)) key"
      using ck by (auto simp: invalidateKey_def invalidateListsLocked_def)
    then obtain a where a: "clean_args a" "ck = listCacheKey a" "r = Inr (list_spec m a)"
      using assms(1) by (auto simp: coherent_def)
    have "\<not> prefix (Prefix a) key" using np parse_listCacheKey [of a] a(2) prefix_order.trans by blast
    then have "list_spec m' a = list_spec m a"
      using assms(2) by (intro list_spec_agree) (auto simp: in_range_def)
    then show ?thesis using a by auto
  qed
  ultimately show ?thesis by (auto simp: coherent_def)
qed

lemma invalidate_fields:
  "cStore (invalidateKey k c) = cStore c" "maxSize (invalidateKey k c) = maxSize c"
  by (simp_all add: invalidateKey_def invalidateListsLocked_def)

lemma invalidate_length:
  "length (gets (invalidateKey k c)) \<le> length (gets c)" "length (lists (invalidateKey k c)) \<le> length (lists c)"
  by (simp_all add: invalidateKey_def invalidateListsLocked_def AList.delete_eq)

lemma invalidate_bounded: "bounded c \<Longrightarrow> bounded (invalidateKey k c)"
  using invalidate_length [of k c] by (auto simp: bounded_def invalidate_fields)

section \<open>A cached store behaves like the store\<close>

datatype cache_op =
    OpGet string
  | OpSet string string
  | OpSetIfNotExists string string
  | OpDelete string
  | OpList ListArgs
  | OpInvalidateKey string
  | OpInvalidateAll

datatype cache_answer =
    AGet "string result"
  | ASet "unit result"
  | ACreated "bool result"
  | AList_result "KeyValuePair list result"
  | ADone

fun cache_op_clean :: "cache_op \<Rightarrow> bool" where
  "cache_op_clean (OpList a) = clean_args a"
| "cache_op_clean _ = True"

fun cache_step :: "'s Store \<Rightarrow> cache_op \<Rightarrow> 's StoreCache \<Rightarrow> cache_answer \<times> 's StoreCache" where
  "cache_step S (OpGet k) c = (case cGet S k c of (r, c) \<Rightarrow> (AGet r, c))"
| "cache_step S (OpSet k v) c = (case cSet S k v c of (r, c) \<Rightarrow> (ASet r, c))"
| "cache_step S (OpSetIfNotExists k v) c = (case cSetIfNotExists S k v c of (r, c) \<Rightarrow> (ACreated r, c))"
| "cache_step S (OpDelete k) c = (case cDelete S k c of (r, c) \<Rightarrow> (ASet r, c))"
| "cache_step S (OpList a) c = (case cList S a c of (r, c) \<Rightarrow> (AList_result r, c))"
| "cache_step S (OpInvalidateKey k) c = (ADone, InvalidateKey k c)"
| "cache_step S OpInvalidateAll c = (ADone, InvalidateAll c)"

fun store_step :: "'s Store \<Rightarrow> cache_op \<Rightarrow> 's \<Rightarrow> cache_answer \<times> 's" where
  "store_step S (OpGet k) s = (case sGet S k s of (r, s) \<Rightarrow> (AGet r, s))"
| "store_step S (OpSet k v) s = (case sSet S k v s of (r, s) \<Rightarrow> (ASet r, s))"
| "store_step S (OpSetIfNotExists k v) s = (case sSetIfNotExists S k v s of (r, s) \<Rightarrow> (ACreated r, s))"
| "store_step S (OpDelete k) s = (case sDelete S k s of (r, s) \<Rightarrow> (ASet r, s))"
| "store_step S (OpList a) s = (case sList S a s of (r, s) \<Rightarrow> (AList_result r, s))"
| "store_step S (OpInvalidateKey k) s = (ADone, s)"
| "store_step S OpInvalidateAll s = (ADone, s)"

fun run_ops :: "('o \<Rightarrow> 's \<Rightarrow> 'a \<times> 's) \<Rightarrow> 'o list \<Rightarrow> 's \<Rightarrow> 'a list \<times> 's" where
  "run_ops f [] s = ([], s)"
| "run_ops f (x # xs) s = (case f x s of (a, s) \<Rightarrow> case run_ops f xs s of (as, s) \<Rightarrow> (a # as, s))"

context kv_store
begin

definition cache_inv :: "'a StoreCache \<Rightarrow> bool" where
  "cache_inv c \<longleftrightarrow> inv (cStore c) \<and> coherent (abs (cStore c)) c"

lemma get_answer_result: "inv s \<Longrightarrow> fst (sGet S k s) = get_answer (abs s) k"
  by (simp add: get_answer_def store_simps)

lemma coherent_lookup:
  assumes "coherent m c"
  shows "map_of (gets c) k = Some r \<Longrightarrow> r = get_answer m k"
    and "clean_args a \<Longrightarrow> map_of (lists c) (listCacheKey a) = Some l \<Longrightarrow> l = Inr (list_spec m a)"
  using assms listCacheKey_inject by (auto simp: coherent_def dest!: map_of_SomeD)

lemma coherent_cStore: "coherent m (c\<lparr>cStore := st\<rparr>) = coherent m c"
  by (simp add: coherent_def)

text \<open>One operation: the same answer, and the cache stays coherent with the new content.\<close>

lemma cache_step_sim:
  assumes "cache_inv c" and "inv s" and "abs s = abs (cStore c)" and "cache_op_clean x"
  shows "fst (cache_step S x c) = fst (store_step S x s) \<and> cache_inv (snd (cache_step S x c)) \<and>
    inv (snd (store_step S x s)) \<and> abs (snd (store_step S x s)) = abs (cStore (snd (cache_step S x c)))"
proof -
  let ?m = "abs (cStore c)"
  have c: "inv (cStore c)" "coherent ?m c" using assms(1) by (simp_all add: cache_inv_def)
  have inval: "coherent (?m(k := v)) (invalidateKey k (c\<lparr>cStore := st\<rparr>))" for k v st
    by (rule invalidate_coherent [of ?m]) (simp_all add: c coherent_cStore)
  show ?thesis
  proof (cases x)
    case (OpGet k)
    show ?thesis
    proof (cases "map_of (gets c) k")
      case None
      obtain st where st: "sGet S k (cStore c) = (get_answer ?m k, st)"
        using get_answer_result [OF c(1), of k] by (metis prod.collapse)
      then have s': "inv st" "abs st = ?m" using get_state [OF c(1), of k] by simp_all
      have "cGet S k c = (get_answer ?m k, cache_fill k (get_answer ?m k) (c\<lparr>cStore := st\<rparr>))"
        using None st by (simp add: cGet_def)
      moreover have "coherent ?m (cache_fill k (get_answer ?m k) (c\<lparr>cStore := st\<rparr>))"
        using fill_coherent [of ?m "c\<lparr>cStore := st\<rparr>" k] c(2) by (simp add: coherent_cStore)
      ultimately show ?thesis
        using OpGet s' assms(2,3) get_answer_result [OF assms(2)]
        by (simp add: fill_fields cache_inv_def coherent_cStore store_simps split_beta)
    next
      case (Some r)
      then show ?thesis
        using OpGet c assms coherent_lookup(1) [OF c(2) Some] get_answer_result [OF assms(2)]
        by (simp add: cGet_def cache_inv_def store_simps split_beta)
    qed
  next
    case (OpSet k v)
    obtain st where st: "sSet S k v (cStore c) = (Inr (), st)"
      using set_result [OF c(1), of k v] by (metis prod.collapse)
    then have "inv st" "abs st = ?m(k \<mapsto> v)" using set_state [OF c(1), of k v] by simp_all
    then show ?thesis
      using OpSet st assms(2,3) inval [of k "Some v" st]
      by (simp add: cSet_def cache_inv_def store_simps invalidate_fields split_beta)
  next
    case (OpSetIfNotExists k v)
    obtain st where st: "sSetIfNotExists S k v (cStore c) = (Inr (?m k = None), st)"
      using setnx_result [OF c(1), of k v] by (metis prod.collapse)
    then have "inv st" "abs st = (if ?m k = None then ?m(k \<mapsto> v) else ?m)" using setnx_state [OF c(1), of k v] by simp_all
    then show ?thesis
      using OpSetIfNotExists st c(2) assms(2,3) inval [of k "Some v" st] coherent_cStore [of ?m st c]
      by (simp add: cSetIfNotExists_def cache_inv_def store_simps invalidate_fields split_beta)
  next
    case (OpDelete k)
    obtain st where st: "sDelete S k (cStore c) = (if ?m k = None then Inl ErrNotFound else Inr (), st)"
      using delete_result [OF c(1), of k] by (metis prod.collapse)
    have "inv st" "abs st = ?m(k := None)" using delete_inv [OF c(1), of k] delete_abs [OF c(1), of k] st by simp_all
    moreover have "?m k = None \<Longrightarrow> ?m(k := None) = ?m" by (auto simp: fun_eq_iff)
    ultimately show ?thesis
      using OpDelete st c(2) assms(2,3) inval [of k None st] coherent_cStore [of ?m st c]
      by (auto simp add: cDelete_def cache_inv_def store_simps invalidate_fields split_beta)
  next
    case (OpList a)
    then have cl: "clean_args a" using assms(4) by simp
    show ?thesis
    proof (cases "map_of (lists c) (listCacheKey a)")
      case None
      obtain st where st: "sList S a (cStore c) = (Inr (list_spec ?m a), st)"
        using list_result [OF c(1), of a] by (metis prod.collapse)
      then have s': "inv st" "abs st = ?m" using list_state [OF c(1), of a] by simp_all
      have "cList S a c = (Inr (list_spec ?m a), cache_fill_list (listCacheKey a) (Inr (list_spec ?m a)) (c\<lparr>cStore := st\<rparr>))"
        using None st by (simp add: cList_def Let_def)
      moreover have "coherent ?m (cache_fill_list (listCacheKey a) (Inr (list_spec ?m a)) (c\<lparr>cStore := st\<rparr>))"
        using fill_list_coherent [of ?m "c\<lparr>cStore := st\<rparr>" a] c(2) cl by (simp add: coherent_cStore)
      ultimately show ?thesis
        using OpList s' assms(2,3) cl
        by (simp add: fill_fields cache_inv_def coherent_cStore store_simps split_beta)
    next
      case (Some r)
      then show ?thesis
        using OpList c assms coherent_lookup(2) [OF c(2) cl Some]
        by (simp add: cList_def Let_def cache_inv_def store_simps split_beta)
    qed
  next
    case (OpInvalidateKey k)
    then show ?thesis using assms c invalidate_coherent [OF c(2), of k ?m]
      by (simp add: InvalidateKey_def cache_inv_def invalidate_fields)
  next
    case OpInvalidateAll
    then show ?thesis using assms c by (simp add: InvalidateAll_def cache_inv_def coherent_def)
  qed
qed

lemma run_cache_run_store:
  assumes "cache_inv c" and "inv s" and "abs s = abs (cStore c)" and "\<forall>x \<in> set xs. cache_op_clean x"
  shows "fst (run_ops (cache_step S) xs c) = fst (run_ops (store_step S) xs s) \<and>
    abs (cStore (snd (run_ops (cache_step S) xs c))) = abs (snd (run_ops (store_step S) xs s))"
  using assms
proof (induction xs arbitrary: c s)
  case Nil
  then show ?case by simp
next
  case (Cons x xs)
  have "cache_op_clean x" "\<forall>x \<in> set xs. cache_op_clean x" using Cons.prems(4) by auto
  note sim = cache_step_sim [OF Cons.prems(1-3) this(1)]
  show ?case using sim Cons.IH [of "snd (cache_step S x c)" "snd (store_step S x s)"] \<open>\<forall>x \<in> set xs. cache_op_clean x\<close>
    by (simp add: split_beta)
qed

end

lemma step_bounded:
  assumes "bounded c"
  shows "bounded (snd (cache_step S x c)) \<and> maxSize (snd (cache_step S x c)) = maxSize c"
proof -
  have b: "bounded (c\<lparr>cStore := st\<rparr>)" for st using assms by (simp add: bounded_def)
  show ?thesis
    using assms
    by (cases x)
      (auto intro: b fill_bounded invalidate_bounded simp: cGet_def cSet_def cSetIfNotExists_def cDelete_def cList_def Let_def InvalidateKey_def InvalidateAll_def
        bounded_def [of "c\<lparr>gets := [], lists := []\<rparr>"] fill_fields invalidate_fields
        split: option.split prod.split sum.split)
qed

lemma fresh_cache:
  "cStore (NewCache st [WithMaxSize n] ps) = st" "maxSize (NewCache st [WithMaxSize n] ps) = n"
  "gets (NewCache st [WithMaxSize n] ps) = []" "lists (NewCache st [WithMaxSize n] ps) = []"
  by (simp_all add: NewCache_def WithMaxSize_def)

section \<open>Properties\<close>

text \<open>C4. The cache is transparent: on a lawful store, any sequence of reads, writes and
  invalidations through a new cache, of any size and with any choice of evictions, gives
  the same answers as the same operations on the store itself, and leaves the same content.
  The arguments of \<open>List\<close> must contain no NUL byte.\<close>

theorem cache_transparent:
  assumes "kv_store S I A" and "I st" and "\<forall>x \<in> set xs. cache_op_clean x"
  shows "fst (run_ops (cache_step S) xs (NewCache st [WithMaxSize n] ps)) = fst (run_ops (store_step S) xs st) \<and>
    A (cStore (snd (run_ops (cache_step S) xs (NewCache st [WithMaxSize n] ps)))) = A (snd (run_ops (store_step S) xs st))"
proof -
  have "kv_store.cache_inv I A (NewCache st [WithMaxSize n] ps)"
    using assms(2) kv_store.cache_inv_def [OF assms(1)] by (simp add: fresh_cache coherent_def)
  from kv_store.run_cache_run_store [OF assms(1) this assms(2) _ assms(3)] show ?thesis by (simp add: fresh_cache)
qed

theorem cache_transparent_witness:
  "fst (run_ops (cache_step memStore) [OpSet ''a'' ''1'', OpGet ''a'', OpDelete ''a'', OpGet ''a'']
     (NewCache NewMemory [WithMaxSize 1] (\<lambda>_. 0))) =
   [ASet (Inr ()), AGet (Inr ''1''), ASet (Inr ()), AGet (Inl ErrNotFound)]"
  using cache_transparent [OF mem.kv_store_axioms, of NewMemory "[OpSet ''a'' ''1'', OpGet ''a'', OpDelete ''a'', OpGet ''a'']" 1 "\<lambda>_. 0"]
  by (simp add: memStore_def memGet_def memSet_def memDelete_def NewMemory_def mem_inv_def)

text \<open>C25. The cache is bounded: with a positive maximum size, neither map ever holds more
  entries than that, whatever the store answers and whichever entries are evicted.\<close>

theorem cache_bounded:
  assumes "0 < n"
  shows "int (length (gets (snd (run_ops (cache_step S) xs (NewCache st [WithMaxSize n] ps))))) \<le> n \<and>
    int (length (lists (snd (run_ops (cache_step S) xs (NewCache st [WithMaxSize n] ps))))) \<le> n"
proof -
  have run: "bounded (snd (run_ops (cache_step S) xs c)) \<and> maxSize (snd (run_ops (cache_step S) xs c)) = maxSize c"
    if "bounded c" for c
    using that
  proof (induction xs arbitrary: c)
    case (Cons x xs)
    then show ?case using step_bounded [of c S x] by (auto simp: split_beta)
  qed simp
  have "bounded (NewCache st [WithMaxSize n] ps)" by (simp add: bounded_def fresh_cache)
  from run [OF this] assms show ?thesis by (auto simp: bounded_def fresh_cache)
qed

theorem cache_bounded_witness:
  "length (gets (snd (run_ops (cache_step memStore) [OpGet ''a'', OpGet ''b'', OpGet ''c'']
     (NewCache NewMemory [WithMaxSize 2] (\<lambda>_. 0))))) \<le> 2"
  using cache_bounded [of 2 memStore "[OpGet ''a'', OpGet ''b'', OpGet ''c'']" NewMemory "\<lambda>_. 0"] by simp

text \<open>Cache keys of lists are ambiguous when an argument contains a NUL byte: the two
  argument lists below differ and have the same cache key, so the second \<open>List\<close> is answered
  with the entry that the first one found, although the store returns none.\<close>

theorem list_key_ambiguous:
  "let a = \<lparr>Prefix = ''x'', StartAfter = NUL # ''y'', Limit = 0\<rparr>;
       b = \<lparr>Prefix = ''x'' @ [NUL], StartAfter = ''y'', Limit = 0\<rparr>;
       st = \<lparr>data = [(''x'' @ NUL # ''z'', ''v'')]\<rparr>;
       c = snd (cList memStore a (NewCache st [] (\<lambda>_. 0)))
   in fst (cList memStore b c) = Inr [\<lparr>kvKey = ''x'' @ NUL # ''z'', kvValue = ''v''\<rparr>] \<and> fst (memList b st) = Inr []"
  by (simp add: listCacheKey_def cList_def Let_def NewCache_def memStore_def memList_def cache_fill_list_def DefaultMaxSize_def)

text \<open>A read can leave a stale value behind: \<open>Get\<close> reads the store and fills the cache in
  two steps; when a \<open>Set\<close> of the key runs in between, the old value stays in the cache and a
  later \<open>Get\<close> returns it although the store holds the new one.\<close>

theorem stale_read_race:
  assumes "kv_store S I A" and "I (cStore c)" and "maxSize c = 0" and "A (cStore c) k = Some old"
    and "sGet S k (cStore c) = (r, st)" and "cSet S k new (c\<lparr>cStore := st\<rparr>) = (Inr (), c1)"
  shows "fst (cGet S k (cache_fill k r c1)) = Inr old \<and> A (cStore (cache_fill k r c1)) k = Some new"
proof -
  have r: "r = Inr old" and st: "I st" "A st = A (cStore c)"
    using kv_store.get_result [OF assms(1,2), of k] assms(4,5)
      fallible_store.get_state [OF kv_store.axioms(1) [OF assms(1)] assms(2), of k] by simp_all
  obtain st' where st': "sSet S k new st = (Inr (), st')" "c1 = invalidateKey k (c\<lparr>cStore := st'\<rparr>)"
    using assms(6) kv_store.set_result [OF assms(1) st(1), of k new]
    by (auto simp: cSet_def split: prod.splits sum.splits)
  have "A st' k = Some new" using kv_store.set_abs [OF assms(1) st(1), of k new] st'(1) by simp
  moreover have "maxSize c1 = 0" using assms(3) st'(2) by (simp add: invalidate_fields)
  then have "gets (cache_fill k r c1) = AList.update k r (gets c1)" by (simp add: cache_fill_def)
  then have "map_of (gets (cache_fill k r c1)) k = Some (Inr old)" by (simp add: update_conv' r)
  ultimately show ?thesis using st'(2) by (simp add: cGet_def fill_fields invalidate_fields)
qed

theorem stale_read_race_witness:
  "let c = NewCache \<lparr>data = [(''k'', ''old'')]\<rparr> [WithMaxSize 0] (\<lambda>_. 0);
       c1 = snd (cSet memStore ''k'' ''new'' c)
   in fst (cGet memStore ''k'' (cache_fill ''k'' (fst (memGet ''k'' (cStore c))) c1)) = Inr ''old''"
proof -
  let ?c = "NewCache \<lparr>data = [(''k'', ''old'')]\<rparr> [WithMaxSize 0] (\<lambda>_. 0)"
  have "sGet memStore ''k'' (cStore ?c) = (Inr ''old'', cStore ?c)"
    by (simp add: memStore_def memGet_def fresh_cache)
  moreover have "cSet memStore ''k'' ''new'' (?c\<lparr>cStore := cStore ?c\<rparr>) = (Inr (), snd (cSet memStore ''k'' ''new'' ?c))"
    by (simp add: cSet_def memStore_def memSet_def fresh_cache)
  ultimately have "fst (cGet memStore ''k'' (cache_fill ''k'' (Inr ''old'') (snd (cSet memStore ''k'' ''new'' ?c)))) = Inr ''old''"
    using stale_read_race [OF mem.kv_store_axioms, of ?c "''k''" "''old''" "Inr ''old''" "cStore ?c" "''new''" "snd (cSet memStore ''k'' ''new'' ?c)"]
    by (simp add: fresh_cache mem_inv_def mem_abs_def)
  then show ?thesis by (simp add: fresh_cache memGet_def Let_def)
qed

end
