(* ===== verification/Collection.thy ===== *)
theory Collection
  imports Memory Items
begin

text \<open>
  Typed document collections, \<open>src/db/collection/main.go\<close>, over any store \<open>S\<close>.

  The Go type parameter \<open>T\<close> is a struct; reflection sees it as its list of fields.  A field
  has a name, may be exported, may have a \<open>json\<close> tag, and has the encoder and decoder that
  \<open>encoding/json\<close> gives its type: these two are parameters (\<open>gfMarshal\<close>, \<open>gfUnmarshal\<close>), of which
  \<open>codec_ok\<close> states the round trip.  A value of \<open>T\<close> is the list of its field values.  The
  text that error messages quote is reduced to the name that is quoted.

  \<open>doc_at\<close> reads a document off a content; \<open>Set\<close>, \<open>Get\<close>, \<open>Delete\<close> and \<open>List\<close> are specified
  with it, for identifiers and field names that contain no slash.
\<close>

section \<open>Model\<close>

definition idxInfix :: string where "idxInfix = ''%idx%''"

record 'v goField =
  gfName :: string
  gfExported :: bool
  gfTag :: "string option"
  gfZero :: 'v
  gfMarshal :: "'v \<Rightarrow> string result"
  gfUnmarshal :: "string \<Rightarrow> 'v \<Rightarrow> 'v result"

record fieldInfo =
  fiName :: string
  fiIndex :: nat

record 'v Document =
  docID :: string
  docValue :: "'v list"

record ColListArgs =
  caPrefix :: string
  caStartAfter :: string
  caLimit :: int

record col_config =
  cfgPrefix :: string

definition WithPrefix :: "string \<Rightarrow> col_config \<Rightarrow> col_config" where
  "WithPrefix p c = c\<lparr>cfgPrefix := p\<rparr>"

record 'v Collection =
  colName :: string
  colPrefix :: string
  colFields :: "fieldInfo list"
  colType :: "'v goField list"

text \<open>The loop over the fields of \<open>T\<close>; \<open>i\<close> is the index of the first one.\<close>

fun collect_fields :: "nat \<Rightarrow> 'v goField list \<Rightarrow> fieldInfo list" where
  "collect_fields i [] = []"
| "collect_fields i (f # fs) =
     (if \<not> gfExported f then collect_fields (Suc i) fs
      else (case gfTag f of
              None \<Rightarrow> \<lparr>fiName = gfName f, fiIndex = i\<rparr> # collect_fields (Suc i) fs
            | Some tag \<Rightarrow>
                (let part = upto_char (CHR '','') tag
                 in if part = ''-'' then collect_fields (Suc i) fs
                    else if part \<noteq> [] then \<lparr>fiName = part, fiIndex = i\<rparr> # collect_fields (Suc i) fs
                    else \<lparr>fiName = gfName f, fiIndex = i\<rparr> # collect_fields (Suc i) fs)))"

definition NewCollection :: "'v goField list \<Rightarrow> string \<Rightarrow> (col_config \<Rightarrow> col_config) list \<Rightarrow> 'v Collection" where
  "NewCollection t name opts =
     (let cfg = fold (\<lambda>opt c. opt c) opts \<lparr>cfgPrefix = []\<rparr>
      in \<lparr>colName = name, colPrefix = cfgPrefix cfg, colFields = collect_fields 0 t, colType = t\<rparr>)"

definition idxKey :: "'v Collection \<Rightarrow> string \<Rightarrow> string" where
  "idxKey c i = colPrefix c @ colName c @ ''/'' @ idxInfix @ i"

definition idxPrefix :: "'v Collection \<Rightarrow> string \<Rightarrow> string" where
  "idxPrefix c p = colPrefix c @ colName c @ ''/'' @ idxInfix @ p"

definition docPrefix :: "'v Collection \<Rightarrow> string \<Rightarrow> string" where
  "docPrefix c i = colPrefix c @ colName c @ ''/'' @ i @ ''/''"

definition fieldKey :: "'v Collection \<Rightarrow> string \<Rightarrow> string \<Rightarrow> string" where
  "fieldKey c i f = colPrefix c @ colName c @ ''/'' @ i @ ''/'' @ f"

definition extractDocID :: "'v Collection \<Rightarrow> string \<Rightarrow> string" where
  "extractDocID c k = drop (length (colPrefix c @ colName c @ ''/'' @ idxInfix)) k"

definition zero_doc :: "'v Collection \<Rightarrow> 'v list" where
  "zero_doc c = map gfZero (colType c)"

text \<open>One field of a document, found under the name \<open>fieldName\<close> with the stored text \<open>raw\<close>;
  \<open>loc\<close> is what the caller adds to the error message.\<close>

definition read_field :: "'v Collection \<Rightarrow> string \<Rightarrow> string \<Rightarrow> string \<Rightarrow> 'v list \<Rightarrow> 'v list result" where
  "read_field c loc fieldName raw val =
     (case find (\<lambda>fi. fiName fi = fieldName) (colFields c) of
        None \<Rightarrow> Inr val
      | Some fi \<Rightarrow>
          (case gfUnmarshal (colType c ! fiIndex fi) raw (val ! fiIndex fi) of
             Inl e \<Rightarrow> Inl (Wrap (''unmarshal field '' @ fieldName @ loc) e)
           | Inr v \<Rightarrow> Inr (val[fiIndex fi := v])))"

fun read_fields :: "'v Collection \<Rightarrow> string \<Rightarrow> string \<Rightarrow> KeyValuePair list \<Rightarrow> 'v list \<Rightarrow> 'v list result" where
  "read_fields c loc pfx [] val = Inr val"
| "read_fields c loc pfx (kv # kvs) val =
     (case read_field c loc (drop (length pfx) (kvKey kv)) (kvValue kv) val of
        Inl e \<Rightarrow> Inl e
      | Inr val \<Rightarrow> read_fields c loc pfx kvs val)"

definition colGet :: "'s Store \<Rightarrow> 'v Collection \<Rightarrow> string \<Rightarrow> 's \<Rightarrow> ('v list, 's) outcome" where
  "colGet S c i s =
     (case sGet S (idxKey c i) s of
        (Inl e, s) \<Rightarrow> (Inl e, s)
      | (Inr _, s) \<Rightarrow>
          (case sList S \<lparr>Prefix = docPrefix c i, StartAfter = [], Limit = 0\<rparr> s of
             (Inl e, s) \<Rightarrow> (Inl e, s)
           | (Inr kvs, s) \<Rightarrow> (read_fields c [] (docPrefix c i) kvs (zero_doc c), s)))"

fun write_fields :: "'s Store \<Rightarrow> 'v Collection \<Rightarrow> string \<Rightarrow> 'v list \<Rightarrow> fieldInfo list \<Rightarrow> 's \<Rightarrow> (unit, 's) outcome" where
  "write_fields S c i doc [] s = (Inr (), s)"
| "write_fields S c i doc (fi # fis) s =
     (case gfMarshal (colType c ! fiIndex fi) (doc ! fiIndex fi) of
        Inl e \<Rightarrow> (Inl (Wrap (''marshal field '' @ fiName fi) e), s)
      | Inr encoded \<Rightarrow>
          (case sSet S (fieldKey c i (fiName fi)) encoded s of
             (Inl e, s) \<Rightarrow> (Inl e, s)
           | (Inr _, s) \<Rightarrow> write_fields S c i doc fis s))"

definition colSet :: "'s Store \<Rightarrow> 'v Collection \<Rightarrow> string \<Rightarrow> 'v list \<Rightarrow> 's \<Rightarrow> (unit, 's) outcome" where
  "colSet S c i doc s =
     (case sSet S (idxKey c i) ''1'' s of
        (Inl e, s) \<Rightarrow> (Inl e, s)
      | (Inr _, s) \<Rightarrow> write_fields S c i doc (colFields c) s)"

fun delete_keys :: "'s Store \<Rightarrow> KeyValuePair list \<Rightarrow> 's \<Rightarrow> (unit, 's) outcome" where
  "delete_keys S [] s = (Inr (), s)"
| "delete_keys S (kv # kvs) s =
     (case sDelete S (kvKey kv) s of
        (Inl e, s) \<Rightarrow> (Inl e, s)
      | (Inr _, s) \<Rightarrow> delete_keys S kvs s)"

definition colDelete :: "'s Store \<Rightarrow> 'v Collection \<Rightarrow> string \<Rightarrow> 's \<Rightarrow> (unit, 's) outcome" where
  "colDelete S c i s =
     (case sGet S (idxKey c i) s of
        (Inl e, s) \<Rightarrow> (Inl e, s)
      | (Inr _, s) \<Rightarrow>
     (case sDelete S (idxKey c i) s of
        (Inl e, s) \<Rightarrow> (Inl e, s)
      | (Inr _, s) \<Rightarrow>
     (case sList S \<lparr>Prefix = docPrefix c i, StartAfter = [], Limit = 0\<rparr> s of
        (Inl e, s) \<Rightarrow> (Inl e, s)
      | (Inr kvs, s) \<Rightarrow> delete_keys S kvs s)))"

fun assemble :: "'s Store \<Rightarrow> 'v Collection \<Rightarrow> KeyValuePair list \<Rightarrow> 's \<Rightarrow> ('v Document list, 's) outcome" where
  "assemble S c [] s = (Inr [], s)"
| "assemble S c (idx # idxs) s =
     (let i = extractDocID c (kvKey idx)
      in (case sList S \<lparr>Prefix = docPrefix c i, StartAfter = [], Limit = 0\<rparr> s of
            (Inl e, s) \<Rightarrow> (Inl e, s)
          | (Inr kvs, s) \<Rightarrow>
              (case read_fields c ('' of doc '' @ i) (docPrefix c i) kvs (zero_doc c) of
                 Inl e \<Rightarrow> (Inl e, s)
               | Inr val \<Rightarrow>
                   (case assemble S c idxs s of
                      (Inl e, s) \<Rightarrow> (Inl e, s)
                    | (Inr docs, s) \<Rightarrow> (Inr (\<lparr>docID = i, docValue = val\<rparr> # docs), s)))))"

definition colList :: "'s Store \<Rightarrow> 'v Collection \<Rightarrow> ColListArgs list \<Rightarrow> 's \<Rightarrow> ('v Document list, 's) outcome" where
  "colList S c args s =
     (let la = (case args of [] \<Rightarrow> \<lparr>caPrefix = [], caStartAfter = [], caLimit = 0\<rparr> | a # _ \<Rightarrow> a);
          storeArgs = \<lparr>Prefix = idxPrefix c (caPrefix la),
            StartAfter = (if caStartAfter la \<noteq> [] then idxKey c (caStartAfter la) else []),
            Limit = caLimit la\<rparr>
      in (case sList S storeArgs s of
            (Inl e, s) \<Rightarrow> (Inl e, s)
          | (Inr idxList, s) \<Rightarrow> if idxList = [] then (Inr [], s) else assemble S c idxList s))"

section \<open>Specification\<close>

definition slash_free :: "string \<Rightarrow> bool" where
  "slash_free x \<longleftrightarrow> CHR ''/'' \<notin> set x"

definition col_ok :: "'v Collection \<Rightarrow> bool" where
  "col_ok c \<longleftrightarrow> distinct (map fiName (colFields c)) \<and> distinct (map fiIndex (colFields c)) \<and>
     (\<forall>fi \<in> set (colFields c). slash_free (fiName fi) \<and> fiIndex fi < length (colType c))"

definition codec_ok :: "'v Collection \<Rightarrow> 'v list \<Rightarrow> bool" where
  "codec_ok c doc \<longleftrightarrow> length doc = length (colType c) \<and>
     (\<forall>fi \<in> set (colFields c). \<exists>raw. gfMarshal (colType c ! fiIndex fi) (doc ! fiIndex fi) = Inr raw \<and>
       gfUnmarshal (colType c ! fiIndex fi) raw (gfZero (colType c ! fiIndex fi)) = Inr (doc ! fiIndex fi))"

text \<open>What \<open>Get\<close> returns of a stored document: the fields that are stored, zero elsewhere.\<close>

definition visible_doc :: "'v Collection \<Rightarrow> 'v list \<Rightarrow> 'v list" where
  "visible_doc c doc = map (\<lambda>i. if i \<in> fiIndex ` set (colFields c) then doc ! i else gfZero (colType c ! i)) [0..<length (colType c)]"

definition doc_writes :: "'v Collection \<Rightarrow> string \<Rightarrow> 'v list \<Rightarrow> fieldInfo list \<Rightarrow> (string \<rightharpoonup> string) \<Rightarrow> (string \<rightharpoonup> string)" where
  "doc_writes c i doc fis m = fold (\<lambda>fi m. case gfMarshal (colType c ! fiIndex fi) (doc ! fiIndex fi) of
     Inl _ \<Rightarrow> m | Inr raw \<Rightarrow> m(fieldKey c i (fiName fi) \<mapsto> raw)) fis m"

section \<open>Keys\<close>

lemma slash_split:
  "slash_free x \<Longrightarrow> slash_free y \<Longrightarrow> prefix (x @ ''/'') (y @ CHR ''/'' # z) \<longleftrightarrow> x = y"
proof (induction x arbitrary: y)
  case Nil
  then show ?case by (cases y) (auto simp: slash_free_def)
next
  case (Cons a x)
  then show ?case by (cases y) (auto simp: slash_free_def)
qed

lemma slash_not_prefix: "slash_free y \<Longrightarrow> \<not> prefix (x @ ''/'') y"
  by (auto simp: prefix_def slash_free_def)

lemma slash_free_idx: "slash_free (idxInfix @ i) \<longleftrightarrow> slash_free i"
  by (auto simp: slash_free_def idxInfix_def)

lemma col_keys:
  assumes "slash_free i" and "slash_free j"
  shows "fieldKey c i f = docPrefix c i @ f" "prefix (docPrefix c i) (fieldKey c j f) \<longleftrightarrow> i = j"
    "\<not> prefix (docPrefix c i) (idxKey c j)" "idxKey c i = idxKey c j \<longleftrightarrow> i = j"
    "fieldKey c i f = fieldKey c j g \<longleftrightarrow> i = j \<and> f = g" "fieldKey c i f \<noteq> idxKey c j" "idxKey c j \<noteq> fieldKey c i f"
proof -
  show "fieldKey c i f = docPrefix c i @ f" by (simp add: fieldKey_def docPrefix_def)
  show p: "prefix (docPrefix c i) (fieldKey c j f) \<longleftrightarrow> i = j"
    using slash_split [OF assms] by (simp add: fieldKey_def docPrefix_def)
  show n: "\<not> prefix (docPrefix c i) (idxKey c j)"
    using slash_not_prefix [of "idxInfix @ j" i] assms(2) slash_free_idx [of j] by (simp add: docPrefix_def idxKey_def)
  show "idxKey c i = idxKey c j \<longleftrightarrow> i = j" by (simp add: idxKey_def)
  show "fieldKey c i f = fieldKey c j g \<longleftrightarrow> i = j \<and> f = g"
  proof
    assume e: "fieldKey c i f = fieldKey c j g"
    have "prefix (docPrefix c i) (fieldKey c j g)" unfolding e [symmetric] by (simp add: fieldKey_def docPrefix_def)
    then have "i = j" using slash_split [OF assms] by (simp add: fieldKey_def docPrefix_def)
    then show "i = j \<and> f = g" using e by (simp add: fieldKey_def)
  qed simp
  have "prefix (docPrefix c i) (fieldKey c i f)" by (simp add: fieldKey_def docPrefix_def)
  then show "fieldKey c i f \<noteq> idxKey c j" using n by auto
  then show "idxKey c j \<noteq> fieldKey c i f" by (rule not_sym)
qed

section \<open>Reading back\<close>

definition named :: "'v Collection \<Rightarrow> string \<Rightarrow> fieldInfo option" where
  "named c name = find (\<lambda>fi. fiName fi = name) (colFields c)"

lemma named_Some:
  assumes "col_ok c"
  shows "named c name = Some fi \<longleftrightarrow> fi \<in> set (colFields c) \<and> fiName fi = name"
proof -
  have inj: "inj_on fiName (set (colFields c))" using assms by (simp add: col_ok_def distinct_map)
  have hit: "x \<in> set (colFields c) \<and> fiName x = name" if "named c name = Some x" for x
    using that by (auto simp: named_def find_Some_iff)
  show ?thesis
  proof
    assume r: "fi \<in> set (colFields c) \<and> fiName fi = name"
    then have "named c name \<noteq> None" by (auto simp: named_def find_None_iff)
    then obtain x where x: "named c name = Some x" by blast
    then have "x = fi" using hit [OF x] r inj_onD [OF inj, of x fi] by simp
    then show "named c name = Some fi" using x by simp
  qed (rule hit)
qed

text \<open>
  A listing that holds the encodings of some fields of \<open>doc\<close>, in any order and with other
  keys between them, is read back field by field.
\<close>

lemma read_fields_ok:
  assumes "col_ok c" and "length val = length (colType c)" and "distinct (map kvKey kvs)"
    and "\<And>kv. kv \<in> set kvs \<Longrightarrow> prefix pfx (kvKey kv)"
    and "\<And>kv fi. kv \<in> set kvs \<Longrightarrow> named c (drop (length pfx) (kvKey kv)) = Some fi \<Longrightarrow>
      gfUnmarshal (colType c ! fiIndex fi) (kvValue kv) (val ! fiIndex fi) = Inr (doc ! fiIndex fi)"
  shows "\<exists>val'. read_fields c loc pfx kvs val = Inr val' \<and> length val' = length (colType c) \<and>
    (\<forall>j < length (colType c). val' ! j =
      (if \<exists>kv \<in> set kvs. \<exists>fi. named c (drop (length pfx) (kvKey kv)) = Some fi \<and> fiIndex fi = j then doc ! j else val ! j))"
  using assms(2-5)
proof (induction kvs arbitrary: val)
  case Nil
  then show ?case by simp
next
  case (Cons kv kvs)
  let ?name = "drop (length pfx) (kvKey kv)"
  show ?case
  proof (cases "named c ?name")
    case None
    then have "read_field c loc ?name (kvValue kv) val = Inr val" by (simp add: read_field_def named_def)
    moreover obtain val' where "read_fields c loc pfx kvs val = Inr val'" "length val' = length (colType c)"
        "\<forall>j < length (colType c). val' ! j =
          (if \<exists>kv \<in> set kvs. \<exists>fi. named c (drop (length pfx) (kvKey kv)) = Some fi \<and> fiIndex fi = j then doc ! j else val ! j)"
      using Cons.IH [of val] Cons.prems by auto
    ultimately show ?thesis using None by (intro exI [of _ val']) auto
  next
    case (Some fi)
    let ?val = "val[fiIndex fi := doc ! fiIndex fi]"
    have fi: "fi \<in> set (colFields c)" "fiName fi = ?name" using named_Some [OF assms(1)] Some by auto
    then have lt: "fiIndex fi < length (colType c)" using assms(1) by (auto simp: col_ok_def)
    have "gfUnmarshal (colType c ! fiIndex fi) (kvValue kv) (val ! fiIndex fi) = Inr (doc ! fiIndex fi)"
      using Cons.prems(4) [of kv fi] Some by simp
    then have step: "read_field c loc ?name (kvValue kv) val = Inr ?val"
      using Some by (simp add: read_field_def named_def)
    have other: "fiIndex fi' \<noteq> fiIndex fi" if "kv' \<in> set kvs" "named c (drop (length pfx) (kvKey kv')) = Some fi'" for kv' fi'
    proof
      assume "fiIndex fi' = fiIndex fi"
      moreover have fi': "fi' \<in> set (colFields c)" "fiName fi' = drop (length pfx) (kvKey kv')"
        using named_Some [OF assms(1)] that(2) by auto
      ultimately have "fi' = fi"
        using fi(1) assms(1) unfolding col_ok_def distinct_map by (meson inj_onD)
      then have "drop (length pfx) (kvKey kv') = ?name" using fi fi' by simp
      moreover have "prefix pfx (kvKey kv)" "prefix pfx (kvKey kv')" using Cons.prems(3) that(1) by auto
      ultimately have "kvKey kv' = kvKey kv" by (auto simp: prefix_def)
      then show False using Cons.prems(2) that(1) by (metis distinct.simps(2) image_eqI list.set_map list.simps(9))
    qed
    have "gfUnmarshal (colType c ! fiIndex fi') (kvValue kv') (?val ! fiIndex fi') = Inr (doc ! fiIndex fi')"
      if "kv' \<in> set kvs" "named c (drop (length pfx) (kvKey kv')) = Some fi'" for kv' fi'
      using Cons.prems(4) [of kv' fi'] other [OF that] that by simp
    then obtain val' where v: "read_fields c loc pfx kvs ?val = Inr val'" "length val' = length (colType c)"
        "\<forall>j < length (colType c). val' ! j =
          (if \<exists>kv \<in> set kvs. \<exists>fi. named c (drop (length pfx) (kvKey kv)) = Some fi \<and> fiIndex fi = j then doc ! j else ?val ! j)"
      using Cons.IH [of ?val] Cons.prems(1-3) by auto
    have "val' ! j = (if \<exists>kv \<in> set (kv # kvs). \<exists>fi. named c (drop (length pfx) (kvKey kv)) = Some fi \<and> fiIndex fi = j then doc ! j else val ! j)"
      if "j < length (colType c)" for j
      using v(3) that Some lt Cons.prems(1) by (cases "j = fiIndex fi") auto
    then show ?thesis using v step by auto
  qed
qed

section \<open>Writing\<close>

lemma doc_writes_other:
  "k \<notin> (\<lambda>fi. fieldKey c i (fiName fi)) ` set fis \<Longrightarrow> doc_writes c i doc fis m k = m k"
  unfolding doc_writes_def by (induction fis arbitrary: m) (auto split: sum.splits)

lemma doc_writes_field:
  assumes "distinct (map fiName fis)" and "fi \<in> set fis"
    and "gfMarshal (colType c ! fiIndex fi) (doc ! fiIndex fi) = Inr raw"
  shows "doc_writes c i doc fis m (fieldKey c i (fiName fi)) = Some raw"
  using assms(1,2)
proof (induction fis arbitrary: m)
  case (Cons x fis)
  have step: "doc_writes c i doc (x # fis) m = doc_writes c i doc fis (case gfMarshal (colType c ! fiIndex x) (doc ! fiIndex x) of
     Inl _ \<Rightarrow> m | Inr raw \<Rightarrow> m(fieldKey c i (fiName x) \<mapsto> raw))"
    by (simp add: doc_writes_def)
  show ?case
  proof (cases "fi = x")
    case True
    then have "fieldKey c i (fiName fi) \<notin> (\<lambda>fi. fieldKey c i (fiName fi)) ` set fis"
      using Cons.prems(1) by (auto simp: fieldKey_def)
    then show ?thesis using True assms(3) by (simp add: step doc_writes_other)
  next
    case False
    then show ?thesis using Cons by (simp add: step)
  qed
qed simp

context kv_store
begin

lemma write_fields_spec:
  assumes "inv s" and "\<And>fi. fi \<in> set fis \<Longrightarrow> \<exists>raw. gfMarshal (colType c ! fiIndex fi) (doc ! fiIndex fi) = Inr raw"
  shows "\<exists>s'. write_fields S c i doc fis s = (Inr (), s') \<and> inv s' \<and> abs s' = doc_writes c i doc fis (abs s)"
  using assms
proof (induction fis arbitrary: s)
  case Nil
  then show ?case by (simp add: doc_writes_def)
next
  case (Cons fi fis)
  obtain raw where raw: "gfMarshal (colType c ! fiIndex fi) (doc ! fiIndex fi) = Inr raw"
    using Cons.prems(2) [of fi] by auto
  obtain s1 where s1: "sSet S (fieldKey c i (fiName fi)) raw s = (Inr (), s1)"
      "inv s1" "abs s1 = (abs s)(fieldKey c i (fiName fi) \<mapsto> raw)"
    using set_run [OF Cons.prems(1)] .
  obtain s' where s': "write_fields S c i doc fis s1 = (Inr (), s')" "inv s'" "abs s' = doc_writes c i doc fis (abs s1)"
    using Cons.IH [of s1] Cons.prems(2) s1(2) by auto
  have "abs s' = doc_writes c i doc (fi # fis) (abs s)"
    unfolding s'(3) s1(3) by (simp add: doc_writes_def raw)
  with s' s1 raw show ?case by simp
qed

lemma colSet_spec:
  assumes "inv s" and "codec_ok c doc"
  shows "\<exists>s'. colSet S c i doc s = (Inr (), s') \<and> inv s' \<and>
    abs s' = doc_writes c i doc (colFields c) ((abs s)(idxKey c i \<mapsto> ''1''))"
proof -
  obtain s1 where "sSet S (idxKey c i) ''1'' s = (Inr (), s1)" "inv s1" "abs s1 = (abs s)(idxKey c i \<mapsto> ''1'')"
    using set_run [OF assms(1)] .
  moreover have "\<exists>raw. gfMarshal (colType c ! fiIndex fi) (doc ! fiIndex fi) = Inr raw" if "fi \<in> set (colFields c)" for fi
    using assms(2) that by (auto simp: codec_ok_def)
  ultimately show ?thesis using write_fields_spec [of s1 "colFields c" c doc i] by (auto simp: colSet_def)
qed

text \<open>\<open>Get\<close> is a function of the content.\<close>

lemma colGet_spec:
  assumes "inv s"
  shows "fst (colGet S c i s) = (case abs s (idxKey c i) of None \<Rightarrow> Inl ErrNotFound
      | Some _ \<Rightarrow> read_fields c [] (docPrefix c i) (list_spec (abs s) \<lparr>Prefix = docPrefix c i, StartAfter = [], Limit = 0\<rparr>) (zero_doc c))"
    and "inv (snd (colGet S c i s))" and "abs (snd (colGet S c i s)) = abs s"
proof -
  let ?a = "\<lparr>Prefix = docPrefix c i, StartAfter = [], Limit = 0\<rparr>"
  obtain s1 where s1: "sGet S (idxKey c i) s = (case abs s (idxKey c i) of None \<Rightarrow> Inl ErrNotFound | Some v \<Rightarrow> Inr v, s1)"
      "inv s1" "abs s1 = abs s"
    using get_run [OF assms] .
  obtain s2 where s2: "sList S ?a s1 = (Inr (list_spec (abs s) ?a), s2)" "inv s2" "abs s2 = abs s"
    using list_run [OF s1(2), of ?a] s1(3) by auto
  show "fst (colGet S c i s) = (case abs s (idxKey c i) of None \<Rightarrow> Inl ErrNotFound
      | Some _ \<Rightarrow> read_fields c [] (docPrefix c i) (list_spec (abs s) ?a) (zero_doc c))"
    "inv (snd (colGet S c i s))" "abs (snd (colGet S c i s)) = abs s"
    using s1 s2 by (simp_all add: colGet_def split: option.splits)
qed

lemma colGet_agree:
  assumes "inv s" and "inv s'" and "abs s' (idxKey c i) = abs s (idxKey c i)"
    and "\<And>k. prefix (docPrefix c i) k \<Longrightarrow> abs s' k = abs s k"
  shows "fst (colGet S c i s') = fst (colGet S c i s)"
proof -
  have "list_spec (abs s') \<lparr>Prefix = docPrefix c i, StartAfter = [], Limit = 0\<rparr>
      = list_spec (abs s) \<lparr>Prefix = docPrefix c i, StartAfter = [], Limit = 0\<rparr>"
    using assms(4) by (intro list_spec_agree) (simp add: in_range_def)
  then show ?thesis using assms by (simp add: colGet_spec split: option.split)
qed

end

lemma read_back:
  assumes "finite (dom m)" and "col_ok c" and "codec_ok c doc" and "slash_free i"
    and m: "m = doc_writes c i doc (colFields c) m0"
  shows "read_fields c loc (docPrefix c i) (list_spec m \<lparr>Prefix = docPrefix c i, StartAfter = [], Limit = 0\<rparr>) (zero_doc c)
    = Inr (visible_doc c doc)"
proof -
  let ?a = "\<lparr>Prefix = docPrefix c i, StartAfter = [], Limit = 0\<rparr>" and ?n = "length (docPrefix c i)"
  let ?L = "list_spec m ?a"
  have fk: "fieldKey c i f = docPrefix c i @ f" for f by (simp add: fieldKey_def docPrefix_def)
  have field: "\<exists>raw. m (fieldKey c i (fiName fi)) = Some raw \<and>
      gfUnmarshal (colType c ! fiIndex fi) raw (zero_doc c ! fiIndex fi) = Inr (doc ! fiIndex fi)"
    if "fi \<in> set (colFields c)" for fi
  proof -
    obtain raw where raw: "gfMarshal (colType c ! fiIndex fi) (doc ! fiIndex fi) = Inr raw"
        "gfUnmarshal (colType c ! fiIndex fi) raw (gfZero (colType c ! fiIndex fi)) = Inr (doc ! fiIndex fi)"
      using assms(3) \<open>fi \<in> set (colFields c)\<close> by (auto simp: codec_ok_def)
    moreover have "m (fieldKey c i (fiName fi)) = Some raw"
      unfolding m using assms(2) raw(1) that by (intro doc_writes_field) (auto simp: col_ok_def)
    ultimately show ?thesis using assms(2) that by (auto simp: zero_doc_def col_ok_def)
  qed
  have entry: "m (kvKey kv) = Some (kvValue kv) \<and> prefix (docPrefix c i) (kvKey kv)" if "kv \<in> set ?L" for kv
    using list_spec_entry [OF assms(1) that] by (simp add: in_range_def)
  have dec: "gfUnmarshal (colType c ! fiIndex fi) (kvValue kv) (zero_doc c ! fiIndex fi) = Inr (doc ! fiIndex fi)"
    if "kv \<in> set ?L" "named c (drop ?n (kvKey kv)) = Some fi" for kv fi
  proof -
    have fi: "fi \<in> set (colFields c)" "fiName fi = drop ?n (kvKey kv)" using named_Some [OF assms(2)] that(2) by auto
    have "fieldKey c i (fiName fi) = kvKey kv" using entry [OF that(1)] fi(2) by (auto simp: fk prefix_def)
    then show ?thesis using field [OF fi(1)] entry [OF that(1)] by simp
  qed
  have all: "\<exists>kv \<in> set ?L. \<exists>fi. named c (drop ?n (kvKey kv)) = Some fi \<and> fiIndex fi = j"
    if j: "j \<in> fiIndex ` set (colFields c)" for j
  proof -
    obtain fi where fi: "fi \<in> set (colFields c)" "fiIndex fi = j" using j by auto
    have "entry_at m (fieldKey c i (fiName fi)) \<in> set ?L"
      using field [OF fi(1)] assms(1) by (auto simp: set_list_spec_unlimited in_range_def fk)
    moreover have "named c (drop ?n (kvKey (entry_at m (fieldKey c i (fiName fi))))) = Some fi"
      using named_Some [OF assms(2)] fi(1) by (simp add: entry_at_def fk)
    ultimately show ?thesis using fi(2) by blast
  qed
  have zl: "length (zero_doc c) = length (colType c)" by (simp add: zero_doc_def)
  obtain val' where v: "read_fields c loc (docPrefix c i) ?L (zero_doc c) = Inr val'" "length val' = length (colType c)"
      "\<forall>j < length (colType c). val' ! j =
        (if \<exists>kv \<in> set ?L. \<exists>fi. named c (drop ?n (kvKey kv)) = Some fi \<and> fiIndex fi = j then doc ! j else zero_doc c ! j)"
    using read_fields_ok [OF assms(2) zl list_spec_distinct, of m ?a "docPrefix c i" doc loc] entry dec by blast
  have "val' = visible_doc c doc"
  proof (rule nth_equalityI)
    fix j assume j: "j < length val'"
    have "(\<exists>kv \<in> set ?L. \<exists>fi. named c (drop ?n (kvKey kv)) = Some fi \<and> fiIndex fi = j) \<longleftrightarrow> j \<in> fiIndex ` set (colFields c)"
      using all [of j] named_Some [OF assms(2)] by blast
    then show "val' ! j = visible_doc c doc ! j" using v(2,3) j by (simp add: visible_doc_def zero_doc_def)
  qed (simp add: v visible_doc_def)
  then show ?thesis using v(1) by simp
qed

section \<open>Deleting and listing\<close>

lemma sorted_list_of_set_append:
  "finite X \<Longrightarrow> sorted_list_of_set ((@) p ` X) = map ((@) p) (sorted_list_of_set (X :: string set))"
  by (rule strict_sorted_equal)
    (auto simp: strict_sorted_list_of_set sorted_wrt_map)

context kv_store
begin

lemma delete_keys_spec:
  assumes "inv s" and "distinct (map kvKey kvs)" and "kvKey ` set kvs \<subseteq> dom (abs s)"
  shows "\<exists>s'. delete_keys S kvs s = (Inr (), s') \<and> inv s' \<and> abs s' = (abs s) |` (- (kvKey ` set kvs))"
  using assms
proof (induction kvs arbitrary: s)
  case Nil
  then show ?case by simp
next
  case (Cons kv kvs)
  obtain s1 where s1: "sDelete S (kvKey kv) s = (Inr (), s1)" "inv s1" "abs s1 = (abs s)(kvKey kv := None)"
    by (rule delete_run_present [OF Cons.prems(1), of "kvKey kv"]) (use Cons.prems(3) in auto)
  have "kvKey kv \<notin> kvKey ` set kvs" using Cons.prems(2) by simp
  moreover have "kvKey ` set kvs \<subseteq> dom (abs s)" using Cons.prems(3) by simp
  ultimately have "kvKey ` set kvs \<subseteq> dom (abs s) - {kvKey kv}" by blast
  then have "kvKey ` set kvs \<subseteq> dom (abs s1)" unfolding s1(3) dom_fun_upd by simp
  then obtain s' where s': "delete_keys S kvs s1 = (Inr (), s')" "inv s'" "abs s' = (abs s1) |` (- (kvKey ` set kvs))"
    using Cons.IH [of s1] Cons.prems(2) s1(2) by auto
  have "abs s' = (abs s) |` (- (kvKey ` set (kv # kvs)))"
    unfolding s'(3) s1(3) by (auto simp: restrict_map_def fun_eq_iff)
  with s' s1 show ?case by simp
qed

lemma colDelete_spec:
  assumes "inv s"
  shows "\<exists>s'. colDelete S c i s = (if abs s (idxKey c i) = None then Inl ErrNotFound else Inr (), s') \<and> inv s' \<and>
    abs s' = (if abs s (idxKey c i) = None then abs s
      else (abs s) |` (- insert (idxKey c i) {k. prefix (docPrefix c i) k}))"
proof -
  let ?a = "\<lparr>Prefix = docPrefix c i, StartAfter = [], Limit = 0\<rparr>"
  obtain s1 where s1: "sGet S (idxKey c i) s = (case abs s (idxKey c i) of None \<Rightarrow> Inl ErrNotFound | Some v \<Rightarrow> Inr v, s1)"
      "inv s1" "abs s1 = abs s"
    using get_run [OF assms] .
  show ?thesis
  proof (cases "abs s (idxKey c i)")
    case None
    then show ?thesis using s1 by (simp add: colDelete_def)
  next
    case (Some v)
    obtain s2 where s2: "sDelete S (idxKey c i) s1 = (Inr (), s2)" "inv s2" "abs s2 = (abs s)(idxKey c i := None)"
      by (rule delete_run_present [OF s1(2), of "idxKey c i"]) (use s1(3) Some in auto)
    obtain s3 where s3: "sList S ?a s2 = (Inr (list_spec (abs s2) ?a), s3)" "inv s3" "abs s3 = abs s2"
      using list_run [OF s2(2)] .
    have L: "kvKey ` set (list_spec (abs s2) ?a) = {k \<in> dom (abs s2). prefix (docPrefix c i) k}"
      using content_finite [OF s2(2)] by (auto simp: set_list_spec_unlimited in_range_def entry_at_def image_iff)
    obtain s4 where s4: "delete_keys S (list_spec (abs s2) ?a) s3 = (Inr (), s4)" "inv s4"
        "abs s4 = (abs s3) |` (- (kvKey ` set (list_spec (abs s2) ?a)))"
      using delete_keys_spec [OF s3(2) list_spec_distinct, of "abs s2" ?a] L s3(3) by auto
    have "abs s4 = (abs s2) |` (- {k \<in> dom (abs s2). prefix (docPrefix c i) k})"
      using s4(3) unfolding L s3(3) .
    then have "abs s4 = (abs s) |` (- insert (idxKey c i) {k. prefix (docPrefix c i) k})"
      unfolding s2(3) by (auto simp: restrict_map_def fun_eq_iff domIff)
    with s1 s2 s3 s4 Some show ?thesis by (simp add: colDelete_def)
  qed
qed

lemma assemble_ok:
  assumes "inv s" and "assemble S c idxs s = (Inr docs, s')" and "\<And>kv. kv \<in> set idxs \<Longrightarrow> \<exists>i. kvKey kv = idxKey c i"
  shows "map (\<lambda>d. idxKey c (docID d)) docs = map kvKey idxs \<and> inv s' \<and> abs s' = abs s \<and>
    (\<forall>d \<in> set docs. abs s (idxKey c (docID d)) \<noteq> None \<longrightarrow> fst (colGet S c (docID d) s) = Inr (docValue d))"
  using assms
proof (induction idxs arbitrary: docs s)
  case Nil
  then show ?case by simp
next
  case (Cons kv idxs)
  obtain i where i: "kvKey kv = idxKey c i" using Cons.prems(3) by auto
  then have e: "extractDocID c (kvKey kv) = i" by (simp add: extractDocID_def idxKey_def)
  let ?a = "\<lparr>Prefix = docPrefix c i, StartAfter = [], Limit = 0\<rparr>"
  obtain s1 where s1: "sList S ?a s = (Inr (list_spec (abs s) ?a), s1)" "inv s1" "abs s1 = abs s"
    using list_run [OF Cons.prems(1)] .
  obtain val ds where val: "read_fields c ('' of doc '' @ i) (docPrefix c i) (list_spec (abs s) ?a) (zero_doc c) = Inr val"
      and ds: "assemble S c idxs s1 = (Inr ds, s')" "docs = \<lparr>docID = i, docValue = val\<rparr> # ds"
    using Cons.prems(2) s1(1) by (auto simp: e Let_def split: sum.splits prod.splits)
  have loc: "read_fields c loc' p kvs v = Inr w" if "read_fields c loc p kvs v = Inr w" for loc loc' p kvs v w
    using that by (induction kvs arbitrary: v) (auto simp: read_field_def split: sum.splits option.splits)
  have IH: "map (\<lambda>d. idxKey c (docID d)) ds = map kvKey idxs" "inv s'" "abs s' = abs s"
      "\<And>d. d \<in> set ds \<Longrightarrow> abs s (idxKey c (docID d)) \<noteq> None \<Longrightarrow> fst (colGet S c (docID d) s1) = Inr (docValue d)"
    using Cons.IH [OF s1(2) ds(1)] Cons.prems(3) s1(3) by auto
  have "fst (colGet S c j s1) = fst (colGet S c j s)" for j
    using colGet_agree [OF Cons.prems(1) s1(2), of c j] s1(3) by simp
  moreover have "fst (colGet S c i s) = Inr val" if "abs s (idxKey c i) \<noteq> None"
    using that colGet_spec(1) [OF Cons.prems(1), of c i] loc [OF val, of "[]"] by auto
  ultimately show ?case using IH i ds(2) by auto
qed

lemma colList_ids:
  assumes "inv s"
  shows "map kvKey (list_spec (abs s) \<lparr>Prefix = idxPrefix c p, StartAfter = (if a \<noteq> [] then idxKey c a else []), Limit = n\<rparr>)
    = map (idxKey c) (limit_to n (sorted_list_of_set {i. abs s (idxKey c i) \<noteq> None \<and> prefix p i \<and> (a = [] \<or> a < i)}))"
proof -
  let ?p = "colPrefix c @ colName c @ ''/'' @ idxInfix" and ?I = "{i. abs s (idxKey c i) \<noteq> None \<and> prefix p i \<and> (a = [] \<or> a < i)}"
  have k: "idxKey c = (@) ?p" "idxPrefix c p = ?p @ p" by (simp_all add: idxKey_def idxPrefix_def fun_eq_iff)
  have img: "{k \<in> dom (abs s). in_range \<lparr>Prefix = idxPrefix c p, StartAfter = (if a \<noteq> [] then idxKey c a else []), Limit = n\<rparr> k} = (@) ?p ` ?I"
  proof (intro set_eqI iffI)
    fix k assume K: "k \<in> {k \<in> dom (abs s). in_range \<lparr>Prefix = idxPrefix c p, StartAfter = (if a \<noteq> [] then idxKey c a else []), Limit = n\<rparr> k}"
    then obtain z where z: "k = ?p @ (p @ z)" by (auto simp: in_range_def k(2) prefix_def)
    have "p @ z \<in> ?I" using K by (auto simp: z in_range_def k split: if_splits)
    then show "k \<in> (@) ?p ` ?I" unfolding z by (rule imageI)
  next
    fix k assume "k \<in> (@) ?p ` ?I"
    then show "k \<in> {k \<in> dom (abs s). in_range \<lparr>Prefix = idxPrefix c p, StartAfter = (if a \<noteq> [] then idxKey c a else []), Limit = n\<rparr> k}"
      by (auto simp: in_range_def k)
  qed
  have "finite ((@) ?p ` ?I)" unfolding img [symmetric] using content_finite [OF assms] by simp
  then have "finite ?I" by (rule finite_imageD) (simp add: inj_on_def)
  then show ?thesis unfolding list_spec_keys img by (simp only: sorted_list_of_set_append k(1) limit_to_map ListArgs.simps)
qed

end

section \<open>Properties\<close>

text \<open>C22. A document that was stored is read back: for a type whose fields have distinct
  names, and an identifier with no slash, \<open>Set\<close> succeeds whenever every field can be
  encoded, \<open>Get\<close> then returns the document with the fields that are not stored at their zero
  value, and the other documents are read as before.\<close>

theorem collection_round_trip:
  assumes "kv_store S I A" and "I s" and "col_ok c" and "codec_ok c doc" and "slash_free i"
  shows "\<exists>s'. colSet S c i doc s = (Inr (), s') \<and> I s' \<and> fst (colGet S c i s') = Inr (visible_doc c doc) \<and>
    (\<forall>j. slash_free j \<longrightarrow> j \<noteq> i \<longrightarrow> fst (colGet S c j s') = fst (colGet S c j s))"
proof -
  let ?m = "(A s)(idxKey c i \<mapsto> ''1'')"
  obtain s' where s': "colSet S c i doc s = (Inr (), s')" "I s'" "A s' = doc_writes c i doc (colFields c) ?m"
    using kv_store.colSet_spec [OF assms(1,2,4)] by blast
  have fin: "finite (dom (A s'))" using fallible_store.content_finite [OF kv_store.axioms(1) [OF assms(1)] s'(2)] .
  have "A s' (idxKey c i) = Some ''1''"
    unfolding s'(3) using col_keys(7) [OF assms(5,5)] by (subst doc_writes_other) auto
  then have "fst (colGet S c i s') = Inr (visible_doc c doc)"
    using kv_store.colGet_spec(1) [OF assms(1) s'(2), of c i] read_back [OF fin assms(3-5) s'(3), of "[]"] by simp
  moreover have "fst (colGet S c j s') = fst (colGet S c j s)" if "slash_free j" "j \<noteq> i" for j
  proof (rule kv_store.colGet_agree [OF assms(1,2) s'(2)])
    show "A s' (idxKey c j) = A s (idxKey c j)"
      unfolding s'(3) using col_keys(7) [OF assms(5) that(1)] col_keys(4) [OF assms(5) that(1), of c] that(2)
      by (subst doc_writes_other) auto
    show "A s' k = A s k" if "prefix (docPrefix c j) k" for k
      unfolding s'(3) using col_keys(2,3) [OF \<open>slash_free j\<close> assms(5)] that \<open>j \<noteq> i\<close>
      by (subst doc_writes_other) auto
  qed
  ultimately show ?thesis using s' by blast
qed

definition textField :: "string \<Rightarrow> string option \<Rightarrow> string goField" where
  "textField n tag = \<lparr>gfName = n, gfExported = True, gfTag = tag, gfZero = [], gfMarshal = \<lambda>v. Inr v, gfUnmarshal = \<lambda>raw _. Inr raw\<rparr>"

definition people :: "string Collection" where
  "people = NewCollection [textField ''Name'' (Some ''name,omitempty''), textField ''Note'' (Some ''-''), textField ''Age'' None] ''people'' [WithPrefix ''app:'']"

lemma people_simps [simp]:
  "colName people = ''people''" "colPrefix people = ''app:''"
  "colFields people = [\<lparr>fiName = ''name'', fiIndex = 0\<rparr>, \<lparr>fiName = ''Age'', fiIndex = 2\<rparr>]"
  "colType people = [textField ''Name'' (Some ''name,omitempty''), textField ''Note'' (Some ''-''), textField ''Age'' None]"
  by (simp_all add: people_def NewCollection_def WithPrefix_def textField_def upto_char_def)

lemma people_ok: "col_ok people"
  by (simp add: col_ok_def slash_free_def)

lemma people_codec: "codec_ok people [a, b, d]"
  by (simp add: codec_ok_def textField_def)

theorem collection_round_trip_witness:
  "\<exists>s'. colSet memStore people ''ann'' [''Ann'', ''secret'', ''41''] NewMemory = (Inr (), s') \<and>
     fst (colGet memStore people ''ann'' s') = Inr [''Ann'', [], ''41'']"
proof -
  have "visible_doc people [''Ann'', ''secret'', ''41''] = [''Ann'', [], ''41'']"
    by (simp add: visible_doc_def textField_def upt_rec)
  then show ?thesis
    using collection_round_trip [OF mem.kv_store_axioms _ people_ok people_codec, of NewMemory "''ann''" "''Ann''" "''secret''" "''41''"]
    by (auto simp: slash_free_def mem_inv_def NewMemory_def)
qed



text \<open>C24. \<open>List\<close> agrees with \<open>Get\<close>: when it succeeds it returns exactly the indexed identifiers
  with the requested prefix that lie after \<open>StartAfter\<close>, in byte order and cut to the limit,
  and each document has the value that \<open>Get\<close> returns for its identifier.\<close>

theorem collection_list:
  assumes "kv_store S I A" and "I s" and "colList S c [la] s = (Inr docs, s')"
  shows "map docID docs = limit_to (caLimit la) (sorted_list_of_set
      {i. A s (idxKey c i) \<noteq> None \<and> prefix (caPrefix la) i \<and> (caStartAfter la = [] \<or> caStartAfter la < i)}) \<and>
    (\<forall>d \<in> set docs. fst (colGet S c (docID d) s) = Inr (docValue d)) \<and> A s' = A s"
proof -
  let ?a = "\<lparr>Prefix = idxPrefix c (caPrefix la), StartAfter = (if caStartAfter la \<noteq> [] then idxKey c (caStartAfter la) else []), Limit = caLimit la\<rparr>"
  let ?ids = "limit_to (caLimit la) (sorted_list_of_set
      {i. A s (idxKey c i) \<noteq> None \<and> prefix (caPrefix la) i \<and> (caStartAfter la = [] \<or> caStartAfter la < i)})"
  obtain s1 where s1: "sList S ?a s = (Inr (list_spec (A s) ?a), s1)" "I s1" "A s1 = A s"
    using kv_store.list_run [OF assms(1,2)] .
  have ids: "map kvKey (list_spec (A s) ?a) = map (idxKey c) ?ids" by (rule kv_store.colList_ids [OF assms(1,2)])
  have as: "assemble S c (list_spec (A s) ?a) s1 = (Inr docs, s')"
    using assms(3) s1(1) by (auto simp: colList_def Let_def split: if_splits)
  have fin: "finite (dom (A s))" using fallible_store.content_finite [OF kv_store.axioms(1) [OF assms(1)] assms(2)] .
  have "\<exists>i. kvKey kv = idxKey c i" if "kv \<in> set (list_spec (A s) ?a)" for kv
    using list_spec_entry [OF fin that] by (auto simp: in_range_def prefix_def idxPrefix_def idxKey_def)
  note A = kv_store.assemble_ok [OF assms(1) s1(2) as this]
  have inj: "inj (idxKey c)" by (simp add: inj_def idxKey_def)
  have "map (idxKey c) (map docID docs) = map (idxKey c) ?ids" using A ids by (simp add: comp_def)
  then have eq: "map docID docs = ?ids" using inj by (simp only: inj_map_eq_map)
  moreover have "fst (colGet S c (docID d) s) = Inr (docValue d)" if d: "d \<in> set docs" for d
  proof -
    have "idxKey c (docID d) \<in> set (map kvKey (list_spec (A s) ?a))"
      unfolding ids eq [symmetric] using d by simp
    then obtain kv where "kv \<in> set (list_spec (A s) ?a)" "kvKey kv = idxKey c (docID d)" by auto
    then have "A s (idxKey c (docID d)) \<noteq> None" using list_spec_entry [OF fin] by force
    then have "fst (colGet S c (docID d) s1) = Inr (docValue d)" using A d s1(3) by simp
    then show ?thesis using kv_store.colGet_agree [OF assms(1,2) s1(2), of c "docID d"] s1(3) by simp
  qed
  ultimately show ?thesis using A s1(3) by simp
qed

lemma people_list:
  "colList memStore people [\<lparr>caPrefix = [], caStartAfter = [], caLimit = 0\<rparr>]
     \<lparr>data = [(''app:people/%idx%bob'', ''1''), (''app:people/bob/Age'', ''7'')]\<rparr> =
   (Inr [\<lparr>docID = ''bob'', docValue = [[], [], ''7'']\<rparr>], \<lparr>data = [(''app:people/%idx%bob'', ''1''), (''app:people/bob/Age'', ''7'')]\<rparr>)"
  by (simp add: colList_def memStore_def memList_def idxPrefix_def idxInfix_def extractDocID_def docPrefix_def
      read_field_def zero_doc_def textField_def Let_def)

theorem collection_list_witness:
  "fst (colGet memStore people ''bob'' \<lparr>data = [(''app:people/%idx%bob'', ''1''), (''app:people/bob/Age'', ''7'')]\<rparr>) = Inr [[], [], ''7'']"
  using collection_list [OF mem.kv_store_axioms _ people_list] by (simp add: mem_inv_def)

text \<open>Identifiers are not escaped.  A slash in an identifier makes documents overlap:
  deleting the document \<open>a\<close> removes the stored fields of the document \<open>a/b\<close>, which is still
  listed, and then reads as zero values.\<close>

theorem slash_ids_overlap:
  "let s = \<lparr>data = [(''app:people/%idx%a'', ''1''), (''app:people/%idx%a/b'', ''1''), (''app:people/a/b/Age'', ''7'')]\<rparr>;
       s' = snd (colDelete memStore people ''a'' s)
   in fst (colGet memStore people ''a/b'' s) = Inr [[], [], ''7''] \<and>
      fst (colGet memStore people ''a/b'' s') = Inr [[], [], []]"
  by (simp add: colGet_def colDelete_def memStore_def memGet_def memDelete_def memList_def idxKey_def idxInfix_def docPrefix_def
      read_field_def zero_doc_def textField_def)

end
