(* ===== verification/Admission.thy ===== *)
theory Admission
  imports Prelude "HOL-Library.Multiset"
begin

text \<open>
  Who may talk to a server: the client address, the limit on failed authentications, the token
  authorizers and the connection slots of \<open>src/sync/server/main.go\<close>.

  \<open>Server\<close> and \<open>InboxServer\<close> hold the same fields and the same methods for this (the second
  "mirrors" the first), so the fields are one record \<open>admission\<close> that both server records
  extend, and the methods are functions on every extension of it.  Mutexes make each method
  atomic.  Readings of \<open>time.Now()\<close> come from \<open>wallClock\<close>, in nanoseconds, one after another.
  The Go map of counters is an association list with distinct keys.

  Of a request the code looks at the remote address, the method, the path, some headers, a query
  parameter and the body; \<open>rqUpgrade\<close> is what \<open>websocket.IsWebSocketUpgrade\<close> says of it.

  Results: the slots are counted exactly and never exceed their limits in any interleaving of
  requests (\<open>slot_step\<close>), and ten failures within the window block an address.
\<close>

section \<open>Requests\<close>

record Request =
  rqRemoteAddr :: string
  rqMethod :: string
  rqPath :: string
  rqHeader :: "string \<Rightarrow> string"
  rqQuery :: "string \<Rightarrow> string"
  rqUpgrade :: bool
  rqBody :: string

text \<open>\<open>strings.LastIndex\<close> of a character, as the two parts around it.\<close>

definition before_last :: "char \<Rightarrow> string \<Rightarrow> string" where
  "before_last c s = (if c \<in> set s then rev (drop 1 (dropWhile (\<lambda>x. x \<noteq> c) (rev s))) else s)"

definition after_last :: "char \<Rightarrow> string \<Rightarrow> string" where
  "after_last c s = rev (takeWhile (\<lambda>x. x \<noteq> c) (rev s))"

definition TrimRight :: "char \<Rightarrow> string \<Rightarrow> string" where
  "TrimRight c s = rev (dropWhile (\<lambda>x. x = c) (rev s))"

text \<open>\<open>strings.TrimSpace\<close>: the byte sequences of the characters with \<open>unicode.IsSpace\<close>.\<close>

definition space_seqs :: "string list" where
  "space_seqs = map (map char_of)
     ([[9], [10], [11], [12], [13], [32], [0xC2, 0x85], [0xC2, 0xA0], [0xE1, 0x9A, 0x80],
       [0xE2, 0x80, 0xA8], [0xE2, 0x80, 0xA9], [0xE2, 0x80, 0xAF], [0xE2, 0x81, 0x9F], [0xE3, 0x80, 0x80]]
      @ map (\<lambda>n. [0xE2, 0x80, 0x80 + n]) [0..<11] :: nat list list)"

definition find_space :: "(string \<Rightarrow> string) \<Rightarrow> string \<Rightarrow> string option" where
  "find_space f s = find (\<lambda>q. prefix (f q) s) space_seqs"

function trim_with :: "(string \<Rightarrow> string) \<Rightarrow> string \<Rightarrow> string" where
  "trim_with f s = (case find_space f s of
     None \<Rightarrow> s
   | Some q \<Rightarrow> if length q = 0 \<or> length s = 0 then s else trim_with f (drop (length q) s))"
  by pat_completeness auto
termination by (relation "measure (\<lambda>(f, s). length s)") auto

declare trim_with.simps [simp del]

definition TrimSpace :: "string \<Rightarrow> string" where
  "TrimSpace s = rev (trim_with rev (rev (trim_with (\<lambda>q. q) s)))"

section \<open>State\<close>

record authFailEntry =
  afCount :: int
  afResetAt :: int

record admission =
  maxConnsPerPeer :: int
  maxTotalConns :: int
  trustedProxies :: "string list"
  totalConns :: int
  peerConns :: "(string \<times> int) list"
  authFailCount :: "(string \<times> authFailEntry) list"
  wallClock :: "nat \<Rightarrow> int"
  wallTicks :: nat

definition wall_now :: "('b admission_scheme) \<Rightarrow> int \<times> ('b admission_scheme)" where
  "wall_now s = (wallClock s (wallTicks s), s\<lparr>wallTicks := Suc (wallTicks s)\<rparr>)"

definition SetMaxConnsPerPeer :: "int \<Rightarrow> ('b admission_scheme) \<Rightarrow> ('b admission_scheme)" where
  "SetMaxConnsPerPeer n s = s\<lparr>maxConnsPerPeer := n\<rparr>"

definition SetMaxTotalConns :: "int \<Rightarrow> ('b admission_scheme) \<Rightarrow> ('b admission_scheme)" where
  "SetMaxTotalConns n s = s\<lparr>maxTotalConns := n\<rparr>"

definition SetTrustedProxies :: "string list \<Rightarrow> ('b admission_scheme) \<Rightarrow> ('b admission_scheme)" where
  "SetTrustedProxies ips s = s\<lparr>trustedProxies := remdups ips\<rparr>"

section \<open>Client address and failed authentications\<close>

definition clientIP :: "Request \<Rightarrow> ('b admission_scheme) \<Rightarrow> string" where
  "clientIP r s =
     (let ip = before_last (CHR '':'') (rqRemoteAddr r);
          xff = rqHeader r ''X-Forwarded-For''
      in if trustedProxies s \<noteq> [] \<and> ip \<in> set (trustedProxies s) \<and> xff \<noteq> []
         then (if CHR '','' \<in> set xff then TrimSpace (upto_char (CHR '','') xff) else TrimSpace xff)
         else ip)"

definition checkAuthRateLimit :: "string \<Rightarrow> ('b admission_scheme) \<Rightarrow> bool \<times> ('b admission_scheme)" where
  "checkAuthRateLimit ip s =
     (case map_of (authFailCount s) ip of
        None \<Rightarrow> (False, s)
      | Some entry \<Rightarrow>
          (case wall_now s of (now, s) \<Rightarrow>
             if now > afResetAt entry
             then (False, s\<lparr>authFailCount := AList.delete ip (authFailCount s)\<rparr>)
             else (afCount entry \<ge> 10, s)))"

definition new_auth_failure :: "string \<Rightarrow> ('b admission_scheme) \<Rightarrow> ('b admission_scheme)" where
  "new_auth_failure ip s =
     (case wall_now s of (now, s) \<Rightarrow>
        s\<lparr>authFailCount := AList.update ip \<lparr>afCount = 1, afResetAt = now + 60 * 1000000000\<rparr> (authFailCount s)\<rparr>)"

definition recordAuthFailure :: "string \<Rightarrow> ('b admission_scheme) \<Rightarrow> ('b admission_scheme)" where
  "recordAuthFailure ip s =
     (if length (authFailCount s) \<ge> 10000 then s
      else (case map_of (authFailCount s) ip of
              None \<Rightarrow> new_auth_failure ip s
            | Some entry \<Rightarrow>
                (case wall_now s of (now, s) \<Rightarrow>
                   if now > afResetAt entry then new_auth_failure ip s
                   else s\<lparr>authFailCount := AList.update ip (entry\<lparr>afCount := afCount entry + 1\<rparr>) (authFailCount s)\<rparr>)))"

section \<open>Authorizers\<close>

text \<open>An authorizer sees the request and what \<open>time.Now()\<close> returns when it asks.\<close>

type_synonym Authorizer = "Request \<Rightarrow> int \<Rightarrow> string result"

text \<open>\<open>tiExpiresAt = None\<close> is the zero time.\<close>

record TokenInfo =
  tiPeerID :: string
  tiExpiresAt :: "int option"

definition lookup_token :: "(string \<rightharpoonup> string) \<Rightarrow> string \<Rightarrow> string result" where
  "lookup_token tokens token =
     (case tokens token of None \<Rightarrow> Inl (Errorf ''invalid token'') | Some peerID \<Rightarrow> Inr peerID)"

definition TokenAuth :: "(string \<rightharpoonup> string) \<Rightarrow> Authorizer" where
  "TokenAuth tokens r now =
     (let auth = rqHeader r ''Authorization''
      in if \<not> prefix ''Bearer '' auth then Inl (Errorf ''missing or invalid Authorization header'')
         else lookup_token tokens (TrimPrefix auth ''Bearer ''))"

definition TokenAuthWithParam :: "string \<Rightarrow> (string \<rightharpoonup> string) \<Rightarrow> Authorizer" where
  "TokenAuthWithParam param tokens r now =
     (let auth = rqHeader r ''Authorization''; token = rqQuery r param
      in if prefix ''Bearer '' auth then lookup_token tokens (TrimPrefix auth ''Bearer '')
         else if token \<noteq> [] then lookup_token tokens token
         else Inl (Errorf ''missing or invalid Authorization header''))"

definition validateTokenWithExpiry :: "(string \<rightharpoonup> TokenInfo) \<Rightarrow> string \<Rightarrow> int \<Rightarrow> string result" where
  "validateTokenWithExpiry tokens token now =
     (case tokens token of
        None \<Rightarrow> Inl (Errorf ''invalid token'')
      | Some info \<Rightarrow>
          (case tiExpiresAt info of
             Some t \<Rightarrow> if now > t then Inl (Errorf ''token expired'') else Inr (tiPeerID info)
           | None \<Rightarrow> Inr (tiPeerID info)))"

definition TokenAuthWithExpiry :: "(string \<rightharpoonup> TokenInfo) \<Rightarrow> Authorizer" where
  "TokenAuthWithExpiry tokens r now =
     (let auth = rqHeader r ''Authorization''
      in if \<not> prefix ''Bearer '' auth then Inl (Errorf ''missing or invalid Authorization header'')
         else validateTokenWithExpiry tokens (TrimPrefix auth ''Bearer '') now)"

definition TokenAuthWithExpiryAndParam :: "string \<Rightarrow> (string \<rightharpoonup> TokenInfo) \<Rightarrow> Authorizer" where
  "TokenAuthWithExpiryAndParam param tokens r now =
     (let auth = rqHeader r ''Authorization''; token = rqQuery r param
      in if prefix ''Bearer '' auth then validateTokenWithExpiry tokens (TrimPrefix auth ''Bearer '') now
         else if token \<noteq> [] then validateTokenWithExpiry tokens token now
         else Inl (Errorf ''missing or invalid Authorization header''))"

section \<open>Connection slots\<close>

text \<open>Reading a missing key of a Go map of integers gives 0.\<close>

definition conns_of :: "(string \<times> int) list \<Rightarrow> string \<Rightarrow> int" where
  "conns_of m p = (case map_of m p of None \<Rightarrow> 0 | Some n \<Rightarrow> n)"

definition acquireConn :: "string \<Rightarrow> ('b admission_scheme) \<Rightarrow> (unit, 'b admission_scheme) outcome" where
  "acquireConn peerID s =
     (if totalConns s \<ge> maxTotalConns s
      then (Inl (Errorf (''maximum total connections reached ('' @ itoa (maxTotalConns s) @ '')'')), s)
      else if conns_of (peerConns s) peerID \<ge> maxConnsPerPeer s
      then (Inl (Errorf (''maximum connections per peer reached ('' @ itoa (maxConnsPerPeer s) @ '')'')), s)
      else (Inr (), s\<lparr>totalConns := totalConns s + 1,
              peerConns := AList.update peerID (conns_of (peerConns s) peerID + 1) (peerConns s)\<rparr>))"

definition releaseConn :: "string \<Rightarrow> ('b admission_scheme) \<Rightarrow> ('b admission_scheme)" where
  "releaseConn peerID s =
     (let s = (if totalConns s > 0 then s\<lparr>totalConns := totalConns s - 1\<rparr> else s);
          n = conns_of (peerConns s) peerID - 1
      in if n \<le> 0 then s\<lparr>peerConns := AList.delete peerID (peerConns s)\<rparr>
         else s\<lparr>peerConns := AList.update peerID n (peerConns s)\<rparr>)"

section \<open>Slots are counted exactly\<close>

text \<open>
  \<open>slot_run s M\<close>: the server can be in state \<open>s\<close> with the multiset \<open>M\<close> of peers whose
  requests were admitted and not yet finished.  Requests of any peers interleave; failed
  authentications are recorded and checked at any time.
\<close>

inductive slot_run :: "('b admission_scheme) \<Rightarrow> string multiset \<Rightarrow> bool" where
  start: "totalConns s = 0 \<Longrightarrow> peerConns s = [] \<Longrightarrow> slot_run s {#}"
| admit: "slot_run s M \<Longrightarrow> acquireConn p s = (Inr (), s') \<Longrightarrow> slot_run s' (add_mset p M)"
| refuse: "slot_run s M \<Longrightarrow> acquireConn p s = (Inl e, s') \<Longrightarrow> slot_run s' M"
| finish: "slot_run s M \<Longrightarrow> p \<in># M \<Longrightarrow> slot_run (releaseConn p s) (M - {#p#})"
| check: "slot_run s M \<Longrightarrow> slot_run (snd (checkAuthRateLimit ip s)) M"
| fail: "slot_run s M \<Longrightarrow> slot_run (recordAuthFailure ip s) M"

definition slots :: "('b admission_scheme) \<Rightarrow> string multiset \<Rightarrow> bool" where
  "slots s M \<longleftrightarrow> totalConns s = int (size M) \<and> distinct (map fst (peerConns s)) \<and>
     map_of (peerConns s) = (\<lambda>p. if p \<in># M then Some (int (count M p)) else None) \<and>
     int (size M) \<le> max 0 (maxTotalConns s) \<and> (\<forall>p. int (count M p) \<le> max 0 (maxConnsPerPeer s))"

lemma slots_conns_of: "slots s M \<Longrightarrow> conns_of (peerConns s) p = int (count M p)"
  by (auto simp: slots_def conns_of_def not_in_iff)

lemma slots_acquire:
  assumes "slots s M" and "acquireConn p s = (Inr (), s')"
  shows "slots s' (add_mset p M)"
proof -
  have g: "int (size M) < maxTotalConns s" "int (count M p) < maxConnsPerPeer s"
    and s': "s' = s\<lparr>totalConns := int (size M) + 1, peerConns := AList.update p (int (count M p) + 1) (peerConns s)\<rparr>"
    using assms(2) slots_conns_of [OF assms(1), of p] assms(1) by (auto simp: acquireConn_def slots_def split: if_splits)
  have "map_of (AList.update p (int (count M p) + 1) (peerConns s)) =
      (\<lambda>q. if q \<in># add_mset p M then Some (int (count (add_mset p M) q)) else None)"
    using assms(1) by (auto simp: slots_def update_conv' fun_eq_iff)
  with assms(1) g show ?thesis by (auto simp: slots_def s' distinct_update)
qed

lemma slots_release:
  assumes "slots s M" and "p \<in># M"
  shows "slots (releaseConn p s) (M - {#p#})"
proof -
  have c: "0 < count M p" "0 < size M" using assms(2) by (auto simp: nonempty_has_size [symmetric])
  have conn: "conns_of (peerConns s) p = int (count M p)" by (rule slots_conns_of [OF assms(1)])
  have tot: "totalConns s = int (size M)" using assms(1) by (simp add: slots_def)
  have sz: "int (size (M - {#p#})) = int (size M) - 1" using assms(2) c by (simp add: size_Diff_singleton)
  have le: "int (count (M - {#p#}) q) \<le> max 0 (maxConnsPerPeer s)" for q
    using assms(1) unfolding slots_def by (smt (verit) count_diff of_nat_le_iff diff_le_self)
  show ?thesis
  proof (cases "count M p = 1")
    case True
    then have "p \<notin># M - {#p#}" by (simp add: not_in_iff)
    then have "(map_of (peerConns s))(p := None) = (\<lambda>q. if q \<in># M - {#p#} then Some (int (count (M - {#p#}) q)) else None)"
      using assms(1) by (auto simp: slots_def fun_eq_iff in_diff_count)
    moreover have "releaseConn p s = s\<lparr>totalConns := int (size M) - 1, peerConns := AList.delete p (peerConns s)\<rparr>"
      using True c tot conn by (simp add: releaseConn_def Let_def)
    ultimately show ?thesis using assms(1) sz le by (simp add: slots_def delete_conv' distinct_delete)
  next
    case False
    then have "1 < count M p" using c(1) by linarith
    then have "p \<in># M - {#p#}" by (simp add: in_diff_count)
    moreover have "int (count M p) - 1 = int (count (M - {#p#}) p)" using c by simp
    ultimately have "(map_of (peerConns s))(p \<mapsto> int (count M p) - 1) = (\<lambda>q. if q \<in># M - {#p#} then Some (int (count (M - {#p#}) q)) else None)"
      using assms(1) by (auto simp: slots_def fun_eq_iff in_diff_count)
    moreover have "releaseConn p s = s\<lparr>totalConns := int (size M) - 1, peerConns := AList.update p (int (count M p) - 1) (peerConns s)\<rparr>"
      using False c tot conn \<open>1 < count M p\<close> by (simp add: releaseConn_def Let_def)
    ultimately show ?thesis using assms(1) sz le by (simp add: slots_def update_conv' distinct_update)
  qed
qed

lemma auth_slots:
  "slots (snd (checkAuthRateLimit ip s)) M \<longleftrightarrow> slots s M" "slots (recordAuthFailure ip s) M \<longleftrightarrow> slots s M"
  by (auto simp: slots_def checkAuthRateLimit_def recordAuthFailure_def new_auth_failure_def wall_now_def split: option.splits)

lemma slot_run_slots: "slot_run s M \<Longrightarrow> slots s M"
proof (induction rule: slot_run.induct)
  case (start s)
  then show ?case by (simp add: slots_def)
next
  case (refuse s M p e s')
  then show ?case by (auto simp: acquireConn_def split: if_splits)
qed (auto simp: slots_acquire slots_release auth_slots)

section \<open>Counting failures\<close>

lemma update_length: "map_of xs k = Some v \<Longrightarrow> length (AList.update k e xs) = length xs"
  by (induction xs) (auto split: if_splits)

lemma record_failures:
  assumes "map_of (authFailCount s) ip = None" and "length (authFailCount s) < 9999"
    and "\<And>k. k \<le> Suc n \<Longrightarrow> wallClock s (wallTicks s + k) \<le> wallClock s (wallTicks s) + 60000000000"
  shows "\<exists>s'. (recordAuthFailure ip ^^ Suc n) s = s' \<and> length (authFailCount s') < 10000 \<and> wallClock s' = wallClock s \<and>
    wallTicks s' = wallTicks s + Suc n \<and>
    map_of (authFailCount s') ip = Some \<lparr>afCount = int (Suc n), afResetAt = wallClock s (wallTicks s) + 60000000000\<rparr>"
  using assms(3)
proof (induction n)
  case 0
  have "length (AList.update ip e xs) \<le> Suc (length xs)" for e :: authFailEntry and xs
    by (induction xs) auto
  from le_less_trans [OF this] show ?case
    using assms(1,2) by (simp add: recordAuthFailure_def new_auth_failure_def wall_now_def update_conv')
next
  case (Suc n)
  obtain s' where s': "(recordAuthFailure ip ^^ Suc n) s = s'" "length (authFailCount s') < 10000" "wallClock s' = wallClock s"
      "wallTicks s' = wallTicks s + Suc n"
      "map_of (authFailCount s') ip = Some \<lparr>afCount = int (Suc n), afResetAt = wallClock s (wallTicks s) + 60000000000\<rparr>"
    using Suc.IH Suc.prems by auto
  have "length (AList.update ip e (authFailCount s')) = length (authFailCount s')" for e
    using update_length [OF s'(5)] .
  moreover have "recordAuthFailure ip s' = s'\<lparr>wallTicks := Suc (wallTicks s'),
      authFailCount := AList.update ip \<lparr>afCount = int (Suc (Suc n)), afResetAt = wallClock s (wallTicks s) + 60000000000\<rparr> (authFailCount s')\<rparr>"
    using s'(2-5) Suc.prems [of "Suc n"] by (simp add: recordAuthFailure_def wall_now_def)
  moreover have "(recordAuthFailure ip ^^ Suc (Suc n)) s = recordAuthFailure ip s'" using s'(1) by simp
  ultimately show ?case using s'(2-4) by (simp add: update_conv')
qed

section \<open>Properties\<close>

text \<open>C28. Connection slots are counted exactly: in every interleaving of requests, the total is the
  number of admitted requests that have not finished, each peer's counter is the number of its
  own, a peer with none has no entry, and neither limit is ever exceeded.\<close>

theorem conn_slots_exact:
  assumes "slot_run s M"
  shows "totalConns s = int (size M) \<and> (\<forall>p. conns_of (peerConns s) p = int (count M p)) \<and>
    fst ` set (peerConns s) = set_mset M \<and>
    int (size M) \<le> max 0 (maxTotalConns s) \<and> (\<forall>p. int (count M p) \<le> max 0 (maxConnsPerPeer s))"
proof -
  have s: "slots s M" using slot_run_slots [OF assms] .
  have "fst ` set (peerConns s) = dom (map_of (peerConns s))" by (simp add: dom_map_of_conv_image_fst)
  also have "\<dots> = set_mset M" using s by (auto simp: slots_def dom_def split: if_splits)
  finally show ?thesis using s slots_conns_of [OF s] by (simp add: slots_def)
qed

definition gate :: admission where
  "gate = \<lparr>maxConnsPerPeer = 1, maxTotalConns = 2, trustedProxies = [], totalConns = 0, peerConns = [], authFailCount = [],
     wallClock = (\<lambda>n. int n), wallTicks = 0\<rparr>"

theorem conn_slots_exact_witness:
  "conns_of (peerConns (releaseConn ''a'' (snd (acquireConn ''b'' (snd (acquireConn ''a'' gate)))))) ''b'' = 1"
proof -
  have "slot_run gate {#}" by (rule start) (simp_all add: gate_def)
  then have "slot_run (snd (acquireConn ''a'' gate)) {#''a''#}"
    by (rule admit [where p = "''a''"]) (simp add: acquireConn_def gate_def conns_of_def)
  then have "slot_run (snd (acquireConn ''b'' (snd (acquireConn ''a'' gate)))) {#''b'', ''a''#}"
    by (rule admit [where p = "''b''"]) (simp add: acquireConn_def gate_def conns_of_def)
  then have "slot_run (releaseConn ''a'' (snd (acquireConn ''b'' (snd (acquireConn ''a'' gate))))) ({#''b'', ''a''#} - {#''a''#})"
    by (rule finish) simp
  from conn_slots_exact [OF this] show ?thesis by simp
qed

text \<open>Failed authentications are limited: an address with no history that fails \<open>n\<close> times
  within the minute is refused exactly when \<open>n\<close> is at least 10, as long as fewer than 9999
  addresses are being counted.\<close>

theorem auth_failures_block:
  assumes "map_of (authFailCount s) ip = None" and "length (authFailCount s) < 9999"
    and "\<And>k. k \<le> n \<Longrightarrow> wallClock s (wallTicks s + k) \<le> wallClock s (wallTicks s) + 60 * 1000000000"
  shows "fst (checkAuthRateLimit ip ((recordAuthFailure ip ^^ n) s)) \<longleftrightarrow> n \<ge> 10"
proof (cases n)
  case 0
  then show ?thesis using assms(1) by (simp add: checkAuthRateLimit_def)
next
  case (Suc m)
  obtain s' where "(recordAuthFailure ip ^^ n) s = s'" "wallClock s' = wallClock s" "wallTicks s' = wallTicks s + n"
      "map_of (authFailCount s') ip = Some \<lparr>afCount = int n, afResetAt = wallClock s (wallTicks s) + 60000000000\<rparr>"
    using record_failures [OF assms(1,2), of m] assms(3) Suc by auto
  then show ?thesis using assms(3) [of n] by (simp add: checkAuthRateLimit_def wall_now_def not_less)
qed

theorem auth_failures_block_witness:
  "fst (checkAuthRateLimit ''10.0.0.1'' ((recordAuthFailure ''10.0.0.1'' ^^ 12) gate))"
  using auth_failures_block [of gate "''10.0.0.1''" 12] by (simp add: gate_def)

text \<open>The limit on failed authentications can be switched off: entries leave the map only when
  their own address is checked again, and once 10000 addresses are in it no failure is counted
  any more, so an address below the limit is never refused, however often it fails.\<close>

theorem auth_limit_saturates:
  assumes "length (authFailCount s) \<ge> 10000" and "\<not> fst (checkAuthRateLimit ip s)"
  shows "\<not> fst (checkAuthRateLimit ip ((recordAuthFailure ip ^^ n) s))"
proof -
  have "(recordAuthFailure ip ^^ n) s = s" by (induction n) (use assms(1) in \<open>auto simp: recordAuthFailure_def\<close>)
  then show ?thesis using assms(2) by simp
qed

definition crowded :: admission where
  "crowded = gate\<lparr>authFailCount := map (\<lambda>n. (dec n, \<lparr>afCount = 1, afResetAt = 0\<rparr>)) [0..<10000]\<rparr>"

theorem auth_limit_saturates_witness:
  "\<not> fst (checkAuthRateLimit ''x'' ((recordAuthFailure ''x'' ^^ 1000000) crowded))"
proof -
  have nx: "''x'' \<noteq> dec n" for n
  proof
    assume x: "''x'' = dec n"
    then have "n < 10" using length_dec_1 [of n] by (simp flip: x)
    then have "of_char (CHR ''x'') = (48 + n :: nat)" using x by (simp add: dec.simps [of n] digit_def)
    then show False using \<open>n < 10\<close> by simp
  qed
  have "map_of (authFailCount crowded) ''x'' = None"
    by (simp add: map_of_eq_None_iff crowded_def image_iff nx)
  then have "\<not> fst (checkAuthRateLimit ''x'' crowded)" by (simp add: checkAuthRateLimit_def)
  then show ?thesis using auth_limit_saturates [of crowded "''x''" 1000000] by (simp add: crowded_def)
qed

text \<open>Token authentication with expiry is sound and complete: it accepts a request as peer
  \<open>p\<close> exactly when the presented token (the Bearer header if there is one, otherwise the
  query parameter) is registered for \<open>p\<close> and has not expired.\<close>

theorem TokenAuthWithExpiryAndParam_iff:
  "TokenAuthWithExpiryAndParam param tokens r now = Inr p \<longleftrightarrow>
     (\<exists>token info. (rqHeader r ''Authorization'' = ''Bearer '' @ token \<or>
         (\<nexists>z. rqHeader r ''Authorization'' = ''Bearer '' @ z) \<and> rqQuery r param = token \<and> token \<noteq> []) \<and>
       tokens token = Some info \<and> tiPeerID info = p \<and> (\<nexists>t. tiExpiresAt info = Some t \<and> t < now))"
proof -
  have v: "validateTokenWithExpiry tokens token now = Inr p \<longleftrightarrow>
      (\<exists>info. tokens token = Some info \<and> tiPeerID info = p \<and> (\<nexists>t. tiExpiresAt info = Some t \<and> t < now))" for token
    by (auto simp: validateTokenWithExpiry_def split: option.splits)
  show ?thesis
  proof (cases "\<exists>z. rqHeader r ''Authorization'' = ''Bearer '' @ z")
    case True
    then obtain z where "rqHeader r ''Authorization'' = ''Bearer '' @ z" by blast
    then show ?thesis by (simp add: TokenAuthWithExpiryAndParam_def TrimPrefix_def v)
  next
    case False
    then have "\<not> prefix ''Bearer '' (rqHeader r ''Authorization'')" by (metis prefixE)
    then show ?thesis using False by (auto simp: TokenAuthWithExpiryAndParam_def Let_def v)
  qed
qed

end
