(* ===== verification/Wire.thy ===== *)
theory Wire
  imports Items
begin

text \<open>
  The other JSON documents of the program: the protocol message of \<open>src/sync/client/main.go\<close>
  with its payload, the queue entry of \<open>src/sync/server/inbox.go\<close> and the request/response
  envelope of \<open>src/sync/message/main.go\<close>.  A Go slice that is nil prints as \<open>null\<close>, a
  non-empty one as an array; the model does not tell a nil slice from an empty one and
  prints \<open>null\<close> for both, which decodes to the same value.  A repeated \<open>items\<close> member
  replaces the earlier one.

  Each document survives the wire (\<open>*_round_trip\<close>) when its strings are valid UTF-8.
\<close>

section \<open>Model\<close>

definition items_json :: "SyncStoreItem list \<Rightarrow> json" where
  "items_json its = (if its = [] then JNull else JArr (map item_json its))"

fun decode_items :: "json list \<Rightarrow> SyncStoreItem list option" where
  "decode_items [] = Some []"
| "decode_items (j # js) =
     (case json_struct item_field zeroItem j of
        None \<Rightarrow> None
      | Some it \<Rightarrow> map_option ((#) it) (decode_items js))"

fun json_items :: "json \<Rightarrow> SyncStoreItem list option" where
  "json_items (JArr js) = decode_items js"
| "json_items JNull = Some []"
| "json_items _ = None"

definition payload_json :: "SyncPayload \<Rightarrow> json" where
  "payload_json p = JObj [(''items'', items_json (Items p)), (''lastSyncTimestamp'', jint (LastSyncTimestamp p))]"

definition payload_field :: "string \<Rightarrow> json \<Rightarrow> SyncPayload \<Rightarrow> SyncPayload option" where
  "payload_field k v p =
     (if field_is ''items'' k then map_option (\<lambda>x. p\<lparr>Items := x\<rparr>) (json_items v)
      else if field_is ''lastSyncTimestamp'' k
        then map_option (\<lambda>x. p\<lparr>LastSyncTimestamp := x\<rparr>) (json_int v (LastSyncTimestamp p))
      else Some p)"

definition zeroPayload :: SyncPayload where
  "zeroPayload = \<lparr>Items = [], LastSyncTimestamp = 0\<rparr>"

record Message =
  mType :: string
  mPayload :: "SyncPayload option"
  mError :: string

definition zeroMessage :: Message where
  "zeroMessage = \<lparr>mType = [], mPayload = None, mError = []\<rparr>"

definition message_json :: "Message \<Rightarrow> json" where
  "message_json m = JObj
     ([(''type'', JStr (mType m))]
      @ (case mPayload m of None \<Rightarrow> [] | Some p \<Rightarrow> [(''payload'', payload_json p)])
      @ omitempty ''error'' (mError m))"

definition message_field :: "string \<Rightarrow> json \<Rightarrow> Message \<Rightarrow> Message option" where
  "message_field k v m =
     (if field_is ''type'' k then map_option (\<lambda>x. m\<lparr>mType := x\<rparr>) (json_string v (mType m))
      else if field_is ''payload'' k then
        (if v = JNull then Some (m\<lparr>mPayload := None\<rparr>)
         else map_option (\<lambda>p. m\<lparr>mPayload := Some p\<rparr>)
           (json_struct payload_field (case mPayload m of None \<Rightarrow> zeroPayload | Some p \<Rightarrow> p) v))
      else if field_is ''error'' k then map_option (\<lambda>x. m\<lparr>mError := x\<rparr>) (json_string v (mError m))
      else Some m)"

definition marshal_message :: "Message \<Rightarrow> string" where
  "marshal_message m = jprint (message_json m)"

definition unmarshal_message :: "string \<Rightarrow> Message option" where
  "unmarshal_message s = Option.bind (jparse s) (json_struct message_field zeroMessage)"

record inboxEntry =
  ieSender :: string
  ieItem :: SyncStoreItem

definition entry_json :: "inboxEntry \<Rightarrow> json" where
  "entry_json e = JObj [(''sender'', JStr (ieSender e)), (''item'', item_json (ieItem e))]"

definition entry_field :: "string \<Rightarrow> json \<Rightarrow> inboxEntry \<Rightarrow> inboxEntry option" where
  "entry_field k v e =
     (if field_is ''sender'' k then map_option (\<lambda>x. e\<lparr>ieSender := x\<rparr>) (json_string v (ieSender e))
      else if field_is ''item'' k then map_option (\<lambda>x. e\<lparr>ieItem := x\<rparr>) (json_struct item_field (ieItem e) v)
      else Some e)"

definition marshal_entry :: "inboxEntry \<Rightarrow> string" where
  "marshal_entry e = jprint (entry_json e)"

definition unmarshal_entry :: "string \<Rightarrow> inboxEntry option" where
  "unmarshal_entry s = Option.bind (jparse s) (json_struct entry_field \<lparr>ieSender = [], ieItem = zeroItem\<rparr>)"

record Envelope =
  envMessageID :: string
  envSenderID :: string
  envType :: string
  envData :: string
  envError :: string
  envCreatedAt :: int

definition zeroEnvelope :: Envelope where
  "zeroEnvelope = \<lparr>envMessageID = [], envSenderID = [], envType = [], envData = [], envError = [], envCreatedAt = 0\<rparr>"

definition env_json :: "Envelope \<Rightarrow> json" where
  "env_json e = JObj
     ([(''messageID'', JStr (envMessageID e)), (''senderID'', JStr (envSenderID e)),
       (''type'', JStr (envType e)), (''data'', JStr (envData e))]
      @ omitempty ''error'' (envError e)
      @ (if envCreatedAt e = 0 then [] else [(''createdAt'', jint (envCreatedAt e))]))"

definition env_field :: "string \<Rightarrow> json \<Rightarrow> Envelope \<Rightarrow> Envelope option" where
  "env_field k v e =
     (if field_is ''messageID'' k then map_option (\<lambda>x. e\<lparr>envMessageID := x\<rparr>) (json_string v (envMessageID e))
      else if field_is ''senderID'' k then map_option (\<lambda>x. e\<lparr>envSenderID := x\<rparr>) (json_string v (envSenderID e))
      else if field_is ''type'' k then map_option (\<lambda>x. e\<lparr>envType := x\<rparr>) (json_string v (envType e))
      else if field_is ''data'' k then map_option (\<lambda>x. e\<lparr>envData := x\<rparr>) (json_string v (envData e))
      else if field_is ''error'' k then map_option (\<lambda>x. e\<lparr>envError := x\<rparr>) (json_string v (envError e))
      else if field_is ''createdAt'' k then map_option (\<lambda>x. e\<lparr>envCreatedAt := x\<rparr>) (json_int v (envCreatedAt e))
      else Some e)"

definition marshal_env :: "Envelope \<Rightarrow> string" where
  "marshal_env e = jprint (env_json e)"

definition unmarshal_env :: "string \<Rightarrow> Envelope option" where
  "unmarshal_env s = Option.bind (jparse s) (json_struct env_field zeroEnvelope)"

section \<open>Round trips\<close>

definition valid_message :: "Message \<Rightarrow> bool" where
  "valid_message m \<longleftrightarrow> utf8_valid (mType m) \<and> utf8_valid (mError m) \<and>
     (case mPayload m of None \<Rightarrow> True
      | Some p \<Rightarrow> (\<forall>it \<in> set (Items p). valid_item it) \<and> in_i64 (LastSyncTimestamp p))"

definition valid_env :: "Envelope \<Rightarrow> bool" where
  "valid_env e \<longleftrightarrow> utf8_valid (envMessageID e) \<and> utf8_valid (envSenderID e) \<and> utf8_valid (envType e) \<and>
     utf8_valid (envData e) \<and> utf8_valid (envError e) \<and> in_i64 (envCreatedAt e)"

lemma wire_fold_names:
  "fold_name ''items'' = ''items''" "fold_name ''lastSyncTimestamp'' = ''lastsynctimestamp''"
  "fold_name ''type'' = ''type''" "fold_name ''payload'' = ''payload''" "fold_name ''error'' = ''error''"
  "fold_name ''sender'' = ''sender''" "fold_name ''item'' = ''item''"
  "fold_name ''messageID'' = ''messageid''" "fold_name ''senderID'' = ''senderid''"
  "fold_name ''data'' = ''data''" "fold_name ''createdAt'' = ''createdat''"
  by (simp_all add: char_of_eq_iff)

lemma wire_utf8_names:
  "utf8_coerce ''items'' = ''items''" "utf8_coerce ''lastSyncTimestamp'' = ''lastSyncTimestamp''"
  "utf8_coerce ''type'' = ''type''" "utf8_coerce ''payload'' = ''payload''" "utf8_coerce ''error'' = ''error''"
  "utf8_coerce ''sender'' = ''sender''" "utf8_coerce ''item'' = ''item''"
  "utf8_coerce ''messageID'' = ''messageID''" "utf8_coerce ''senderID'' = ''senderID''"
  "utf8_coerce ''data'' = ''data''" "utf8_coerce ''createdAt'' = ''createdAt''"
  by (simp_all add: utf8_valid_ascii)

lemmas wire_names = wire_fold_names wire_utf8_names field_is_def

lemma item_struct_valid:
  "valid_item it \<Longrightarrow> json_struct item_field zeroItem (jcoerce (item_json it)) = Some it"
  using item_struct_round_trip [of it] by (simp add: valid_item_def)

lemma decode_items_round_trip:
  "\<forall>it \<in> set its. valid_item it \<Longrightarrow> decode_items (map (\<lambda>it. jcoerce (item_json it)) its) = Some its"
  by (induction its) (simp_all add: item_struct_valid)

lemma payload_round_trip:
  assumes "\<forall>it \<in> set (Items p). valid_item it" and "in_i64 (LastSyncTimestamp p)"
  shows "json_struct payload_field zeroPayload (jcoerce (payload_json p)) = Some p"
  using assms decode_items_round_trip [of "Items p"]
  by (cases p) (simp add: payload_json_def items_json_def payload_field_def wire_names zeroPayload_def comp_def del: fold_name.simps)

lemma jwf_payload: "jwf (payload_json p)"
  by (auto simp: payload_json_def items_json_def jwf_item)

lemma payload_not_null: "jcoerce (payload_json p) \<noteq> JNull"
  by (simp add: payload_json_def)

lemma message_round_trip_valid:
  assumes "valid_message m"
  shows "unmarshal_message (marshal_message m) = Some m"
proof -
  have "jwf (message_json m)" by (auto simp: message_json_def omitempty_def jwf_payload split: option.splits)
  then have "unmarshal_message (marshal_message m) = json_struct message_field zeroMessage (jcoerce (message_json m))"
    by (simp add: unmarshal_message_def marshal_message_def jparse_jprint)
  also have "\<dots> = Some m"
    using assms payload_round_trip payload_not_null
    by (cases m) (auto simp: message_json_def omitempty_def message_field_def wire_names fold_members_append zeroMessage_def
        valid_message_def split: option.splits simp del: fold_name.simps)
  finally show ?thesis .
qed

lemma entry_round_trip:
  assumes "utf8_valid (ieSender e)" and "valid_item (ieItem e)"
  shows "unmarshal_entry (marshal_entry e) = Some e"
proof -
  have "jwf (entry_json e)" by (simp add: entry_json_def jwf_item)
  then have "unmarshal_entry (marshal_entry e) = json_struct entry_field \<lparr>ieSender = [], ieItem = zeroItem\<rparr> (jcoerce (entry_json e))"
    by (simp add: unmarshal_entry_def marshal_entry_def jparse_jprint)
  also have "\<dots> = Some e"
    using assms item_struct_valid [of "ieItem e"]
    by (cases e) (simp add: entry_json_def entry_field_def wire_names del: fold_name.simps)
  finally show ?thesis .
qed

lemma env_round_trip:
  assumes "valid_env e"
  shows "unmarshal_env (marshal_env e) = Some e"
proof -
  have "jwf (env_json e)" by (auto simp: env_json_def omitempty_def)
  then have "unmarshal_env (marshal_env e) = json_struct env_field zeroEnvelope (jcoerce (env_json e))"
    by (simp add: unmarshal_env_def marshal_env_def jparse_jprint)
  also have "\<dots> = Some e"
    using assms
    by (cases e) (simp add: env_json_def env_field_def wire_names omitempty_def
        fold_members_append zeroEnvelope_def valid_env_def del: fold_name.simps)
  finally show ?thesis .
qed

section \<open>Property\<close>

text \<open>A protocol message survives the wire: decoding what \<open>WriteMessage\<close> encodes gives the
  message back, with its payload, its items and its cursor, when its strings are valid UTF-8
  and its times are 64-bit values.\<close>

theorem message_round_trip:
  assumes "valid_message m"
  shows "unmarshal_message (marshal_message m) = Some m"
  using message_round_trip_valid [OF assms] .

theorem message_round_trip_witness:
  "let m = \<lparr>mType = ''sync'', mPayload = Some \<lparr>Items = [zeroItem\<lparr>Key := ''k'', Value := ''v'', Timestamp := - 5, Deleted := True\<rparr>],
     LastSyncTimestamp = 7\<rparr>, mError = []\<rparr> in unmarshal_message (marshal_message m) = Some m"
proof -
  have v: "utf8_valid ''sync''" "utf8_valid ''k''" "utf8_valid ''v''" by (simp_all add: utf8_valid_ascii)
  show ?thesis unfolding Let_def
    by (rule message_round_trip) (simp add: valid_message_def valid_item_def zeroItem_def in_i64_def v)
qed

end
