(* ===== verification/Inbox.thy ===== *)
theory Inbox
  imports Admission Wire Memory Keys Paging
begin

text \<open>
  The store-and-forward relay \<open>InboxServer\<close> of \<open>src/sync/server/inbox.go\<close>, over any store \<open>S\<close>.

  The record extends \<open>admission\<close> with the fields of the Go struct.  The queue and the cursors
  live in the store: an item is kept under \<open>%inbox%msg%{time}%{uuid}\<close> together with its sender,
  and \<open>%inbox%cur%{peer}\<close> is the key of the last entry the peer has acknowledged.  The handler's
  \<open>ack\<close> closure is represented by the cursor that it captures.  A connection is represented by
  the messages written to it; whether a write succeeds is an argument.  The channel \<open>notify\<close>
  has one slot, so it is a flag.  Logging is left out.
\<close>

section \<open>State\<close>

definition inboxMsgPrefix :: string where "inboxMsgPrefix = ''%inbox%msg%''"
definition inboxCursorPrefix :: string where "inboxCursorPrefix = ''%inbox%cur%''"

record inboxPeer =
  ipRef :: nat
  ipPeerID :: string
  ipNotify :: bool

record 's InboxServer = admission +
  iStore :: 's
  iAuth :: Authorizer
  iActive :: "(string \<times> inboxPeer list) list"
  iUuids :: "nat \<Rightarrow> string"
  iUuidsUsed :: nat
  iOnPeerConnect :: "(string \<Rightarrow> Request \<Rightarrow> error option) list"

definition NewInbox :: "'s \<Rightarrow> Authorizer \<Rightarrow> (nat \<Rightarrow> int) \<Rightarrow> (nat \<Rightarrow> string) \<Rightarrow> 's InboxServer" where
  "NewInbox st auth clk us =
     \<lparr>maxConnsPerPeer = 10, maxTotalConns = 1000, trustedProxies = [], totalConns = 0, peerConns = [],
      authFailCount = [], wallClock = clk, wallTicks = 0,
      iStore = st, iAuth = auth, iActive = [], iUuids = us, iUuidsUsed = 0, iOnPeerConnect = []\<rparr>"

definition icall :: "('s \<Rightarrow> ('a, 's) outcome) \<Rightarrow> 's InboxServer \<Rightarrow> ('a, 's InboxServer) outcome" where
  "icall f s = (fst (f (iStore s)), s\<lparr>iStore := snd (f (iStore s))\<rparr>)"

definition inboxSetMaxConnsPerPeer :: "int \<Rightarrow> 's InboxServer \<Rightarrow> 's InboxServer" where
  "inboxSetMaxConnsPerPeer = SetMaxConnsPerPeer"

definition inboxSetMaxTotalConns :: "int \<Rightarrow> 's InboxServer \<Rightarrow> 's InboxServer" where
  "inboxSetMaxTotalConns = SetMaxTotalConns"

definition inboxSetTrustedProxies :: "string list \<Rightarrow> 's InboxServer \<Rightarrow> 's InboxServer" where
  "inboxSetTrustedProxies = SetTrustedProxies"

definition inboxOnPeerConnect :: "(string \<Rightarrow> Request \<Rightarrow> error option) \<Rightarrow> 's InboxServer \<Rightarrow> 's InboxServer" where
  "inboxOnPeerConnect fn s = s\<lparr>iOnPeerConnect := iOnPeerConnect s @ [fn]\<rparr>"

section \<open>Queue and cursors\<close>

definition msgKey :: "int \<Rightarrow> string \<Rightarrow> string" where
  "msgKey t u = inboxMsgPrefix @ pad19 t @ ''%'' @ u"

definition cursorKey :: "string \<Rightarrow> string" where
  "cursorKey peerID = inboxCursorPrefix @ peerID"

fun storeItems :: "'s Store \<Rightarrow> string \<Rightarrow> SyncStoreItem list \<Rightarrow> 's InboxServer \<Rightarrow> 's InboxServer" where
  "storeItems S sender [] s = s"
| "storeItems S sender (item # items) s =
     (let data = marshal_entry \<lparr>ieSender = sender, ieItem = item\<rparr>
      in (case wall_now s of (now, s) \<Rightarrow>
           let u = iUuids s (iUuidsUsed s);
               s = s\<lparr>iUuidsUsed := Suc (iUuidsUsed s)\<rparr>
           in storeItems S sender items (snd (icall (sSet S (msgKey now u) data) s))))"

text \<open>The loop over the listed entries: the items, and the key of the last entry seen.\<close>

fun collect_pending :: "string \<Rightarrow> KeyValuePair list \<Rightarrow> string \<Rightarrow> SyncStoreItem list \<times> string" where
  "collect_pending peerID [] lastKey = ([], lastKey)"
| "collect_pending peerID (kv # kvs) lastKey =
     (case unmarshal_entry (kvValue kv) of
        None \<Rightarrow> collect_pending peerID kvs (kvKey kv)
      | Some e \<Rightarrow>
          if ieSender e = peerID then collect_pending peerID kvs (kvKey kv)
          else (case collect_pending peerID kvs (kvKey kv) of (its, k) \<Rightarrow> (ieItem e # its, k)))"

definition readPending ::
  "'s Store \<Rightarrow> string \<Rightarrow> 's InboxServer \<Rightarrow> (SyncStoreItem list \<times> string) \<times> 's InboxServer" where
  "readPending S peerID s =
     (case icall (sGet S (cursorKey peerID)) s of (r, s) \<Rightarrow>
        let cursor = (case r of Inl _ \<Rightarrow> [] | Inr c \<Rightarrow> c)
        in (case icall (sList S \<lparr>Prefix = inboxMsgPrefix, StartAfter = cursor, Limit = 1000\<rparr>) s of
              (Inl e, s) \<Rightarrow> (([], []), s)
            | (Inr kvs, s) \<Rightarrow> if kvs = [] then (([], []), s) else (collect_pending peerID kvs [], s)))"

definition advanceCursor :: "'s Store \<Rightarrow> string \<Rightarrow> string \<Rightarrow> 's InboxServer \<Rightarrow> 's InboxServer" where
  "advanceCursor S peerID cursor s =
     (case icall (sGet S (cursorKey peerID)) s of
        (Inr existing, s) \<Rightarrow>
          if existing \<ge> cursor then s else snd (icall (sSet S (cursorKey peerID) cursor) s)
      | (Inl _, s) \<Rightarrow> snd (icall (sSet S (cursorKey peerID) cursor) s))"

section \<open>Peers\<close>

definition signal :: "inboxPeer \<Rightarrow> inboxPeer" where
  "signal p = p\<lparr>ipNotify := True\<rparr>"

definition notifyPeers :: "string \<Rightarrow> 's InboxServer \<Rightarrow> 's InboxServer" where
  "notifyPeers senderID s =
     s\<lparr>iActive := map (\<lambda>(peerID, peers). (peerID, if peerID = senderID then peers else map signal peers)) (iActive s)\<rparr>"

definition registerPeer :: "inboxPeer \<Rightarrow> 's InboxServer \<Rightarrow> 's InboxServer" where
  "registerPeer peer s =
     s\<lparr>iActive := AList.update (ipPeerID peer)
         ((case map_of (iActive s) (ipPeerID peer) of None \<Rightarrow> [] | Some ps \<Rightarrow> ps) @ [peer]) (iActive s)\<rparr>"

text \<open>Removing the first occurrence of the connection.\<close>

fun drop_peer :: "nat \<Rightarrow> inboxPeer list \<Rightarrow> inboxPeer list" where
  "drop_peer n [] = []"
| "drop_peer n (p # ps) = (if ipRef p = n then ps else p # drop_peer n ps)"

definition unregisterPeer :: "inboxPeer \<Rightarrow> 's InboxServer \<Rightarrow> 's InboxServer" where
  "unregisterPeer peer s =
     (let ps = drop_peer (ipRef peer) (case map_of (iActive s) (ipPeerID peer) of None \<Rightarrow> [] | Some ps \<Rightarrow> ps)
      in if ps = [] then s\<lparr>iActive := AList.delete (ipPeerID peer) (iActive s)\<rparr>
         else s\<lparr>iActive := AList.update (ipPeerID peer) ps (iActive s)\<rparr>)"

section \<open>Exchanges\<close>

text \<open>The response and the cursor that \<open>ack\<close> will advance to.\<close>

definition inboxHandleMessage ::
  "'s Store \<Rightarrow> string \<Rightarrow> Message \<Rightarrow> 's InboxServer \<Rightarrow> (Message \<times> string) \<times> 's InboxServer" where
  "inboxHandleMessage S peerID msg s =
     (let s = (case mPayload msg of
                 None \<Rightarrow> s
               | Some p \<Rightarrow> if Items p \<noteq> [] then notifyPeers peerID (storeItems S peerID (Items p) s) else s)
      in (case readPending S peerID s of ((items, cursor), s) \<Rightarrow>
            ((\<lparr>mType = ''sync'', mPayload = Some \<lparr>Items = items, LastSyncTimestamp = 0\<rparr>, mError = []\<rparr>, cursor), s)))"

text \<open>\<open>sendPendingToConn\<close>: \<open>ok\<close> says whether \<open>WriteMessage\<close> succeeds.  The result is what was written.\<close>

definition sendPendingToConn ::
  "'s Store \<Rightarrow> string \<Rightarrow> bool \<Rightarrow> 's InboxServer \<Rightarrow> Message option \<times> 's InboxServer" where
  "sendPendingToConn S peerID ok s =
     (case readPending S peerID s of ((items, cursor), s) \<Rightarrow>
        if items = [] then (None, advanceCursor S peerID cursor s)
        else if ok
        then (Some \<lparr>mType = ''sync'', mPayload = Some \<lparr>Items = items, LastSyncTimestamp = 0\<rparr>, mError = []\<rparr>,
              advanceCursor S peerID cursor s)
        else (None, s))"

text \<open>One turn of the read loop of \<open>ServeConnection\<close> on a message it has read; \<open>None\<close> ends the loop.\<close>

definition serve_message ::
  "'s Store \<Rightarrow> string \<Rightarrow> Message \<Rightarrow> bool \<Rightarrow> 's InboxServer \<Rightarrow> Message option \<times> bool \<times> 's InboxServer" where
  "serve_message S peerID msg ok s =
     (if mType msg \<noteq> ''sync'' \<or> mPayload msg = None then (None, True, s)
      else (case inboxHandleMessage S peerID msg s of ((resp, cursor), s) \<Rightarrow>
              if ok then (Some resp, True, advanceCursor S peerID cursor s) else (None, False, s)))"

text \<open>
  A persistent connection: the peer is registered and sent what is pending; then the messages it
  sends and the pushes its \<open>notify\<close> channel triggers are served one after another; a failed write
  to answer a message, or the end of the input, ends it and the peer is unregistered.
\<close>

datatype conn_event = Incoming Message bool | Pushed bool

fun serve_loop ::
  "'s Store \<Rightarrow> string \<Rightarrow> conn_event list \<Rightarrow> 's InboxServer \<Rightarrow> Message list \<times> 's InboxServer" where
  "serve_loop S peerID [] s = ([], s)"
| "serve_loop S peerID (Pushed ok # es) s =
     (case sendPendingToConn S peerID ok s of (w, s) \<Rightarrow>
      (case serve_loop S peerID es s of (ws, s) \<Rightarrow> ((case w of None \<Rightarrow> [] | Some m \<Rightarrow> [m]) @ ws, s)))"
| "serve_loop S peerID (Incoming msg ok # es) s =
     (case serve_message S peerID msg ok s of (w, go, s) \<Rightarrow>
        if \<not> go then ([], s)
        else (case serve_loop S peerID es s of (ws, s) \<Rightarrow> ((case w of None \<Rightarrow> [] | Some m \<Rightarrow> [m]) @ ws, s)))"

definition inboxServeConnection ::
  "'s Store \<Rightarrow> string \<Rightarrow> nat \<Rightarrow> bool \<Rightarrow> conn_event list \<Rightarrow> 's InboxServer \<Rightarrow> Message list \<times> 's InboxServer" where
  "inboxServeConnection S peerID ref ok es s =
     (let peer = \<lparr>ipRef = ref, ipPeerID = peerID, ipNotify = False\<rparr>;
          s = registerPeer peer s
      in (case sendPendingToConn S peerID ok s of (w, s) \<Rightarrow>
          (case serve_loop S peerID es s of (ws, s) \<Rightarrow>
             ((case w of None \<Rightarrow> [] | Some m \<Rightarrow> [m]) @ ws, unregisterPeer peer s))))"

section \<open>Cleanup\<close>

definition min_cursor :: "KeyValuePair list \<Rightarrow> string" where
  "min_cursor cursors =
     fold (\<lambda>kv minCursor. if minCursor = [] \<or> kvValue kv < minCursor then kvValue kv else minCursor) cursors []"

text \<open>One page: delete up to the cursor; \<open>False\<close> is the early return.\<close>

fun cleanup_page :: "'s Store \<Rightarrow> string \<Rightarrow> KeyValuePair list \<Rightarrow> 's InboxServer \<Rightarrow> bool \<times> 's InboxServer" where
  "cleanup_page S minCursor [] s = (True, s)"
| "cleanup_page S minCursor (kv # kvs) s =
     (if kvKey kv > minCursor then (False, s)
      else cleanup_page S minCursor kvs (snd (icall (sDelete S (kvKey kv)) s)))"

partial_function (option) cleanup_loop ::
  "'s Store \<Rightarrow> string \<Rightarrow> 's InboxServer \<Rightarrow> (unit, 's InboxServer) outcome option" where
  "cleanup_loop S minCursor s =
     (case icall (sList S \<lparr>Prefix = inboxMsgPrefix, StartAfter = [], Limit = 100\<rparr>) s of
        (Inl e, s) \<Rightarrow> Some (Inl (Wrap ''list items'' e), s)
      | (Inr kvs, s) \<Rightarrow>
          if kvs = [] then Some (Inr (), s)
          else (case cleanup_page S minCursor kvs s of (go, s) \<Rightarrow>
                  if go then cleanup_loop S minCursor s else Some (Inr (), s)))"

definition Cleanup :: "'s Store \<Rightarrow> 's InboxServer \<Rightarrow> (unit, 's InboxServer) outcome option" where
  "Cleanup S s =
     (case icall (sList S \<lparr>Prefix = inboxCursorPrefix, StartAfter = [], Limit = 0\<rparr>) s of
        (Inl e, s) \<Rightarrow> Some (Inl (Wrap ''list cursors'' e), s)
      | (Inr cursors, s) \<Rightarrow>
          if cursors = [] \<or> min_cursor cursors = [] then Some (Inr (), s)
          else cleanup_loop S (min_cursor cursors) s)"

section \<open>Connection tracking\<close>

text \<open>These mirror the methods of \<open>Server\<close>.\<close>

definition inboxAcquireConn :: "string \<Rightarrow> 's InboxServer \<Rightarrow> (unit, 's InboxServer) outcome" where
  "inboxAcquireConn = acquireConn"

definition inboxReleaseConn :: "string \<Rightarrow> 's InboxServer \<Rightarrow> 's InboxServer" where
  "inboxReleaseConn = releaseConn"

definition inboxClientIP :: "Request \<Rightarrow> 's InboxServer \<Rightarrow> string" where
  "inboxClientIP = clientIP"

definition inboxCheckAuthRateLimit :: "string \<Rightarrow> 's InboxServer \<Rightarrow> bool \<times> 's InboxServer" where
  "inboxCheckAuthRateLimit = checkAuthRateLimit"

definition inboxRecordAuthFailure :: "string \<Rightarrow> 's InboxServer \<Rightarrow> 's InboxServer" where
  "inboxRecordAuthFailure = recordAuthFailure"

end
