(* ===== verification/Relay.thy ===== *)
theory Relay
  imports Inbox
begin

text \<open>
  Correctness of the store-and-forward relay.  \<open>inbox_run\<close> is its step relation: exchanges and
  pushes, answered or lost, from an empty store.  For a lawful store and a clock whose
  readings increase, what a peer acknowledged is, in queue order, exactly what others posted
  up to its cursor (\<open>inbox_in_order\<close>), and pushes drain the queue (\<open>inbox_drains\<close>).
  \<open>Cleanup\<close> ends and removes exactly what every peer has read, as long as no cursor is
  empty; \<open>Cleanup_drops_undelivered\<close> shows what happens otherwise.
\<close>

section \<open>Runs\<close>

definition msg_items :: "Message \<Rightarrow> SyncStoreItem list" where
  "msg_items m = (case mPayload m of None \<Rightarrow> [] | Some p \<Rightarrow> Items p)"

text \<open>The next \<open>n\<close> readings of the clock are later than every earlier one.\<close>

definition clock_advances :: "('b admission_scheme) \<Rightarrow> nat \<Rightarrow> bool" where
  "clock_advances s n \<longleftrightarrow> (\<forall>k < n. nano19 (wallClock s (wallTicks s + k)) \<and>
     (\<forall>j < wallTicks s + k. wallClock s j < wallClock s (wallTicks s + k)))"

text \<open>The items of a log of posts that peer \<open>p\<close> is to receive.\<close>

definition foreign :: "string \<Rightarrow> (string \<times> SyncStoreItem) list \<Rightarrow> SyncStoreItem list" where
  "foreign p log = map snd (filter (\<lambda>e. fst e \<noteq> p) log)"

text \<open>
  \<open>inbox_run S I A s log got\<close>: starting from an empty store, exchanges and pushes (answered or
  lost) have led to \<open>s\<close>; \<open>log\<close> lists who posted what, in order, and \<open>got p\<close> the items that
  peer \<open>p\<close> received in messages whose delivery was acknowledged.
\<close>

inductive inbox_run ::
  "'s Store \<Rightarrow> ('s \<Rightarrow> bool) \<Rightarrow> ('s \<Rightarrow> (string \<rightharpoonup> string)) \<Rightarrow>
     's InboxServer \<Rightarrow> (string \<times> SyncStoreItem) list \<Rightarrow> (string \<Rightarrow> SyncStoreItem list) \<Rightarrow> bool"
  for S :: "'s Store" and I A where
  start: "I (iStore s) \<Longrightarrow> A (iStore s) = Map.empty \<Longrightarrow> inbox_run S I A s [] (\<lambda>_. [])"
| exchange: "inbox_run S I A s log got \<Longrightarrow> utf8_valid peer \<Longrightarrow> (\<forall>it \<in> set (msg_items msg). valid_item it) \<Longrightarrow>
    clock_advances s (length (msg_items msg)) \<Longrightarrow> inboxHandleMessage S peer msg s = ((resp, cur), s') \<Longrightarrow>
    inbox_run S I A (if acked then advanceCursor S peer cur s' else s') (log @ map (Pair peer) (msg_items msg))
      (if acked then got(peer := got peer @ msg_items resp) else got)"
| push: "inbox_run S I A s log got \<Longrightarrow> sendPendingToConn S peer ok s = (w, s') \<Longrightarrow>
    inbox_run S I A s' log (case w of None \<Rightarrow> got | Some m \<Rightarrow> got(peer := got peer @ msg_items m))"

section \<open>The queue\<close>

definition all_msgs :: ListArgs where
  "all_msgs = \<lparr>Prefix = inboxMsgPrefix, StartAfter = [], Limit = 0\<rparr>"

definition queue :: "(string \<rightharpoonup> string) \<Rightarrow> KeyValuePair list" where
  "queue m = list_spec m all_msgs"

definition inbox_cursor :: "(string \<rightharpoonup> string) \<Rightarrow> string \<Rightarrow> string" where
  "inbox_cursor m p = (case m (cursorKey p) of None \<Rightarrow> [] | Some c \<Rightarrow> c)"

definition key_at :: "KeyValuePair list \<Rightarrow> nat \<Rightarrow> string" where
  "key_at q n = (if n = 0 then [] else kvKey (q ! (n - 1)))"

lemma inbox_keys:
  "msgKey t u \<noteq> cursorKey p" "cursorKey p \<noteq> msgKey t u" "\<not> prefix inboxMsgPrefix (cursorKey p)" "prefix inboxMsgPrefix (msgKey t u)"
  "cursorKey p = cursorKey p' \<longleftrightarrow> p = p'" "msgKey t u \<noteq> []"
  by (simp_all add: msgKey_def cursorKey_def inboxMsgPrefix_def inboxCursorPrefix_def)

lemma pad19_nano19: "nano19 t \<Longrightarrow> pad19 t = dec (nat t)"
  using length_dec_nano19 [of t] by (simp add: pad19_def nano19_def Let_def zeros_def)

lemma msgKey_less:
  assumes "nano19 t" and "nano19 t'" and "t < t'"
  shows "msgKey t u < msgKey t' u'"
proof -
  have len: "length (dec (nat t)) = length (dec (nat t'))" using assms length_dec_nano19 by simp
  have "dec (nat t) < dec (nat t')" using dec_less [OF len] assms by (auto simp: nano19_def)
  then show ?thesis using assms by (simp add: msgKey_def pad19_nano19 append_less_eqlen [OF len])
qed

lemma list_spec_snoc:
  assumes "finite (dom m)" and "in_range a k" and "Limit a = 0" and "\<And>kv. kv \<in> set (list_spec m a) \<Longrightarrow> kvKey kv < k"
  shows "list_spec (m(k \<mapsto> v)) a = list_spec m a @ [\<lparr>kvKey = k, kvValue = v\<rparr>]"
proof -
  let ?R = "{k \<in> dom m. in_range a k}"
  have below: "x < k" if "x \<in> ?R" for x
    using assms(4) [of "entry_at m x"] that assms(1,3) by (force simp: set_list_spec_unlimited entry_at_def)
  then have notin: "k \<notin> ?R" by blast
  have fin: "finite ?R" using assms(1) by simp
  have "sorted_list_of_set (insert k ?R) = sorted_list_of_set ?R @ [k]"
  proof (rule strict_sorted_equal)
    show "sorted_wrt (<) (sorted_list_of_set (insert k ?R))" by (rule strict_sorted_list_of_set)
    show "sorted_wrt (<) (sorted_list_of_set ?R @ [k])"
      using below fin by (auto simp: sorted_wrt_append strict_sorted_list_of_set)
    show "set (sorted_list_of_set (insert k ?R)) = set (sorted_list_of_set ?R @ [k])"
      unfolding set_append set_sorted_list_of_set [OF fin] set_sorted_list_of_set [OF finite.insertI [OF fin]] by auto
  qed
  moreover have "{k' \<in> dom (m(k \<mapsto> v)). in_range a k'} = insert k ?R" using assms(2) by auto
  moreover have "map (entry_at (m(k \<mapsto> v))) (sorted_list_of_set ?R) = map (entry_at m) (sorted_list_of_set ?R)"
    using notin assms(1) by (auto simp: entry_at_def)
  ultimately show ?thesis using assms(3) by (simp add: list_spec_def entry_at_def)
qed

lemma queue_cursor_write: "queue (m(cursorKey p \<mapsto> c)) = queue m"
  unfolding queue_def by (rule list_spec_agree) (auto simp: all_msgs_def in_range_def inbox_keys)

lemma page_after:
  assumes "finite (dom m)" and "n \<le> length (queue m)"
  shows "list_spec m \<lparr>Prefix = inboxMsgPrefix, StartAfter = key_at (queue m) n, Limit = 1000\<rparr> = take 1000 (drop n (queue m))"
proof -
  have lim: "list_spec m \<lparr>Prefix = inboxMsgPrefix, StartAfter = x, Limit = 1000\<rparr>
      = take 1000 (list_spec m \<lparr>Prefix = inboxMsgPrefix, StartAfter = x, Limit = 0\<rparr>)" for x
    using list_spec_limited [of m "\<lparr>Prefix = inboxMsgPrefix, StartAfter = x, Limit = 1000\<rparr>"] by (simp add: limit_to_def)
  show ?thesis
  proof (cases "n = 0")
    case True
    then show ?thesis using lim [of "[]"] by (simp add: key_at_def queue_def all_msgs_def)
  next
    case False
    have "last (take n (queue m)) = queue m ! (n - 1)" using assms(2) False by (subst last_conv_nth) (auto simp: min_def)
    then show ?thesis using lim list_spec_next [OF assms(1), of all_msgs n] assms(2) False
      by (simp add: queue_def all_msgs_def key_at_def inboxMsgPrefix_def)
  qed
qed

lemma queue_key_mono:
  assumes "n \<le> length (queue m)" and "n' \<le> length (queue m)" and "n < n'" and "[] \<notin> kvKey ` set (queue m)"
  shows "key_at (queue m) n < key_at (queue m) n'"
proof (cases "n = 0")
  case True
  have "queue m ! (n' - 1) \<in> set (queue m)" using assms(2,3) by (intro nth_mem) auto
  then have "kvKey (queue m ! (n' - 1)) \<noteq> []" using assms(4) by force
  then show ?thesis using True assms(3) by (simp add: key_at_def)
next
  case False
  have "sorted_wrt (<) (map kvKey (queue m))" unfolding queue_def by (rule list_spec_sorted)
  then have "map kvKey (queue m) ! (n - 1) < map kvKey (queue m) ! (n' - 1)"
    by (rule sorted_wrt_nth_less) (use assms False in auto)
  then show ?thesis using assms False by (simp add: key_at_def)
qed

lemma collect_pending_spec:
  assumes "map kvValue kvs = map (\<lambda>(p, it). marshal_entry \<lparr>ieSender = p, ieItem = it\<rparr>) log"
    and "\<forall>e \<in> set log. utf8_valid (fst e) \<and> valid_item (snd e)"
  shows "collect_pending p kvs k = (foreign p log, if kvs = [] then k else kvKey (last kvs))"
  using assms
proof (induction kvs arbitrary: log k)
  case Nil
  then show ?case by (simp add: foreign_def)
next
  case (Cons kv kvs)
  then obtain e log' where l: "log = e # log'" by (cases log) auto
  have "unmarshal_entry (kvValue kv) = Some \<lparr>ieSender = fst e, ieItem = snd e\<rparr>"
    using Cons.prems l entry_round_trip [of "\<lparr>ieSender = fst e, ieItem = snd e\<rparr>"] by (simp add: case_prod_beta)
  then show ?case using Cons.IH [of log'] Cons.prems l by (auto simp: foreign_def)
qed

section \<open>What the operations do\<close>

definition queue_holds :: "('b admission_scheme) \<Rightarrow> (string \<rightharpoonup> string) \<Rightarrow> (string \<times> SyncStoreItem) list \<Rightarrow> bool" where
  "queue_holds s m log \<longleftrightarrow>
     map kvValue (queue m) = map (\<lambda>(p, it). marshal_entry \<lparr>ieSender = p, ieItem = it\<rparr>) log \<and>
     (\<forall>e \<in> set log. utf8_valid (fst e) \<and> valid_item (snd e)) \<and>
     (\<forall>kv \<in> set (queue m). \<exists>j u. j < wallTicks s \<and> nano19 (wallClock s j) \<and> kvKey kv = msgKey (wallClock s j) u)"

definition at_position :: "(string \<rightharpoonup> string) \<Rightarrow> string \<Rightarrow> nat \<Rightarrow> bool" where
  "at_position m p n \<longleftrightarrow> n \<le> length (queue m) \<and> inbox_cursor m p = key_at (queue m) n"

lemma queue_holds_length: "queue_holds s m log \<Longrightarrow> length (queue m) = length log"
  unfolding queue_holds_def by (metis length_map)

lemma queue_holds_nonempty: "queue_holds s m log \<Longrightarrow> [] \<notin> kvKey ` set (queue m)"
  by (auto simp: queue_holds_def inbox_keys) (metis inbox_keys(6))

lemma key_at_append: "n \<le> length q \<Longrightarrow> key_at (q @ r) n = key_at q n"
  by (auto simp: key_at_def nth_append)

lemma queue_holds_cursor [simp]: "queue_holds s (m(cursorKey p \<mapsto> c)) log \<longleftrightarrow> queue_holds s m log"
  by (simp add: queue_holds_def queue_cursor_write)

lemma at_position_other: "p \<noteq> p' \<Longrightarrow> at_position (m(cursorKey p' \<mapsto> c)) p n \<longleftrightarrow> at_position m p n"
  by (simp add: at_position_def queue_cursor_write inbox_cursor_def inbox_keys)

context kv_store
begin

lemma storeItems_spec:
  assumes "inv (iStore s)" and "queue_holds s (abs (iStore s)) log" and "utf8_valid p"
    and "\<forall>it \<in> set its. valid_item it" and "clock_advances s (length its)"
  shows "inv (iStore (storeItems S p its s)) \<and>
    queue_holds (storeItems S p its s) (abs (iStore (storeItems S p its s))) (log @ map (Pair p) its) \<and>
    (\<forall>q n. at_position (abs (iStore s)) q n \<longrightarrow> at_position (abs (iStore (storeItems S p its s))) q n)"
  using assms(1,2,4,5)
proof (induction its arbitrary: s log)
  case Nil
  then show ?case by simp
next
  case (Cons it its)
  define t where "t = wallClock s (wallTicks s)"
  define u where "u = iUuids s (iUuidsUsed s)"
  define d where "d = marshal_entry \<lparr>ieSender = p, ieItem = it\<rparr>"
  let ?m = "abs (iStore s)"
  obtain st where st: "sSet S (msgKey t u) d (iStore s) = (Inr (), st)" "inv st" "abs st = ?m(msgKey t u \<mapsto> d)"
    using set_run [OF Cons.prems(1)] .
  define s1 where "s1 = s\<lparr>wallTicks := Suc (wallTicks s), iUuidsUsed := Suc (iUuidsUsed s), iStore := st\<rparr>"
  have run: "storeItems S p (it # its) s = storeItems S p its s1"
    using st(1) by (simp add: wall_now_def icall_def s1_def t_def u_def d_def Let_def)
  have adv: "nano19 t" "\<And>j. j < wallTicks s \<Longrightarrow> wallClock s j < t"
    using Cons.prems(4) by (auto simp: clock_advances_def t_def)
  have below: "kvKey kv < msgKey t u" if "kv \<in> set (queue ?m)" for kv
    using Cons.prems(2) that adv msgKey_less unfolding queue_holds_def by metis
  have q: "queue (abs st) = queue ?m @ [\<lparr>kvKey = msgKey t u, kvValue = d\<rparr>]"
    unfolding st(3) queue_def
    by (rule list_spec_snoc) (use below content_finite [OF Cons.prems(1)] in \<open>auto simp: queue_def all_msgs_def in_range_def inbox_keys\<close>)
  have holds: "queue_holds s1 (abs (iStore s1)) (log @ [(p, it)])"
    unfolding queue_holds_def
  proof (intro conjI)
    show "\<forall>kv \<in> set (queue (abs (iStore s1))). \<exists>j u. j < wallTicks s1 \<and> nano19 (wallClock s1 j) \<and> kvKey kv = msgKey (wallClock s1 j) u"
    proof
      fix kv assume "kv \<in> set (queue (abs (iStore s1)))"
      then consider "kv \<in> set (queue ?m)" | "kv = \<lparr>kvKey = msgKey t u, kvValue = d\<rparr>" by (auto simp: s1_def q)
      then show "\<exists>j u. j < wallTicks s1 \<and> nano19 (wallClock s1 j) \<and> kvKey kv = msgKey (wallClock s1 j) u"
      proof cases
        case 1
        then obtain j v where "j < wallTicks s" "nano19 (wallClock s j)" "kvKey kv = msgKey (wallClock s j) v"
          using Cons.prems(2) by (auto simp: queue_holds_def)
        then show ?thesis by (intro exI [of _ j] exI [of _ v]) (simp add: s1_def)
      next
        case 2
        then show ?thesis using adv(1) by (intro exI [of _ "wallTicks s"] exI [of _ u]) (simp add: s1_def t_def)
      qed
    qed
  qed (use Cons.prems(2,3) assms(3) in \<open>auto simp: queue_holds_def s1_def q d_def\<close>)
  have adv1: "clock_advances s1 (length its)"
    unfolding clock_advances_def
  proof (intro allI impI)
    fix k assume "k < length its"
    then have "nano19 (wallClock s (wallTicks s + Suc k)) \<and> (\<forall>j < wallTicks s + Suc k. wallClock s j < wallClock s (wallTicks s + Suc k))"
      using Cons.prems(4) unfolding clock_advances_def by auto
    then show "nano19 (wallClock s1 (wallTicks s1 + k)) \<and> (\<forall>j < wallTicks s1 + k. wallClock s1 j < wallClock s1 (wallTicks s1 + k))"
      by (simp add: s1_def)
  qed
  have "inbox_cursor (abs st) x = inbox_cursor ?m x" for x by (simp add: inbox_cursor_def st(3) inbox_keys)
  then have pos: "at_position (abs (iStore s1)) x n" if "at_position ?m x n" for x n
    using that by (auto simp: at_position_def s1_def q key_at_append)
  show ?case unfolding run
    using Cons.IH [OF _ holds _ adv1] Cons.prems(3) st(2) pos by (auto simp: s1_def)
qed

lemma readPending_spec:
  assumes "inv (iStore s)" and "queue_holds s (abs (iStore s)) log" and "at_position (abs (iStore s)) p n"
  shows "\<exists>s'. readPending S p s = ((foreign p (take 1000 (drop n log)),
      if n < length log then key_at (queue (abs (iStore s))) (min (n + 1000) (length log)) else []), s') \<and>
    inv (iStore s') \<and> abs (iStore s') = abs (iStore s) \<and> wallClock s' = wallClock s \<and> wallTicks s' = wallTicks s"
proof -
  let ?m = "abs (iStore s)" and ?q = "queue (abs (iStore s))"
  let ?page = "take 1000 (drop n ?q)"
  have len: "length ?q = length log" by (rule queue_holds_length [OF assms(2)])
  obtain s1 where s1: "sGet S (cursorKey p) (iStore s) = (case ?m (cursorKey p) of None \<Rightarrow> Inl ErrNotFound | Some v \<Rightarrow> Inr v, s1)"
      "inv s1" "abs s1 = ?m"
    using get_run [OF assms(1)] .
  obtain s2 where s2: "sList S \<lparr>Prefix = inboxMsgPrefix, StartAfter = key_at ?q n, Limit = 1000\<rparr> s1 =
      (Inr (list_spec (abs s1) \<lparr>Prefix = inboxMsgPrefix, StartAfter = key_at ?q n, Limit = 1000\<rparr>), s2)" "inv s2" "abs s2 = abs s1"
    using list_run [OF s1(2)] .
  have page: "list_spec (abs s1) \<lparr>Prefix = inboxMsgPrefix, StartAfter = key_at ?q n, Limit = 1000\<rparr> = ?page"
    unfolding s1(3) using page_after [OF content_finite [OF assms(1)]] assms(3) by (simp add: at_position_def)
  have cur: "(case fst (sGet S (cursorKey p) (iStore s)) of Inl _ \<Rightarrow> [] | Inr c \<Rightarrow> c) = key_at ?q n"
    using assms(3) s1(1) by (auto simp: at_position_def inbox_cursor_def split: option.splits)
  have vals: "map kvValue ?page = map (\<lambda>(p, it). marshal_entry \<lparr>ieSender = p, ieItem = it\<rparr>) (take 1000 (drop n log))"
    using assms(2) unfolding queue_holds_def by (simp add: take_map [symmetric] drop_map [symmetric])
  have "\<forall>e \<in> set (take 1000 (drop n log)). utf8_valid (fst e) \<and> valid_item (snd e)"
    using assms(2) unfolding queue_holds_def by (meson in_set_dropD in_set_takeD)
  note col = collect_pending_spec [OF vals this, of p "[]"]
  have last: "kvKey (last ?page) = key_at ?q (min (n + 1000) (length log))" if "n < length log"
  proof -
    have ne: "?page \<noteq> []" using that len by simp
    have lp: "length ?page = min 1000 (length log - n)" using len by simp
    have "last ?page = ?q ! (n + (length ?page - 1))"
      using ne len that by (simp add: last_conv_nth)
    moreover have "n + (length ?page - 1) = min (n + 1000) (length log) - 1" unfolding lp using that by (auto simp: min_def)
    ultimately show ?thesis using that by (simp add: key_at_def)
  qed
  have empty: "?page = [] \<longleftrightarrow> \<not> n < length log" using len by auto
  define s' where "s' = s\<lparr>iStore := s2\<rparr>"
  have "readPending S p s = ((foreign p (take 1000 (drop n log)),
      if n < length log then key_at ?q (min (n + 1000) (length log)) else []), s')"
    using s1(1) s2(1) cur page col last empty
    by (auto simp: readPending_def icall_def Let_def s'_def foreign_def)
  then show ?thesis using s1 s2 by (intro exI [of _ s']) (simp add: s'_def)
qed

lemma advanceCursor_spec:
  assumes "inv (iStore s)" and "queue_holds s (abs (iStore s)) log" and "at_position (abs (iStore s)) p n"
    and "n < n' \<and> n' \<le> length log \<and> c = key_at (queue (abs (iStore s))) n' \<or> n' = n \<and> c = []"
  shows "inv (iStore (advanceCursor S p c s)) \<and> queue_holds (advanceCursor S p c s) (abs (iStore (advanceCursor S p c s))) log \<and>
    at_position (abs (iStore (advanceCursor S p c s))) p n' \<and>
    (\<forall>q k. q \<noteq> p \<longrightarrow> at_position (abs (iStore s)) q k \<longrightarrow> at_position (abs (iStore (advanceCursor S p c s))) q k) \<and>
    wallClock (advanceCursor S p c s) = wallClock s \<and> wallTicks (advanceCursor S p c s) = wallTicks s"
proof -
  let ?m = "abs (iStore s)"
  obtain s1 where s1: "sGet S (cursorKey p) (iStore s) = (case ?m (cursorKey p) of None \<Rightarrow> Inl ErrNotFound | Some v \<Rightarrow> Inr v, s1)"
      "inv s1" "abs s1 = ?m"
    using get_run [OF assms(1)] .
  obtain s2 where s2: "sSet S (cursorKey p) c s1 = (Inr (), s2)" "inv s2" "abs s2 = (abs s1)(cursorKey p \<mapsto> c)"
    using set_run [OF s1(2)] .
  have moved: "n < n' \<Longrightarrow> key_at (queue ?m) n < c"
    using queue_key_mono [OF _ _ _ queue_holds_nonempty [OF assms(2)], of n n'] assms(3,4) queue_holds_length [OF assms(2)]
    by (auto simp: at_position_def)
  define t where "t = (if \<exists>e. ?m (cursorKey p) = Some e \<and> e \<ge> c then s1 else s2)"
  have run: "advanceCursor S p c s = s\<lparr>iStore := t\<rparr>"
    using s1(1) s2(1) by (auto simp: advanceCursor_def icall_def t_def split: option.splits)
  have pos: "at_position (abs t) p n'"
  proof (cases "n < n'")
    case True
    then have c: "c = key_at (queue ?m) n'" "n' \<le> length (queue ?m)" using assms(4) queue_holds_length [OF assms(2)] by auto
    have "inbox_cursor ?m p < c" using moved [OF True] assms(3) by (simp add: at_position_def)
    then have "t = s2" by (auto simp: t_def inbox_cursor_def split: option.splits)
    then show ?thesis using c by (simp add: at_position_def s2(3) s1(3) inbox_cursor_def queue_cursor_write)
  next
    case False
    then have c: "n' = n" "c = []" using assms(4) by auto
    show ?thesis
    proof (cases "?m (cursorKey p)")
      case None
      then have "t = s2" "inbox_cursor ?m p = []" by (auto simp: t_def inbox_cursor_def)
      then show ?thesis using c assms(3) by (simp add: at_position_def s2(3) s1(3) inbox_cursor_def queue_cursor_write)
    next
      case (Some e)
      then have "t = s1" using c by (auto simp: t_def)
      then show ?thesis using c assms(3) s1(3) by simp
    qed
  qed
  have "abs t = ?m \<or> abs t = ?m(cursorKey p \<mapsto> c)" using s1(3) s2(3) by (auto simp: t_def)
  then have "queue_holds s (abs t) log" "\<And>q k. q \<noteq> p \<Longrightarrow> at_position ?m q k \<Longrightarrow> at_position (abs t) q k"
    using assms(2) by (auto simp: at_position_other)
  moreover have "inv t" using s1(2) s2(2) by (simp add: t_def)
  ultimately show ?thesis using pos unfolding run by (simp add: queue_holds_def)
qed

end

section \<open>Invariant of runs\<close>

definition inbox_inv ::
  "('s \<Rightarrow> bool) \<Rightarrow> ('s \<Rightarrow> (string \<rightharpoonup> string)) \<Rightarrow> 's InboxServer \<Rightarrow> (string \<times> SyncStoreItem) list \<Rightarrow> (string \<Rightarrow> SyncStoreItem list) \<Rightarrow> bool" where
  "inbox_inv I A s log got \<longleftrightarrow> I (iStore s) \<and> queue_holds s (A (iStore s)) log \<and>
     (\<forall>p. \<exists>n. at_position (A (iStore s)) p n \<and> got p = foreign p (take n log))"

lemma foreign_append: "foreign p (xs @ ys) = foreign p xs @ foreign p ys"
  by (simp add: foreign_def)

lemma take_next: "take n log @ take 1000 (drop n log) = take (n + 1000) log"
  by (simp add: take_add)

lemma notifyPeers_simps [simp]:
  "iStore (notifyPeers p s) = iStore s" "wallTicks (notifyPeers p s) = wallTicks s" "wallClock (notifyPeers p s) = wallClock s"
  by (simp_all add: notifyPeers_def)

lemma queue_holds_clock:
  "wallClock s' = wallClock s \<Longrightarrow> wallTicks s' = wallTicks s \<Longrightarrow> queue_holds s' m log \<longleftrightarrow> queue_holds s m log"
  by (simp add: queue_holds_def)

context kv_store
begin

text \<open>Reading what is pending and moving the cursor past it.\<close>

lemma read_and_ack:
  assumes "inbox_inv inv abs s log got"
  obtains its cur s1 where "readPending S p s = ((its, cur), s1)" and "inbox_inv inv abs s1 log got"
    and "inbox_inv inv abs (advanceCursor S p cur s1) log (got(p := got p @ its))"
    and "\<And>n. at_position (abs (iStore s)) p n \<Longrightarrow> at_position (abs (iStore (advanceCursor S p cur s1))) p (min (n + 1000) (length log))"
    and "wallClock s1 = wallClock s" and "wallTicks s1 = wallTicks s"
proof -
  have i: "inv (iStore s)" "queue_holds s (abs (iStore s)) log" using assms by (auto simp: inbox_inv_def)
  obtain n where n: "at_position (abs (iStore s)) p n" "got p = foreign p (take n log)" using assms by (auto simp: inbox_inv_def)
  let ?q = "queue (abs (iStore s))"
  have len: "length ?q = length log" by (rule queue_holds_length [OF i(2)])
  define cur where "cur = (if n < length log then key_at ?q (min (n + 1000) (length log)) else [])"
  obtain s1 where s1: "readPending S p s = ((foreign p (take 1000 (drop n log)), cur), s1)" "inv (iStore s1)"
      "abs (iStore s1) = abs (iStore s)" "wallClock s1 = wallClock s" "wallTicks s1 = wallTicks s"
    using readPending_spec [OF i n(1)] unfolding cur_def by blast
  have q1: "queue_holds s1 (abs (iStore s1)) log" using i(2) s1 queue_holds_clock by metis
  have inv1: "inbox_inv inv abs s1 log got" using assms q1 s1 by (auto simp: inbox_inv_def)
  let ?n = "min (n + 1000) (length log)" and ?s2 = "advanceCursor S p cur s1"
  have nl: "n \<le> length log" using n(1) len by (simp add: at_position_def)
  have adv: "inv (iStore ?s2)" "queue_holds ?s2 (abs (iStore ?s2)) log" "at_position (abs (iStore ?s2)) p ?n"
      "\<And>q k. q \<noteq> p \<Longrightarrow> at_position (abs (iStore s1)) q k \<Longrightarrow> at_position (abs (iStore ?s2)) q k"
    using advanceCursor_spec [OF s1(2) q1, of p n ?n cur] n(1) nl s1(3) by (auto simp: cur_def)
  have "got p @ foreign p (take 1000 (drop n log)) = foreign p (take (n + 1000) log)"
    using n(2) take_next [of n log] by (metis foreign_append)
  also have "take (n + 1000) log = take ?n log" by (simp add: min_def)
  finally have gp: "got p @ foreign p (take 1000 (drop n log)) = foreign p (take ?n log)" .
  have inv2: "inbox_inv inv abs ?s2 log (got(p := got p @ foreign p (take 1000 (drop n log))))"
    unfolding inbox_inv_def
  proof (intro conjI allI)
    fix q
    show "\<exists>k. at_position (abs (iStore ?s2)) q k \<and> (got(p := got p @ foreign p (take 1000 (drop n log)))) q = foreign q (take k log)"
    proof (cases "q = p")
      case True
      then show ?thesis using adv(3) gp by auto
    next
      case False
      obtain k where "at_position (abs (iStore s1)) q k" "got q = foreign q (take k log)"
        using inv1 by (auto simp: inbox_inv_def)
      then show ?thesis using False adv(4) [of q k] by auto
    qed
  qed (use adv in auto)
  have uniq: "k = n" if "at_position (abs (iStore s)) p k" for k
    using that n(1) queue_key_mono [OF _ _ _ queue_holds_nonempty [OF i(2)], of k n]
      queue_key_mono [OF _ _ _ queue_holds_nonempty [OF i(2)], of n k]
    by (metis at_position_def less_irrefl nat_neq_iff)
  show ?thesis using that [OF s1(1) inv1 inv2 _ s1(4,5)] adv(3) uniq by blast
qed

lemma inbox_run_inv: "inbox_run S inv abs s log got \<Longrightarrow> inbox_inv inv abs s log got"
proof (induction rule: inbox_run.induct)
  case (start s)
  have "queue Map.empty = []" by (simp add: queue_def list_spec_def all_msgs_def)
  then show ?case using start by (simp add: inbox_inv_def queue_holds_def at_position_def inbox_cursor_def key_at_def foreign_def)
next
  case (exchange s log got peer msg resp cur s' acked)
  let ?its = "msg_items msg"
  define s0 where "s0 = (case mPayload msg of None \<Rightarrow> s
      | Some p \<Rightarrow> if Items p \<noteq> [] then notifyPeers peer (storeItems S peer (Items p) s) else s)"
  have i: "inv (iStore s)" "queue_holds s (abs (iStore s)) log" using exchange.IH by (auto simp: inbox_inv_def)
  note store = storeItems_spec [OF i exchange.hyps(2-4)]
  have "iStore s0 = iStore (storeItems S peer ?its s)" "wallClock s0 = wallClock (storeItems S peer ?its s)"
      "wallTicks s0 = wallTicks (storeItems S peer ?its s)"
    by (auto simp: s0_def msg_items_def split: option.splits)
  then have inv0: "inbox_inv inv abs s0 (log @ map (Pair peer) ?its) got"
    unfolding inbox_inv_def
  proof (intro conjI allI)
    fix p
    obtain n where n: "at_position (abs (iStore s)) p n" "got p = foreign p (take n log)" using exchange.IH by (auto simp: inbox_inv_def)
    have "n \<le> length log" using n(1) queue_holds_length [OF i(2)] by (simp add: at_position_def)
    then show "\<exists>n. at_position (abs (iStore s0)) p n \<and> got p = foreign p (take n (log @ map (Pair peer) ?its))"
      using n store \<open>iStore s0 = iStore (storeItems S peer ?its s)\<close> by (intro exI [of _ n]) simp
  qed (use store queue_holds_clock [of s0 "storeItems S peer ?its s"] in auto)
  obtain its c s1 where r: "readPending S peer s0 = ((its, c), s1)" "inbox_inv inv abs s1 (log @ map (Pair peer) ?its) got"
      "inbox_inv inv abs (advanceCursor S peer c s1) (log @ map (Pair peer) ?its) (got(peer := got peer @ its))"
    using read_and_ack [OF inv0, of peer] by metis
  have "cur = c" "s' = s1" "msg_items resp = its"
    using exchange.hyps(5) r(1) by (auto simp: inboxHandleMessage_def Let_def s0_def [symmetric] msg_items_def)
  then show ?case using r by (cases acked) (simp_all only: if_True if_False)
next
  case (push s log got peer ok w s')
  obtain its c s1 where r: "readPending S peer s = ((its, c), s1)" "inbox_inv inv abs s1 log got"
      "inbox_inv inv abs (advanceCursor S peer c s1) log (got(peer := got peer @ its))"
    using read_and_ack [OF push.IH, of peer] by metis
  show ?case
  proof (cases "its = []")
    case True
    then show ?thesis using push.hyps(2) r(1,3) by (simp add: sendPendingToConn_def)
  next
    case False
    then show ?thesis using push.hyps(2) r by (auto simp: sendPendingToConn_def msg_items_def fun_upd_def split: if_splits)
  qed
qed

lemma pushes_drain:
  assumes "inbox_inv inv abs s log got" and "at_position (abs (iStore s)) p n" and "length log \<le> n + 1000 * k"
    and "serve_loop S p (replicate k (Pushed True)) s = (ws, s')"
  shows "got p @ concat (map msg_items ws) = foreign p log"
  using assms
proof (induction k arbitrary: s got n ws)
  case 0
  have q: "queue_holds s (abs (iStore s)) log" using 0(1) by (simp add: inbox_inv_def)
  have "n = length log" using 0 queue_holds_length [OF q] by (simp add: at_position_def)
  moreover obtain n' where n': "at_position (abs (iStore s)) p n'" "got p = foreign p (take n' log)" using 0(1) by (auto simp: inbox_inv_def)
  moreover have "n' = n"
    using n'(1) 0(2) queue_key_mono [OF _ _ _ queue_holds_nonempty [OF q], of n' n]
      queue_key_mono [OF _ _ _ queue_holds_nonempty [OF q], of n n']
    by (metis at_position_def less_irrefl nat_neq_iff)
  ultimately show ?case using 0(4) by simp
next
  case (Suc k)
  obtain its c s1 where r: "readPending S p s = ((its, c), s1)"
      "inbox_inv inv abs (advanceCursor S p c s1) log (got(p := got p @ its))"
      "at_position (abs (iStore (advanceCursor S p c s1))) p (min (n + 1000) (length log))"
    using read_and_ack [OF Suc.prems(1), of p] Suc.prems(2) by metis
  obtain w where w: "sendPendingToConn S p True s = (w, advanceCursor S p c s1)" "concat (map msg_items (case w of None \<Rightarrow> [] | Some m \<Rightarrow> [m])) = its"
  proof (rule that [of "if its = [] then None else Some \<lparr>mType = ''sync'', mPayload = Some \<lparr>Items = its, LastSyncTimestamp = 0\<rparr>, mError = []\<rparr>"])
  qed (use r(1) in \<open>simp_all add: sendPendingToConn_def msg_items_def\<close>)
  obtain ws' where ws': "serve_loop S p (replicate k (Pushed True)) (advanceCursor S p c s1) = (ws', s')"
      "ws = (case w of None \<Rightarrow> [] | Some m \<Rightarrow> [m]) @ ws'"
    using Suc.prems(4) w(1) by (auto split: prod.splits)
  have "length log \<le> min (n + 1000) (length log) + 1000 * k" using Suc.prems(3) by (simp add: min_def)
  from Suc.IH [OF r(2,3) this ws'(1)] show ?case using ws'(2) w(2) by auto
qed

end

section \<open>Cleanup\<close>

lemma min_cursor_fold:
  assumes "\<forall>kv \<in> set cs. kvValue kv \<noteq> []"
  shows "fold (\<lambda>kv mc. if mc = [] \<or> kvValue kv < mc then kvValue kv else mc) cs c =
    (if c = [] then (if cs = [] then [] else Min (kvValue ` set cs)) else Min (insert c (kvValue ` set cs)))"
  using assms
proof (induction cs arbitrary: c)
  case Nil
  then show ?case by simp
next
  case (Cons kv cs)
  have k: "kvValue kv \<noteq> []" using Cons.prems by simp
  define d where "d = (if c = [] \<or> kvValue kv < c then kvValue kv else c)"
  have "d \<noteq> []" using k by (auto simp: d_def)
  then have f: "fold (\<lambda>kv mc. if mc = [] \<or> kvValue kv < mc then kvValue kv else mc) (kv # cs) c = Min (insert d (kvValue ` set cs))"
    using Cons by (simp add: d_def)
  show ?case
  proof (cases "c = []")
    case True
    then show ?thesis using f by (simp add: d_def)
  next
    case False
    then have "d = min (kvValue kv) c" by (auto simp: d_def min_def)
    then have "Min (insert d (kvValue ` set cs)) = Min (insert c (kvValue ` set (kv # cs)))"
      by (cases "cs = []") (simp_all add: min.assoc min.commute min.left_commute)
    then show ?thesis using f False by simp
  qed
qed

lemma min_cursor_Min:
  assumes "\<forall>kv \<in> set cs. kvValue kv \<noteq> []" and "cs \<noteq> []"
  shows "min_cursor cs = Min (kvValue ` set cs)"
  unfolding min_cursor_def using min_cursor_fold [OF assms(1), of "[]"] assms(2) by simp

context kv_store
begin

lemma cleanup_page_spec:
  assumes "inv (iStore s)" and "sorted_wrt (<) (map kvKey kvs)" and "kvKey ` set kvs \<subseteq> dom (abs (iStore s))"
  shows "\<exists>s'. cleanup_page S c kvs s = (\<forall>kv \<in> set kvs. kvKey kv \<le> c, s') \<and> inv (iStore s') \<and>
    abs (iStore s') = (abs (iStore s)) |` (- {k \<in> kvKey ` set kvs. k \<le> c})"
  using assms
proof (induction kvs arbitrary: s)
  case Nil
  then show ?case by simp
next
  case (Cons kv kvs)
  show ?case
  proof (cases "kvKey kv > c")
    case True
    then have "{k \<in> kvKey ` set (kv # kvs). k \<le> c} = {}" using Cons.prems(2) by auto
    then show ?thesis using True Cons.prems(1) by (intro exI [of _ s]) (auto simp: restrict_map_def)
  next
    case False
    obtain st where st: "sDelete S (kvKey kv) (iStore s) = (Inr (), st)" "inv st" "abs st = (abs (iStore s))(kvKey kv := None)"
      by (rule delete_run_present [OF Cons.prems(1), of "kvKey kv"]) (use Cons.prems(3) in auto)
    have "kvKey kv \<notin> kvKey ` set kvs" using Cons.prems(2) by force
    moreover have "kvKey ` set kvs \<subseteq> dom (abs (iStore s))" using Cons.prems(3) by simp
    ultimately have "kvKey ` set kvs \<subseteq> dom (abs (iStore s)) - {kvKey kv}" by blast
    then have sub: "kvKey ` set kvs \<subseteq> dom (abs st)" unfolding st(3) dom_fun_upd by simp
    obtain s' where s': "cleanup_page S c kvs (s\<lparr>iStore := st\<rparr>) = (\<forall>kv \<in> set kvs. kvKey kv \<le> c, s')" "inv (iStore s')"
        "abs (iStore s') = (abs st) |` (- {k \<in> kvKey ` set kvs. k \<le> c})"
      using Cons.IH [of "s\<lparr>iStore := st\<rparr>"] Cons.prems(2) st(2) sub by auto
    have "abs (iStore s') = (abs (iStore s)) |` (- {k \<in> kvKey ` set (kv # kvs). k \<le> c})"
      unfolding s'(3) st(3) using False by (auto simp: restrict_map_def fun_eq_iff)
    then show ?thesis using s' False st(1) by (auto simp: icall_def not_less)
  qed
qed

text \<open>The loop ends because every round but the last deletes a full, non-empty page.\<close>

lemma cleanup_loop_spec:
  assumes "inv (iStore s)"
  shows "\<exists>s'. cleanup_loop S c s = Some (Inr (), s') \<and> inv (iStore s') \<and>
    abs (iStore s') = (abs (iStore s)) |` (- {k. prefix inboxMsgPrefix k \<and> k \<le> c})"
  using assms
proof (induction "card (dom (abs (iStore s)))" arbitrary: s rule: less_induct)
  case less
  let ?m = "abs (iStore s)" and ?a = "\<lparr>Prefix = inboxMsgPrefix, StartAfter = [], Limit = 100\<rparr>"
  let ?L = "list_spec ?m ?a"
  have fin: "finite (dom ?m)" using content_finite [OF less.prems] .
  obtain st where st: "sList S ?a (iStore s) = (Inr ?L, st)" "inv st" "abs st = ?m" using list_run [OF less.prems] .
  let ?s1 = "s\<lparr>iStore := st\<rparr>"
  have full: "?L = take 100 (queue ?m)"
    using list_spec_limited [of ?m ?a] by (simp add: queue_def all_msgs_def limit_to_def)
  have inq: "kvKey ` set (queue ?m) = {k \<in> dom ?m. prefix inboxMsgPrefix k}"
    using fin by (auto simp: queue_def set_list_spec_unlimited all_msgs_def in_range_def entry_at_def image_iff)
  have sub: "kvKey ` set ?L \<subseteq> dom ?m" using list_spec_entry [OF fin] by (auto simp: domIff)
  obtain s2 where s2: "cleanup_page S c ?L ?s1 = (\<forall>kv \<in> set ?L. kvKey kv \<le> c, s2)" "inv (iStore s2)"
      "abs (iStore s2) = ?m |` (- {k \<in> kvKey ` set ?L. k \<le> c})"
    using cleanup_page_spec [of ?s1 ?L c] list_spec_sorted [of ?m ?a] st(2,3) sub by auto
  have unfold: "cleanup_loop S c s = (if ?L = [] then Some (Inr (), ?s1)
      else if \<forall>kv \<in> set ?L. kvKey kv \<le> c then cleanup_loop S c s2 else Some (Inr (), s2))"
    using st(1) s2(1) by (subst cleanup_loop.simps) (simp add: icall_def)
  consider "?L = []" | "?L \<noteq> []" "\<forall>kv \<in> set ?L. kvKey kv \<le> c" | "?L \<noteq> []" "\<exists>kv \<in> set ?L. kvKey kv > c" by fastforce
  then show ?case
  proof cases
    case 1
    then have "{k \<in> dom ?m. prefix inboxMsgPrefix k} = {}" using inq full by simp
    then have "prefix inboxMsgPrefix k \<Longrightarrow> ?m k = None" for k by auto
    then have "?m |` (- {k. prefix inboxMsgPrefix k \<and> k \<le> c}) = ?m" by (simp add: restrict_map_def fun_eq_iff)
    then show ?thesis using 1 st unfold by (intro exI [of _ ?s1]) simp
  next
    case 2
    then obtain kv where kv: "kv \<in> set ?L" by (cases ?L) auto
    have "dom (abs (iStore s2)) \<subseteq> dom ?m - {kvKey kv}" using kv 2(2) by (auto simp: s2(3) restrict_map_def split: if_splits)
    moreover have "kvKey kv \<in> dom ?m" using sub kv by auto
    ultimately have "dom (abs (iStore s2)) \<subset> dom ?m" by blast
    then have "card (dom (abs (iStore s2))) < card (dom ?m)" using fin by (rule psubset_card_mono [rotated])
    then obtain s' where s': "cleanup_loop S c s2 = Some (Inr (), s')" "inv (iStore s')"
        "abs (iStore s') = (abs (iStore s2)) |` (- {k. prefix inboxMsgPrefix k \<and> k \<le> c})"
      using less.hyps [of s2] s2(2) by auto
    have pf: "prefix inboxMsgPrefix (kvKey kv)" if "kv \<in> set ?L" for kv
      using list_spec_entry [OF fin that] by (simp add: in_range_def)
    have "abs (iStore s') = ?m |` (- {k. prefix inboxMsgPrefix k \<and> k \<le> c})"
      unfolding s'(3) s2(3) using pf by (auto simp: restrict_map_def fun_eq_iff)
    then show ?thesis using 2 s' unfold by simp
  next
    case 3
    then obtain kv where kv: "kv \<in> set ?L" "kvKey kv > c" by auto
    have above: "k \<in> kvKey ` set ?L" if k: "k \<in> dom ?m" "prefix inboxMsgPrefix k" "k \<le> c" for k
    proof (rule ccontr)
      assume out: "k \<notin> kvKey ` set ?L"
      have "k \<in> kvKey ` set (queue ?m)" using k inq by auto
      then have "k \<in> set (map kvKey (take 100 (queue ?m)) @ map kvKey (drop 100 (queue ?m)))"
        by (simp flip: map_append)
      then have "k \<in> set (map kvKey (drop 100 (queue ?m)))" using out full by auto
      moreover have "sorted_wrt (<) (map kvKey (take 100 (queue ?m)) @ map kvKey (drop 100 (queue ?m)))"
        using list_spec_sorted [of ?m all_msgs] by (simp add: queue_def flip: map_append)
      ultimately have "kvKey kv < k" using kv(1) full by (auto simp: sorted_wrt_append)
      then show False using kv(2) k(3) by simp
    qed
    have pf: "prefix inboxMsgPrefix (kvKey kv)" if "kv \<in> set ?L" for kv
      using list_spec_entry [OF fin that] by (simp add: in_range_def)
    have "abs (iStore s2) = ?m |` (- {k. prefix inboxMsgPrefix k \<and> k \<le> c})"
      unfolding s2(3) using above pf by (force simp: restrict_map_def fun_eq_iff domIff)
    then show ?thesis using 3 s2 unfold by (intro exI [of _ s2]) auto
  qed
qed

end

section \<open>Properties\<close>


definition relay :: "StoreMemory InboxServer" where
  "relay = NewInbox NewMemory (TokenAuth Map.empty) (\<lambda>n. 1700000000000000000 + int n) (\<lambda>n. dec n)"

definition post :: "SyncStoreItem list \<Rightarrow> Message" where
  "post its = \<lparr>mType = ''sync'', mPayload = Some \<lparr>Items = its, LastSyncTimestamp = 0\<rparr>, mError = []\<rparr>"

lemma relay_start: "inbox_run memStore mem_inv mem_abs relay [] (\<lambda>_. [])"
  by (rule start) (simp_all add: relay_def NewInbox_def NewMemory_def mem_inv_def mem_abs_def)

lemma relay_posted:
  "\<exists>resp cur s'. inboxHandleMessage memStore ''a'' (post [zeroItem]) relay = ((resp, cur), s') \<and>
     inbox_run memStore mem_inv mem_abs s' [(''a'', zeroItem)] (\<lambda>_. [])"
proof -
  obtain resp cur s' where e: "inboxHandleMessage memStore ''a'' (post [zeroItem]) relay = ((resp, cur), s')"
    by (metis prod.collapse)
  have "inbox_run memStore mem_inv mem_abs (if False then advanceCursor memStore ''a'' cur s' else s')
      ([] @ map (Pair ''a'') (msg_items (post [zeroItem]))) (if False then (\<lambda>_. [])(''a'' := [] @ msg_items resp) else (\<lambda>_. []))"
    by (rule exchange [OF relay_start _ _ _ e])
      (simp_all add: post_def msg_items_def clock_advances_def relay_def NewInbox_def nano19_def utf8_valid_ascii valid_item_def zeroItem_def in_i64_def)
  then show ?thesis using e by (auto simp: post_def msg_items_def)
qed




text \<open>C31. Cleanup keeps what is undelivered, provided every known peer has a non-empty cursor: it
  returns, removes exactly the queue entries that lie at or before all cursors, and changes
  nothing else.\<close>

theorem Cleanup_safe:
  assumes "kv_store S I A" and "I (iStore s)" and "\<And>p. A (iStore s) (cursorKey p) \<noteq> Some []"
  shows "\<exists>s'. Cleanup S s = Some (Inr (), s') \<and> I (iStore s') \<and>
    (\<forall>k. A (iStore s') k =
      (if prefix inboxMsgPrefix k \<and> (\<exists>p. A (iStore s) (cursorKey p) \<noteq> None) \<and>
          (\<forall>p c. A (iStore s) (cursorKey p) = Some c \<longrightarrow> k \<le> c) then None else A (iStore s) k))"
proof -
  let ?m = "A (iStore s)" and ?a = "\<lparr>Prefix = inboxCursorPrefix, StartAfter = [], Limit = 0\<rparr>"
  let ?cs = "list_spec ?m ?a"
  have fin: "finite (dom ?m)" using fallible_store.content_finite [OF kv_store.axioms(1) [OF assms(1)] assms(2)] .
  obtain st where st: "sList S ?a (iStore s) = (Inr ?cs, st)" "I st" "A st = ?m" using kv_store.list_run [OF assms(1,2)] .
  have cs: "kvValue ` set ?cs = {c. \<exists>p. ?m (cursorKey p) = Some c}"
  proof (intro set_eqI iffI)
    fix c assume "c \<in> kvValue ` set ?cs"
    then obtain kv where "kv \<in> set ?cs" "c = kvValue kv" by auto
    then show "c \<in> {c. \<exists>p. ?m (cursorKey p) = Some c}"
      using list_spec_entry [OF fin] by (force simp: in_range_def prefix_def cursorKey_def)
  next
    fix c assume "c \<in> {c. \<exists>p. ?m (cursorKey p) = Some c}"
    then obtain p where p: "?m (cursorKey p) = Some c" by blast
    then have "entry_at ?m (cursorKey p) \<in> set ?cs"
      using fin by (auto simp: set_list_spec_unlimited in_range_def cursorKey_def)
    then show "c \<in> kvValue ` set ?cs" using p by (force simp: entry_at_def)
  qed
  have ne: "\<forall>kv \<in> set ?cs. kvValue kv \<noteq> []"
  proof
    fix kv assume "kv \<in> set ?cs"
    then have "kvValue kv \<in> {c. \<exists>p. ?m (cursorKey p) = Some c}" using cs by blast
    then show "kvValue kv \<noteq> []" using assms(3) by auto
  qed
  show ?thesis
  proof (cases "?cs = []")
    case True
    then have "\<nexists>p. ?m (cursorKey p) \<noteq> None" using cs by auto
    then show ?thesis using True st by (intro exI [of _ "s\<lparr>iStore := st\<rparr>"]) (simp add: Cleanup_def icall_def)
  next
    case False
    let ?c = "min_cursor ?cs"
    have Min: "?c = Min (kvValue ` set ?cs)" by (rule min_cursor_Min [OF ne False])
    have c_in: "?c \<in> kvValue ` set ?cs" unfolding Min using False by (intro Min_in) auto
    then have cne: "?c \<noteq> []" using ne by auto
    from c_in have "?c \<in> {c. \<exists>p. ?m (cursorKey p) = Some c}" unfolding cs .
    then have ex: "\<exists>p. ?m (cursorKey p) \<noteq> None" by auto
    have le: "k \<le> ?c \<longleftrightarrow> (\<forall>p c. ?m (cursorKey p) = Some c \<longrightarrow> k \<le> c)" for k
    proof -
      have "k \<le> ?c \<longleftrightarrow> (\<forall>c \<in> kvValue ` set ?cs. k \<le> c)" unfolding Min using False by simp
      then show ?thesis unfolding cs by auto
    qed
    obtain s' where s': "cleanup_loop S ?c (s\<lparr>iStore := st\<rparr>) = Some (Inr (), s')" "I (iStore s')"
        "A (iStore s') = (A st) |` (- {k. prefix inboxMsgPrefix k \<and> k \<le> ?c})"
      using kv_store.cleanup_loop_spec [OF assms(1), of "s\<lparr>iStore := st\<rparr>" ?c] st(2) by auto
    have "Cleanup S s = Some (Inr (), s')" using False st(1) s'(1) cne by (simp add: Cleanup_def icall_def)
    moreover have "A (iStore s') k = (if prefix inboxMsgPrefix k \<and> (\<exists>p. ?m (cursorKey p) \<noteq> None) \<and>
          (\<forall>p c. ?m (cursorKey p) = Some c \<longrightarrow> k \<le> c) then None else ?m k)" for k
      using ex unfolding s'(3) st(3) le restrict_map_def by auto
    ultimately show ?thesis using s'(2) by blast
  qed
qed

definition queued_relay :: "(string \<times> string) list \<Rightarrow> StoreMemory InboxServer" where
  "queued_relay cursors = relay\<lparr>iStore := \<lparr>data =
     (inboxMsgPrefix @ ''1'', ''x'') # (inboxMsgPrefix @ ''2'', ''y'') # map (\<lambda>(p, c). (cursorKey p, c)) cursors\<rparr>\<rparr>"

lemmas inbox_prefixes = inboxMsgPrefix_def inboxCursorPrefix_def cursorKey_def

theorem Cleanup_safe_witness:
  "\<exists>s'. Cleanup memStore (queued_relay [(''a'', ''%inbox%msg%1'')]) = Some (Inr (), s') \<and>
     mem_abs (iStore s') ''%inbox%msg%1'' = None \<and> mem_abs (iStore s') ''%inbox%msg%2'' = Some ''y''"
proof -
  let ?s = "queued_relay [(''a'', ''%inbox%msg%1'')]"
  have st: "iStore ?s = \<lparr>data = [(''%inbox%msg%1'', ''x''), (''%inbox%msg%2'', ''y''), (''%inbox%cur%a'', ''%inbox%msg%1'')]\<rparr>"
    by (simp add: queued_relay_def inbox_prefixes)
  have cur: "mem_abs (iStore ?s) (cursorKey p) = (if p = ''a'' then Some ''%inbox%msg%1'' else None)" for p
    unfolding st by (simp add: mem_abs_def inbox_prefixes)
  have inv: "mem_inv (iStore ?s)" unfolding st by (simp add: mem_inv_def)
  have ne: "mem_abs (iStore ?s) (cursorKey p) \<noteq> Some []" for p by (simp add: cur)
  obtain s' where s': "Cleanup memStore ?s = Some (Inr (), s')"
      "\<And>k. mem_abs (iStore s') k = (if prefix inboxMsgPrefix k \<and> (\<exists>p. mem_abs (iStore ?s) (cursorKey p) \<noteq> None) \<and>
          (\<forall>p c. mem_abs (iStore ?s) (cursorKey p) = Some c \<longrightarrow> k \<le> c) then None else mem_abs (iStore ?s) k)"
    using Cleanup_safe [OF mem.kv_store_axioms inv ne] by blast
  have "mem_abs (iStore s') ''%inbox%msg%1'' = None" "mem_abs (iStore s') ''%inbox%msg%2'' = Some ''y''"
    unfolding s'(2) cur by (auto simp: st mem_abs_def inbox_prefixes less_char_def)
  then show ?thesis using s'(1) by blast
qed

text \<open>Cleanup can delete undelivered items: a peer that connected while the queue was empty
  has the empty cursor, which the search for the smallest cursor takes for "none yet".  Here
  \<open>alice\<close> has read nothing, \<open>bob\<close> has read the first item, and Cleanup removes that item.\<close>

theorem Cleanup_drops_undelivered:
  "let s = queued_relay [(''alice'', []), (''bob'', inboxMsgPrefix @ ''1'')]
   in mem_abs (iStore s) (cursorKey ''alice'') = Some [] \<and> mem_abs (iStore s) (inboxMsgPrefix @ ''1'') = Some ''x'' \<and>
      (\<exists>s'. Cleanup memStore s = Some (Inr (), s') \<and> mem_abs (iStore s') (inboxMsgPrefix @ ''1'') = None)"
proof -
  let ?s = "queued_relay [(''alice'', []), (''bob'', inboxMsgPrefix @ ''1'')]"
  have st: "iStore ?s = \<lparr>data = [(''%inbox%msg%1'', ''x''), (''%inbox%msg%2'', ''y''), (''%inbox%cur%alice'', []), (''%inbox%cur%bob'', ''%inbox%msg%1'')]\<rparr>"
    by (simp add: queued_relay_def inbox_prefixes)
  have L: "memList \<lparr>Prefix = inboxCursorPrefix, StartAfter = [], Limit = 0\<rparr> (iStore ?s) =
      (Inr [\<lparr>kvKey = ''%inbox%cur%alice'', kvValue = []\<rparr>, \<lparr>kvKey = ''%inbox%cur%bob'', kvValue = ''%inbox%msg%1''\<rparr>], iStore ?s)"
    unfolding st by (simp add: memList_def inbox_prefixes less_eq_char_def)
  have c: "min_cursor [\<lparr>kvKey = ''%inbox%cur%alice'', kvValue = []\<rparr>, \<lparr>kvKey = ''%inbox%cur%bob'', kvValue = ''%inbox%msg%1''\<rparr>] = ''%inbox%msg%1''"
    by (simp add: min_cursor_def)
  have inv: "mem_inv (iStore ?s)" unfolding st by (simp add: mem_inv_def)
  obtain s' where s': "cleanup_loop memStore ''%inbox%msg%1'' ?s = Some (Inr (), s')"
      "mem_abs (iStore s') = (mem_abs (iStore ?s)) |` (- {k. prefix inboxMsgPrefix k \<and> k \<le> ''%inbox%msg%1''})"
    using mem.cleanup_loop_spec [OF inv] by blast
  have "Cleanup memStore ?s = Some (Inr (), s')"
    using L c s'(1) by (simp add: Cleanup_def icall_def memStore_def)
  moreover have "mem_abs (iStore s') (inboxMsgPrefix @ ''1'') = None"
    unfolding s'(2) by (simp add: inbox_prefixes)
  moreover have "mem_abs (iStore ?s) (cursorKey ''alice'') = Some []" "mem_abs (iStore ?s) (inboxMsgPrefix @ ''1'') = Some ''x''"
    unfolding st by (simp_all add: mem_abs_def inbox_prefixes)
  ultimately show ?thesis unfolding Let_def by blast
qed

end
