(* ===== verification/Server.thy ===== *)
theory Server
  imports Inbox Outbound
begin

text \<open>
  The HTTP side of the servers: \<open>src/sync/server/main.go\<close>, the request pipeline of
  \<open>src/sync/server/inbox.go\<close>, and the transports of \<open>src/sync/server/transport.go\<close> and
  \<open>src/sync/server/transport_sse.go\<close>.

  A request runs in two parts: everything up to the call of \<open>transport.Serve\<close> decides whether the
  peer is served and takes a connection slot (\<open>ServeHTTP\<close>, \<open>serveTransport\<close>), and everything
  after it gives the slot back (\<open>serve_done\<close>); other requests run in between.  A WebSocket
  upgrade is done by a library: whether it succeeds is the argument \<open>upgrades\<close>.  The
  handler of full sync, \<open>serverHandler\<close>, runs on the engine of theory Core; its \<open>ack\<close> closure
  is represented by the response that it captures.  The listening socket, the HTTP server of
  the standard library and logging are left out.
\<close>

section \<open>Transports\<close>

text \<open>\<open>SSETransport n\<close> is the transport object number \<open>n\<close>; its sessions are part of the state.\<close>

datatype Transport = WebSocketTransport | HTTPTransport | SSETransport nat

fun contains :: "string \<Rightarrow> string \<Rightarrow> bool" where
  "contains s [] = (s = [])"
| "contains s (c # cs) = (prefix s (c # cs) \<or> contains s cs)"

definition wsCanHandle :: "Request \<Rightarrow> bool" where
  "wsCanHandle r = rqUpgrade r"

definition httpCanHandle :: "Request \<Rightarrow> bool" where
  "httpCanHandle r \<longleftrightarrow> rqMethod r = ''POST''"

definition sseCanHandle :: "Request \<Rightarrow> bool" where
  "sseCanHandle r =
     (if rqMethod r = ''GET'' then contains ''text/event-stream'' (rqHeader r ''Accept'')
      else rqMethod r = ''POST'' \<and> rqHeader r ''X-Transport'' = ''sse'')"

fun CanHandle :: "Transport \<Rightarrow> Request \<Rightarrow> bool" where
  "CanHandle WebSocketTransport r = wsCanHandle r"
| "CanHandle HTTPTransport r = httpCanHandle r"
| "CanHandle (SSETransport _) r = sseCanHandle r"

text \<open>The sessions of an SSE transport: peer ID to stream, in a \<open>sync.Map\<close>.\<close>

type_synonym sse_sessions = "(string \<times> nat) list"

definition IsSessionRequest :: "sse_sessions \<Rightarrow> Request \<Rightarrow> string \<Rightarrow> bool" where
  "IsSessionRequest sessions r peerID \<longleftrightarrow> rqMethod r = ''POST'' \<and> map_of sessions peerID \<noteq> None"

text \<open>\<open>handleStream\<close>: the session is stored when the stream opens, and deleted when it ends.\<close>

definition stream_open :: "string \<Rightarrow> nat \<Rightarrow> sse_sessions \<Rightarrow> sse_sessions" where
  "stream_open peerID stream sessions = AList.update peerID stream sessions"

definition stream_end :: "string \<Rightarrow> sse_sessions \<Rightarrow> sse_sessions" where
  "stream_end peerID sessions = AList.delete peerID sessions"

text \<open>\<open>json.NewDecoder(r.Body).Decode\<close> of at most 10 MB: the first value, what follows is not read.\<close>

definition decode_body :: "string \<Rightarrow> Message option" where
  "decode_body body =
     (let b = take (10 * 2 ^ 20) body
      in (case pvalue (Suc (length b)) b of
            None \<Rightarrow> None
          | Some (j, _) \<Rightarrow> json_struct message_field zeroMessage j))"

datatype http_reply = StatusReply nat | MessageReply Message

text \<open>\<open>HTTPTransport.Serve\<close>.  \<open>handle\<close> and \<open>ack\<close> are the handler's; \<open>sent\<close>: the response was written.\<close>

definition httpServe ::
  "(Message \<Rightarrow> 's \<Rightarrow> (Message \<times> 'k, 's) outcome) \<Rightarrow> ('k \<Rightarrow> 's \<Rightarrow> 's) \<Rightarrow> bool \<Rightarrow> string \<Rightarrow> 's \<Rightarrow> http_reply option \<times> 's" where
  "httpServe handle ack sent body s =
     (case decode_body body of
        None \<Rightarrow> (Some (StatusReply 400), s)
      | Some msg \<Rightarrow>
          if mType msg \<noteq> ''sync'' then (Some (StatusReply 400), s)
          else (case handle msg s of
                  (Inl e, s) \<Rightarrow> (Some (StatusReply 500), s)
                | (Inr (resp, k), s) \<Rightarrow> if sent then (Some (MessageReply resp), ack k s) else (None, s)))"

text \<open>
  \<open>handlePost\<close>: with a stream for the peer the message goes to its channel, which holds 64; a
  closed session answers 410.  \<open>Inl stream\<close> is the case that blocks until the stream reads.
\<close>

record sse_stream =
  ssQueue :: "Message list"
  ssDone :: bool

definition handlePost :: "sse_sessions \<Rightarrow> (nat \<Rightarrow> sse_stream) \<Rightarrow> string \<Rightarrow> string \<Rightarrow> (nat + nat \<times> (nat \<Rightarrow> sse_stream)) option" where
  "handlePost sessions streams peerID body =
     (case map_of sessions peerID of
        None \<Rightarrow> None
      | Some n \<Rightarrow> Some
          (case decode_body body of
             None \<Rightarrow> Inr (400, streams)
           | Some msg \<Rightarrow>
               if length (ssQueue (streams n)) < 64
               then Inr (202, streams(n := (streams n)\<lparr>ssQueue := ssQueue (streams n) @ [msg]\<rparr>))
               else if ssDone (streams n) then Inr (410, streams)
               else Inl n))"

section \<open>The server\<close>

record ('st, 'x) Server = admission +
  srvStore :: "'st option"
  srvResolver :: "string \<Rightarrow> 'st result"
  srvAuth :: Authorizer
  srvTransports :: "Transport list"
  srvWebSocket :: bool
  srvSessions :: "nat \<Rightarrow> sse_sessions"
  srvAdapters :: "('st \<times> nat) list"
  srvNextAdapter :: nat
  srvOnPeerConnect :: "(string \<Rightarrow> Request \<Rightarrow> error option) list"
  srvOnPeerDisconnect :: "(string \<Rightarrow> 'x \<Rightarrow> 'x) list"
  srvHookState :: 'x

definition CloseCodeAuthFailed :: nat where "CloseCodeAuthFailed = 4401"

definition NewServer :: "'st \<Rightarrow> Authorizer \<Rightarrow> (nat \<Rightarrow> int) \<Rightarrow> 'x \<Rightarrow> ('st, 'x) Server" where
  "NewServer st auth clk x =
     \<lparr>maxConnsPerPeer = 10, maxTotalConns = 1000, trustedProxies = [], totalConns = 0, peerConns = [],
      authFailCount = [], wallClock = clk, wallTicks = 0,
      srvStore = Some st, srvResolver = (\<lambda>_. Inl (Errorf ''nil resolver'')), srvAuth = auth,
      srvTransports = [WebSocketTransport], srvWebSocket = True, srvSessions = (\<lambda>_. []),
      srvAdapters = [(st, 0)], srvNextAdapter = 1,
      srvOnPeerConnect = [], srvOnPeerDisconnect = [], srvHookState = x\<rparr>"

definition NewMulti :: "(string \<Rightarrow> 'st result) \<Rightarrow> Authorizer \<Rightarrow> (nat \<Rightarrow> int) \<Rightarrow> 'x \<Rightarrow> ('st, 'x) Server" where
  "NewMulti resolver auth clk x =
     \<lparr>maxConnsPerPeer = 10, maxTotalConns = 1000, trustedProxies = [], totalConns = 0, peerConns = [],
      authFailCount = [], wallClock = clk, wallTicks = 0,
      srvStore = None, srvResolver = resolver, srvAuth = auth,
      srvTransports = [WebSocketTransport], srvWebSocket = True, srvSessions = (\<lambda>_. []),
      srvAdapters = [], srvNextAdapter = 0,
      srvOnPeerConnect = [], srvOnPeerDisconnect = [], srvHookState = x\<rparr>"

definition SrvOnPeerConnect :: "(string \<Rightarrow> Request \<Rightarrow> error option) \<Rightarrow> ('st, 'x) Server \<Rightarrow> ('st, 'x) Server" where
  "SrvOnPeerConnect fn s = s\<lparr>srvOnPeerConnect := srvOnPeerConnect s @ [fn]\<rparr>"

definition SrvOnPeerDisconnect :: "(string \<Rightarrow> 'x \<Rightarrow> 'x) \<Rightarrow> ('st, 'x) Server \<Rightarrow> ('st, 'x) Server" where
  "SrvOnPeerDisconnect fn s = s\<lparr>srvOnPeerDisconnect := srvOnPeerDisconnect s @ [fn]\<rparr>"

definition AddTransport :: "Transport \<Rightarrow> ('st, 'x) Server \<Rightarrow> ('st, 'x) Server" where
  "AddTransport t s = s\<lparr>srvTransports := srvTransports s @ [t]\<rparr>"

definition EnableHTTP :: "('st, 'x) Server \<Rightarrow> ('st, 'x) Server" where
  "EnableHTTP s = AddTransport HTTPTransport s"

definition EnableSSE :: "nat \<Rightarrow> ('st, 'x) Server \<Rightarrow> ('st, 'x) Server" where
  "EnableSSE n s = AddTransport (SSETransport n) s"

text \<open>The check that \<open>SetAllowedOrigins\<close> installs.\<close>

definition origin_allowed :: "string list \<Rightarrow> Request \<Rightarrow> bool" where
  "origin_allowed origins r \<longleftrightarrow> (\<exists>o1 \<in> set origins. o1 = ''*'' \<or> o1 = rqHeader r ''Origin'')"

definition resolveStore :: "Request \<Rightarrow> ('st, 'x) Server \<Rightarrow> 'st result" where
  "resolveStore r s =
     (case srvStore s of
        Some st \<Rightarrow> Inr st
      | None \<Rightarrow>
          (let path = TrimRight (CHR ''/'') (rqPath r)
           in if CHR ''/'' \<notin> set path \<or> after_last (CHR ''/'') path = []
              then Inl (Errorf ''missing store ID in path'')
              else srvResolver s (after_last (CHR ''/'') path)))"

text \<open>\<open>closed\<close> tells which client adapters have been closed.\<close>

definition getAdapter :: "(nat \<Rightarrow> bool) \<Rightarrow> 'st \<Rightarrow> ('st, 'x) Server \<Rightarrow> nat \<times> ('st, 'x) Server" where
  "getAdapter closed st s =
     (case map_of (srvAdapters s) st of
        Some a \<Rightarrow>
          if \<not> closed a then (a, s)
          else (srvNextAdapter s, s\<lparr>srvAdapters := AList.update st (srvNextAdapter s) (srvAdapters s),
                                     srvNextAdapter := Suc (srvNextAdapter s)\<rparr>)
      | None \<Rightarrow> (srvNextAdapter s, s\<lparr>srvAdapters := AList.update st (srvNextAdapter s) (srvAdapters s),
                                     srvNextAdapter := Suc (srvNextAdapter s)\<rparr>))"

section \<open>The pipeline\<close>

datatype served =
    Status nat
  | ClosedWith nat
  | UpgradeError
  | Admitted Transport string
  | OnSession Transport string

text \<open>Rate limit and authentication, the head of \<open>ServeHTTP\<close> and \<open>serveWithTransport\<close> of both servers.\<close>

definition authenticate ::
  "Authorizer \<Rightarrow> bool \<Rightarrow> bool \<Rightarrow> Request \<Rightarrow> ('b admission_scheme) \<Rightarrow> (served + string) \<times> ('b admission_scheme)" where
  "authenticate auth hasWS upgrades r s =
     (let ip = clientIP r s
      in (case checkAuthRateLimit ip s of (limited, s) \<Rightarrow>
            if limited then (Inl (Status 429), s)
            else (case wall_now s of (now, s) \<Rightarrow>
                  (case auth r now of
                     Inr peerID \<Rightarrow> (Inr peerID, s)
                   | Inl _ \<Rightarrow>
                       (Inl (if rqUpgrade r \<and> hasWS
                             then (if upgrades then ClosedWith CloseCodeAuthFailed else UpgradeError)
                             else Status 401), recordAuthFailure ip s)))))"

text \<open>Connection slot and connect hooks; \<open>session\<close> is the test for a secondary request.\<close>

definition admit_peer ::
  "(string \<Rightarrow> Request \<Rightarrow> error option) list \<Rightarrow> bool \<Rightarrow> Transport \<Rightarrow> Request \<Rightarrow> string \<Rightarrow>
     ('b admission_scheme) \<Rightarrow> served \<times> ('b admission_scheme)" where
  "admit_peer hooks session t r peerID s =
     (if session then (OnSession t peerID, s)
      else (case acquireConn peerID s of
              (Inl e, s) \<Rightarrow> (Status 429, s)
            | (Inr _, s) \<Rightarrow>
                if \<exists>fn \<in> set hooks. fn peerID r \<noteq> None then (Status 403, releaseConn peerID s)
                else (Admitted t peerID, s)))"

definition is_session :: "(nat \<Rightarrow> sse_sessions) \<Rightarrow> Transport \<Rightarrow> Request \<Rightarrow> string \<Rightarrow> bool" where
  "is_session sessions t r peerID =
     (case t of SSETransport n \<Rightarrow> IsSessionRequest (sessions n) r peerID | _ \<Rightarrow> False)"

definition serveTransport ::
  "(nat \<Rightarrow> bool) \<Rightarrow> Transport \<Rightarrow> Request \<Rightarrow> string \<Rightarrow> 'st \<Rightarrow> ('st, 'x) Server \<Rightarrow> served \<times> ('st, 'x) Server" where
  "serveTransport closed t r peerID st s =
     (case getAdapter closed st s of (_, s) \<Rightarrow>
        admit_peer (srvOnPeerConnect s) (is_session (srvSessions s) t r peerID) t r peerID s)"

text \<open>What follows the return of \<open>transport.Serve\<close> of an admitted request.\<close>

definition serve_done :: "string \<Rightarrow> ('st, 'x) Server \<Rightarrow> ('st, 'x) Server" where
  "serve_done peerID s =
     (let s = releaseConn peerID s
      in s\<lparr>srvHookState := fold (\<lambda>fn. fn peerID) (srvOnPeerDisconnect s) (srvHookState s)\<rparr>)"

definition serveWithTransport ::
  "(nat \<Rightarrow> bool) \<Rightarrow> bool \<Rightarrow> Transport \<Rightarrow> Request \<Rightarrow> ('st, 'x) Server \<Rightarrow> served \<times> ('st, 'x) Server" where
  "serveWithTransport closed upgrades t r s =
     (case authenticate (srvAuth s) (srvWebSocket s) upgrades r s of
        (Inl out, s) \<Rightarrow> (out, s)
      | (Inr peerID, s) \<Rightarrow>
          (case resolveStore r s of
             Inl _ \<Rightarrow> (Status 400, s)
           | Inr st \<Rightarrow> serveTransport closed t r peerID st s))"

definition ServeHTTP :: "(nat \<Rightarrow> bool) \<Rightarrow> bool \<Rightarrow> Request \<Rightarrow> ('st, 'x) Server \<Rightarrow> served \<times> ('st, 'x) Server" where
  "ServeHTTP closed upgrades r s =
     (case authenticate (srvAuth s) (srvWebSocket s) upgrades r s of
        (Inl out, s) \<Rightarrow> (out, s)
      | (Inr peerID, s) \<Rightarrow>
          (case resolveStore r s of
             Inl _ \<Rightarrow> (Status 400, s)
           | Inr st \<Rightarrow>
               (case find (\<lambda>t. CanHandle t r) (srvTransports s) of
                  None \<Rightarrow> (Status 400, s)
                | Some t \<Rightarrow> serveTransport closed t r peerID st s)))"

text \<open>The same pipeline of \<open>InboxServer\<close>, which has no stores to resolve.\<close>

definition inboxServeTransport ::
  "(nat \<Rightarrow> sse_sessions) \<Rightarrow> Transport \<Rightarrow> Request \<Rightarrow> string \<Rightarrow> 's InboxServer \<Rightarrow> served \<times> 's InboxServer" where
  "inboxServeTransport sessions t r peerID s =
     admit_peer (iOnPeerConnect s) (is_session sessions t r peerID) t r peerID s"

definition inboxServeWithTransport ::
  "(nat \<Rightarrow> sse_sessions) \<Rightarrow> bool \<Rightarrow> bool \<Rightarrow> Transport \<Rightarrow> Request \<Rightarrow> 's InboxServer \<Rightarrow> served \<times> 's InboxServer" where
  "inboxServeWithTransport sessions hasWS upgrades t r s =
     (case authenticate (iAuth s) hasWS upgrades r s of
        (Inl out, s) \<Rightarrow> (out, s)
      | (Inr peerID, s) \<Rightarrow> inboxServeTransport sessions t r peerID s)"

definition inboxServeHTTP ::
  "(nat \<Rightarrow> sse_sessions) \<Rightarrow> bool \<Rightarrow> bool \<Rightarrow> Transport list \<Rightarrow> Request \<Rightarrow> 's InboxServer \<Rightarrow> served \<times> 's InboxServer" where
  "inboxServeHTTP sessions hasWS upgrades transports r s =
     (case authenticate (iAuth s) hasWS upgrades r s of
        (Inl out, s) \<Rightarrow> (out, s)
      | (Inr peerID, s) \<Rightarrow>
          (case find (\<lambda>t. CanHandle t r) transports of
             None \<Rightarrow> (Status 400, s)
           | Some t \<Rightarrow> inboxServeTransport sessions t r peerID s))"

section \<open>Full sync\<close>

text \<open>\<open>serverHandler.HandleMessage\<close>: the response, and the payload that \<open>ack\<close> acknowledges.\<close>

definition srvHandleMessage ::
  "'s Store \<Rightarrow> string \<Rightarrow> Message \<Rightarrow> ('s, 'x) StoreSync \<Rightarrow> (Message \<times> SyncPayload, ('s, 'x) StoreSync) outcome" where
  "srvHandleMessage S peerID msg s =
     (let payload = (case mPayload msg of None \<Rightarrow> zeroPayload | Some p \<Rightarrow> p)
      in (case Sync S peerID (Some payload) s of
            (Inl e, s) \<Rightarrow> (Inl e, s)
          | (Inr response, s) \<Rightarrow>
              (let response = (case response of None \<Rightarrow> zeroPayload | Some p \<Rightarrow> p)
               in (Inr (\<lparr>mType = ''sync'', mPayload = Some response, mError = []\<rparr>, response), s))))"

definition srvAck :: "'s Store \<Rightarrow> string \<Rightarrow> SyncPayload \<Rightarrow> ('s, 'x) StoreSync \<Rightarrow> ('s, 'x) StoreSync" where
  "srvAck S peerID response s = snd (AckSyncOut S peerID response s)"

text \<open>\<open>notifyConn\<close>: the channel \<open>done\<close> is closed once, by a read error or by \<open>Close\<close>.\<close>

record 'c notifyConn =
  ncConn :: 'c
  ncDone :: bool

definition ncReadMessage :: "('c \<Rightarrow> (Message, 'c) outcome) \<Rightarrow> 'c notifyConn \<Rightarrow> (Message, 'c notifyConn) outcome" where
  "ncReadMessage read n =
     (case read (ncConn n) of
        (Inl e, c) \<Rightarrow> (Inl e, n\<lparr>ncConn := c, ncDone := True\<rparr>)
      | (Inr m, c) \<Rightarrow> (Inr m, n\<lparr>ncConn := c\<rparr>))"

definition ncClose :: "('c \<Rightarrow> (unit, 'c) outcome) \<Rightarrow> 'c notifyConn \<Rightarrow> (unit, 'c notifyConn) outcome" where
  "ncClose close n =
     (case close (ncConn n) of (r, c) \<Rightarrow> (r, n\<lparr>ncConn := c, ncDone := True\<rparr>))"

section \<open>Facts about the pipeline\<close>

text \<open>Nothing of the pipeline touches the slots except admission itself.\<close>

lemma wall_now_slots: "slots (snd (wall_now s)) M \<longleftrightarrow> slots s M"
  by (simp add: slots_def wall_now_def)

lemma authenticate_slots: "slots (snd (authenticate auth w u r s)) M \<longleftrightarrow> slots s M"
proof -
  obtain l s1 where c: "checkAuthRateLimit (clientIP r s) s = (l, s1)" by fastforce
  obtain now s2 where w: "wall_now s1 = (now, s2)" by fastforce
  have "slots s1 M \<longleftrightarrow> slots s M" using auth_slots(1) [of "clientIP r s" s M] by (simp add: c)
  moreover have "slots s2 M \<longleftrightarrow> slots s1 M" using wall_now_slots [of s1 M] by (simp add: w)
  ultimately show ?thesis
    by (cases "auth r now") (simp_all add: authenticate_def c w auth_slots(2))
qed

lemma authenticate_peer:
  assumes "authenticate auth w u r s = (Inr peerID, s')"
  shows "\<not> fst (checkAuthRateLimit (clientIP r s) s) \<and> (\<exists>now. auth r now = Inr peerID)"
  using assms by (auto simp: authenticate_def Let_def split: prod.splits sum.splits if_splits)

lemma authenticate_refused: "authenticate auth w u r s = (Inl out, s') \<Longrightarrow> out \<noteq> Admitted t p \<and> out \<noteq> OnSession t p"
  by (auto simp: authenticate_def Let_def split: prod.splits sum.splits if_splits)

lemma releaseConn_acquire:
  assumes "slots s M" and "acquireConn p s = (Inr (), s')"
  shows "slots (releaseConn p s') M"
  using slots_release [OF slots_acquire [OF assms], of p] by simp

lemma admit_peer_slots:
  assumes "slots s M" and "admit_peer hooks session t r p s = (out, s')"
  shows "slots s' (if out = Admitted t p then add_mset p M else M)" and "out = Admitted t' p' \<Longrightarrow> t' = t \<and> p' = p"
    and "out = OnSession t' p' \<Longrightarrow> t' = t \<and> p' = p \<and> session"
  using assms slots_acquire [OF assms(1), of p] releaseConn_acquire [OF assms(1), of p]
  by (auto simp: admit_peer_def acquireConn_def split: if_splits sum.splits prod.splits)

lemma getAdapter_slots: "slots (snd (getAdapter closed st s)) M \<longleftrightarrow> slots s M"
  by (auto simp: getAdapter_def slots_def split: option.splits)

lemma find_handles: "find (\<lambda>t. CanHandle t r) ts = Some t \<Longrightarrow> CanHandle t r \<and> t \<in> set ts"
  by (auto simp: find_Some_iff)

section \<open>Properties\<close>

text \<open>C29. Only authorised requests are served, and each holds exactly one slot: whatever the
  request, if \<open>ServeHTTP\<close> hands it to a transport then the address was not blocked, the
  authorizer accepted it as that peer, and the transport is a registered one that handles it;
  the slots then count one more connection of that peer if and only if the request was
  admitted as a new connection, and are unchanged by every refusal.\<close>

theorem ServeHTTP_authorised:
  assumes "slots s M" and "ServeHTTP closed upgrades r s = (out, s')"
  shows "(\<forall>t p. out = Admitted t p \<or> out = OnSession t p \<longrightarrow>
      \<not> fst (checkAuthRateLimit (clientIP r s) s) \<and> (\<exists>now. srvAuth s r now = Inr p) \<and>
      t \<in> set (srvTransports s) \<and> CanHandle t r) \<and>
    (\<exists>M'. slots s' M' \<and> M' = (case out of Admitted t p \<Rightarrow> add_mset p M | _ \<Rightarrow> M))"
proof -
  obtain a s1 where a: "authenticate (srvAuth s) (srvWebSocket s) upgrades r s = (a, s1)" by fastforce
  have m1: "slots s1 M" using authenticate_slots [of "srvAuth s" "srvWebSocket s" upgrades r s M] assms(1) by (simp add: a)
  have same: "srvTransports s1 = srvTransports s"
    using a by (auto simp: authenticate_def Let_def checkAuthRateLimit_def recordAuthFailure_def new_auth_failure_def wall_now_def
        split: prod.splits sum.splits if_splits option.splits)
  show ?thesis
  proof (cases a)
    case (Inl x)
    then have "out = x" "s' = s1" using assms(2) a by (auto simp: ServeHTTP_def)
    then show ?thesis using authenticate_refused [of "srvAuth s" "srvWebSocket s" upgrades r s x s1] a Inl m1 by (auto split: served.splits)
  next
    case (Inr peer)
    note au = authenticate_peer [OF a [unfolded Inr]]
    consider (bad) "out = Status 400" "s' = s1"
      | (go) st t where "find (\<lambda>t. CanHandle t r) (srvTransports s1) = Some t" "serveTransport closed t r peer st s1 = (out, s')"
      using assms(2) a Inr by (auto simp: ServeHTTP_def split: sum.splits option.splits)
    then show ?thesis
    proof cases
      case bad
      then show ?thesis using m1 by simp
    next
      case go
      obtain n s2 where g: "getAdapter closed st s1 = (n, s2)" by fastforce
      have m2: "slots s2 M" using getAdapter_slots [of closed st s1 M] m1 by (simp add: g)
      have ad: "admit_peer (srvOnPeerConnect s2) (is_session (srvSessions s2) t r peer) t r peer s2 = (out, s')"
        using go(2) by (simp add: serveTransport_def g)
      note sl = admit_peer_slots [OF m2 ad]
      have "slots s' (case out of Admitted t p \<Rightarrow> add_mset p M | _ \<Rightarrow> M)"
        using sl(1,2) by (auto split: served.splits if_splits)
      moreover have "\<not> fst (checkAuthRateLimit (clientIP r s) s) \<and> (\<exists>now. srvAuth s r now = Inr p') \<and>
          t' \<in> set (srvTransports s) \<and> CanHandle t' r" if "out = Admitted t' p' \<or> out = OnSession t' p'" for t' p'
      proof -
        have "t' = t" "p' = peer" using that sl(2) [of t' p'] sl(3) [of t' p'] by auto
        then show ?thesis using au find_handles [OF go(1)] by (simp add: same)
      qed
      ultimately show ?thesis by blast
    qed
  qed
qed

definition front :: "(unit, unit) Server" where
  "front = EnableHTTP (NewServer () (TokenAuth [''t'' \<mapsto> ''ann'']) (\<lambda>n. int n) ())"

definition poll_request :: Request where
  "poll_request = \<lparr>rqRemoteAddr = ''10.0.0.1:999'', rqMethod = ''POST'', rqPath = ''/'',
     rqHeader = (\<lambda>h. if h = ''Authorization'' then ''Bearer t'' else []), rqQuery = (\<lambda>_. []), rqUpgrade = False, rqBody = []\<rparr>"

theorem ServeHTTP_authorised_witness:
  "\<exists>s'. ServeHTTP (\<lambda>_. False) True poll_request front = (Admitted HTTPTransport ''ann'', s') \<and> slots s' {#''ann''#}"
proof -
  have m: "slots front {#}" by (simp add: slots_def front_def EnableHTTP_def AddTransport_def NewServer_def)
  have o: "fst (ServeHTTP (\<lambda>_. False) True poll_request front) = Admitted HTTPTransport ''ann''"
    by (simp add: ServeHTTP_def authenticate_def checkAuthRateLimit_def wall_now_def front_def poll_request_def EnableHTTP_def
        AddTransport_def NewServer_def TokenAuth_def lookup_token_def TrimPrefix_def resolveStore_def wsCanHandle_def httpCanHandle_def
        serveTransport_def getAdapter_def admit_peer_def is_session_def acquireConn_def conns_of_def Let_def)
  then obtain s' where "ServeHTTP (\<lambda>_. False) True poll_request front = (Admitted HTTPTransport ''ann'', s')" by (metis prod.collapse)
  with ServeHTTP_authorised [OF m this] show ?thesis by simp
qed

text \<open>Polling when there is nothing to send rewinds the peer: the handler answers a missing
  response with an empty payload whose cursor is 0, and the acknowledgement stores that
  cursor, wherever the peer's cursor was; the next exchange starts from the beginning of
  the queue again.\<close>

theorem idle_poll_resets_cursor:
  assumes "kv_store S I A" and "I (store s')"
    and "srvHandleMessage S peer msg s = (Inr (m, resp), s')" and "Items resp = []"
  shows "cursor_of (A (store (srvAck S peer resp s'))) peer = 0"
proof -
  have z: "resp = zeroPayload"
    using assms(3,4) by (auto simp: srvHandleMessage_def Sync_def Let_def split: sum.splits prod.splits option.splits if_splits)
  obtain st where "sSet S (LastSyncOutKey peer) (marshal_int64 0) (store s') = (Inr (), st)" "I st"
      "A st = (A (store s'))(LastSyncOutKey peer \<mapsto> marshal_int64 0)"
    using kv_store.set_run [OF assms(1,2)] .
  then show ?thesis
    by (simp add: srvAck_def AckSyncOut_def z zeroPayload_def call_def cursor_of_def in_i64_def)
qed

definition caught_up :: "(StoreMemory, unit) StoreSync" where
  "caught_up = blank\<lparr>store := \<lparr>data = [(LastSyncOutKey ''p'', marshal_int64 1700000000000000000)]\<rparr>\<rparr>"

theorem idle_poll_resets_cursor_witness:
  "cursor_of (mem_abs (store caught_up)) ''p'' = 1700000000000000000 \<and>
   (\<exists>m resp s'. srvHandleMessage memStore ''p'' zeroMessage caught_up = (Inr (m, resp), s') \<and>
      cursor_of (mem_abs (store (srvAck memStore ''p'' resp s'))) ''p'' = 0)"
proof
  show "cursor_of (mem_abs (store caught_up)) ''p'' = 1700000000000000000"
    by (simp add: cursor_of_def caught_up_def mem_abs_def in_i64_def)
  have noq: "memList \<lparr>Prefix = QueueKey [], StartAfter = a, Limit = l\<rparr> (store caught_up) = (Inr [], store caught_up)" for a l
    by (simp add: memList_def caught_up_def key_simps Let_def QueueKey_def LastSyncOutKey_def)
  have get: "memGet (LastSyncOutKey ''p'') (store caught_up) = (Inr (marshal_int64 1700000000000000000), store caught_up)"
    by (simp add: memGet_def caught_up_def)
  have h: "\<exists>s'. srvHandleMessage memStore ''p'' zeroMessage caught_up =
      (Inr (\<lparr>mType = ''sync'', mPayload = Some zeroPayload, mError = []\<rparr>, zeroPayload), s') \<and> store s' = store caught_up"
    using noq get
    by (simp add: srvHandleMessage_def zeroMessage_def zeroPayload_def Sync_def SyncOut_def syncOut_def call_def memStore_def
        MaxSyncOutLimit_def in_i64_def time_now_def Let_def)
  then obtain s' where s': "srvHandleMessage memStore ''p'' zeroMessage caught_up =
      (Inr (\<lparr>mType = ''sync'', mPayload = Some zeroPayload, mError = []\<rparr>, zeroPayload), s')" "store s' = store caught_up" by blast
  have "mem_inv (store s')" using s'(2) by (simp add: caught_up_def mem_inv_def)
  from idle_poll_resets_cursor [OF mem.kv_store_axioms this s'(1)] s'(1)
  show "\<exists>m resp s'. srvHandleMessage memStore ''p'' zeroMessage caught_up = (Inr (m, resp), s') \<and>
      cursor_of (mem_abs (store (srvAck memStore ''p'' resp s'))) ''p'' = 0"
    by (auto simp: zeroPayload_def)
qed

text \<open>A second event stream of a peer loses its session when the first one ends: the end of a
  stream deletes the peer's entry whoever put it there, so messages posted for the stream that
  is still open no longer reach it.\<close>

theorem second_stream_loses_session:
  "let sessions = stream_end peer (stream_open peer new (stream_open peer old []))
   in map_of (stream_open peer new (stream_open peer old [])) peer = Some new \<and>
      handlePost sessions streams peer body = None \<and> \<not> IsSessionRequest sessions r peer"
  by (simp add: stream_end_def stream_open_def handlePost_def IsSessionRequest_def)

end
