(* ===== verification/Client.thy ===== *)
theory Client
  imports Wire Outbound
begin

text \<open>
  The sync clients: \<open>Client\<close> of \<open>src/sync/client/main.go\<close>, which drives the engine over its
  connections, \<open>InboxClient\<close> of \<open>src/sync/client/inbox_client.go\<close>, and the choice of a dialer in
  \<open>src/sync/client/transport.go\<close>.

  Both structs keep the same connection bookkeeping, the record \<open>conn_manager\<close>, which the two
  client records extend; the methods that the second repeats are functions on every extension.
  The goroutines that the \<open>WaitGroup\<close> counts are the list \<open>cmTasks\<close>; a goroutine that calls
  \<open>Close\<close> and is waiting for the others has become a \<open>ClosingTask\<close>.  The network is outside:
  whether a dial or a write succeeds, and what is read, are arguments.  The variables that the
  update listener captures (the IDs being taken in, the pending notification) are the hook
  state of the engine.  Of \<open>net/url\<close> the parser and the printer are parameters.

  \<open>addConn\<close> is the composition of its three critical sections, so that interleavings between
  them can be expressed.
\<close>

section \<open>Connections\<close>

type_synonym header = "(string \<times> string list) list"

record dialInfo =
  diPeerID :: string
  diURL :: string
  diHeader :: header

record managedConn =
  mcRef :: nat
  mcPeerID :: string
  mcActive :: bool
  mcDone :: bool
  mcDialInfo :: "dialInfo option"

datatype task =
    NotifyTask
  | ReadTask nat
  | SyncTask nat
  | PushTask nat
  | HelloTask nat
  | ReconnectTask dialInfo
  | ClosingTask

record conn_manager =
  cmDialer :: nat
  cmDialers :: "(string \<times> nat) list"
  cmMaxConns :: int
  cmConns :: "managedConn list"
  cmNextRef :: nat
  cmReconnect :: bool
  cmReconnectInitial :: int
  cmReconnectMax :: int
  cmPendingReconn :: int
  cmHeaderProvider :: "(string \<Rightarrow> string \<Rightarrow> header result) option"
  cmOnConnect :: "(string \<Rightarrow> error option) list"
  cmOnDisconnect :: "(string \<Rightarrow> error \<Rightarrow> bool) list"
  cmOnConnectError :: "(string \<Rightarrow> error \<Rightarrow> bool) list"
  cmTasks :: "task list"
  cmClosed :: bool

section \<open>Options\<close>

definition WithMaxConns :: "int \<Rightarrow> 'b conn_manager_scheme \<Rightarrow> 'b conn_manager_scheme" where
  "WithMaxConns n c = c\<lparr>cmMaxConns := n\<rparr>"

definition WithReconnect :: "int \<Rightarrow> int \<Rightarrow> 'b conn_manager_scheme \<Rightarrow> 'b conn_manager_scheme" where
  "WithReconnect initialBackoff maxBackoff c =
     (let c = c\<lparr>cmReconnect := True\<rparr>;
          c = (if initialBackoff > 0 then c\<lparr>cmReconnectInitial := initialBackoff\<rparr> else c)
      in if maxBackoff > 0 then c\<lparr>cmReconnectMax := maxBackoff\<rparr> else c)"

definition WithHeaderProvider :: "(string \<Rightarrow> string \<Rightarrow> header result) \<Rightarrow> 'b conn_manager_scheme \<Rightarrow> 'b conn_manager_scheme" where
  "WithHeaderProvider fn c = c\<lparr>cmHeaderProvider := Some fn\<rparr>"

definition OnConnect :: "(string \<Rightarrow> error option) \<Rightarrow> 'b conn_manager_scheme \<Rightarrow> 'b conn_manager_scheme" where
  "OnConnect fn c = c\<lparr>cmOnConnect := cmOnConnect c @ [fn]\<rparr>"

definition OnDisconnect :: "(string \<Rightarrow> error \<Rightarrow> bool) \<Rightarrow> 'b conn_manager_scheme \<Rightarrow> 'b conn_manager_scheme" where
  "OnDisconnect fn c = c\<lparr>cmOnDisconnect := cmOnDisconnect c @ [fn]\<rparr>"

definition OnConnectError :: "(string \<Rightarrow> error \<Rightarrow> bool) \<Rightarrow> 'b conn_manager_scheme \<Rightarrow> 'b conn_manager_scheme" where
  "OnConnectError fn c = c\<lparr>cmOnConnectError := cmOnConnectError c @ [fn]\<rparr>"

definition WithDialer :: "nat \<Rightarrow> 'b conn_manager_scheme \<Rightarrow> 'b conn_manager_scheme" where
  "WithDialer d c = c\<lparr>cmDialer := d\<rparr>"

definition WithDialerForScheme :: "string \<Rightarrow> nat \<Rightarrow> 'b conn_manager_scheme \<Rightarrow> 'b conn_manager_scheme" where
  "WithDialerForScheme scheme d c = c\<lparr>cmDialers := AList.update scheme d (cmDialers c)\<rparr>"

definition schemeMapping :: "string \<rightharpoonup> string" where
  "schemeMapping = [''sse'' \<mapsto> ''http'', ''sses'' \<mapsto> ''https'']"

text \<open>\<open>parse\<close> gives the scheme of a URL, \<open>None\<close> on a parse error; \<open>rewrite\<close> prints the URL with another scheme.\<close>

definition resolveDialer ::
  "(string \<Rightarrow> string option) \<Rightarrow> (string \<Rightarrow> string \<Rightarrow> string) \<Rightarrow> string \<Rightarrow> 'b conn_manager_scheme \<Rightarrow> nat \<times> string" where
  "resolveDialer parse rewrite rawURL c =
     (if cmDialers c = [] then (cmDialer c, rawURL)
      else (case parse rawURL of
              None \<Rightarrow> (cmDialer c, rawURL)
            | Some scheme \<Rightarrow>
                (case map_of (cmDialers c) scheme of
                   None \<Rightarrow> (cmDialer c, rawURL)
                 | Some d \<Rightarrow>
                     (case schemeMapping scheme of
                        Some realScheme \<Rightarrow> (d, rewrite realScheme rawURL)
                      | None \<Rightarrow> (d, rawURL)))))"

section \<open>Life cycle\<close>

fun drop_conn :: "nat \<Rightarrow> managedConn list \<Rightarrow> managedConn list" where
  "drop_conn r [] = []"
| "drop_conn r (mc # mcs) = (if mcRef mc = r then mcs else mc # drop_conn r mcs)"

definition find_conn :: "nat \<Rightarrow> 'b conn_manager_scheme \<Rightarrow> managedConn option" where
  "find_conn r c = find (\<lambda>mc. mcRef mc = r) (cmConns c)"

text \<open>
  \<open>Close\<close> up to \<open>wg.Wait()\<close>; \<open>unsub\<close> is what the client does besides (the sync client leaves the
  listeners of its store).  The result says whether the caller goes on to wait: a second
  \<open>Close\<close> returns at once.  The wait is over when no counted goroutine is left.
\<close>

definition close_begin :: "('b conn_manager_scheme \<Rightarrow> 'b conn_manager_scheme) \<Rightarrow> 'b conn_manager_scheme \<Rightarrow> bool \<times> 'b conn_manager_scheme" where
  "close_begin unsub c =
     (if cmClosed c then (False, c)
      else (True, (unsub (c\<lparr>cmClosed := True\<rparr>))\<lparr>cmConns := map (\<lambda>mc. mc\<lparr>mcDone := True\<rparr>) (cmConns c)\<rparr>))"

definition close_returns :: "'b conn_manager_scheme \<Rightarrow> bool" where
  "close_returns c \<longleftrightarrow> cmTasks c = []"

text \<open>\<open>removeConn\<close>; the result says whether the caller is now waiting in \<open>Close\<close>.\<close>

definition removeConn :: "('b conn_manager_scheme \<Rightarrow> 'b conn_manager_scheme) \<Rightarrow> nat \<Rightarrow> 'b conn_manager_scheme \<Rightarrow> bool \<times> 'b conn_manager_scheme" where
  "removeConn unsub r c =
     (let c = c\<lparr>cmConns := drop_conn r (cmConns c)\<rparr>
      in if cmConns c = [] \<and> cmPendingReconn c = 0 then close_begin unsub c else (False, c))"

definition addConn_check_closed :: "'b conn_manager_scheme \<Rightarrow> unit result" where
  "addConn_check_closed c = (if cmClosed c then Inl (Errorf ''client is closed'') else Inr ())"

definition addConn_check_limit :: "'b conn_manager_scheme \<Rightarrow> unit result" where
  "addConn_check_limit c =
     (if int (length (cmConns c)) \<ge> cmMaxConns c
      then Inl (Errorf (''maximum connections reached ('' @ itoa (cmMaxConns c) @ '')'')) else Inr ())"

definition addConn_append ::
  "('b conn_manager_scheme \<Rightarrow> 'b conn_manager_scheme) \<Rightarrow> (nat \<Rightarrow> task) \<Rightarrow> string \<Rightarrow> bool \<Rightarrow> dialInfo option \<Rightarrow> 'b conn_manager_scheme \<Rightarrow> (nat, 'b conn_manager_scheme) outcome" where
  "addConn_append unsub greet peerID active di c =
     (let r = cmNextRef c;
          mc = \<lparr>mcRef = r, mcPeerID = peerID, mcActive = active, mcDone = False, mcDialInfo = di\<rparr>;
          c = c\<lparr>cmConns := cmConns c @ [mc], cmNextRef := Suc r\<rparr>
      in (case List.map_filter (\<lambda>fn. fn peerID) (cmOnConnect c) of
            e # _ \<Rightarrow> (Inl (Wrap ''onConnect rejected'' e), snd (removeConn unsub r c))
          | [] \<Rightarrow> (Inr r, c\<lparr>cmTasks := cmTasks c @ [ReadTask r, greet r]\<rparr>)))"

definition addConn ::
  "('b conn_manager_scheme \<Rightarrow> 'b conn_manager_scheme) \<Rightarrow> (nat \<Rightarrow> task) \<Rightarrow> string \<Rightarrow> bool \<Rightarrow> dialInfo option \<Rightarrow> 'b conn_manager_scheme \<Rightarrow> (nat, 'b conn_manager_scheme) outcome" where
  "addConn unsub greet peerID active di c =
     (case addConn_check_closed c of
        Inl e \<Rightarrow> (Inl e, c)
      | Inr _ \<Rightarrow>
          (case addConn_check_limit c of
             Inl e \<Rightarrow> (Inl e, c)
           | Inr _ \<Rightarrow> addConn_append unsub greet peerID active di c))"

text \<open>\<open>Connect\<close>: \<open>dial\<close> is the outcome of the chosen dialer on a peer, a URL and headers.\<close>

definition Connect ::
  "(nat \<Rightarrow> string \<Rightarrow> string \<Rightarrow> header \<Rightarrow> unit result) \<Rightarrow> (string \<Rightarrow> string option) \<Rightarrow> (string \<Rightarrow> string \<Rightarrow> string) \<Rightarrow>
     ('b conn_manager_scheme \<Rightarrow> 'b conn_manager_scheme) \<Rightarrow> (nat \<Rightarrow> task) \<Rightarrow> string \<Rightarrow> string \<Rightarrow> header \<Rightarrow> 'b conn_manager_scheme \<Rightarrow> (nat, 'b conn_manager_scheme) outcome" where
  "Connect dial parse rewrite unsub greet peerID url hdr c =
     (case (case cmHeaderProvider c of None \<Rightarrow> Inr hdr | Some p \<Rightarrow> p peerID url) of
        Inl e \<Rightarrow> (Inl (Wrap ''header provider'' e), c)
      | Inr hdr \<Rightarrow>
          (case resolveDialer parse rewrite url c of (d, dialURL) \<Rightarrow>
             (case dial d peerID dialURL hdr of
                Inl e \<Rightarrow> (Inl e, c)
              | Inr _ \<Rightarrow>
                  addConn unsub greet peerID True
                    (if cmReconnect c then Some \<lparr>diPeerID = peerID, diURL = url, diHeader = hdr\<rparr> else None) c)))"

definition AddConnection :: "('b conn_manager_scheme \<Rightarrow> 'b conn_manager_scheme) \<Rightarrow> string \<Rightarrow> 'b conn_manager_scheme \<Rightarrow> (nat, 'b conn_manager_scheme) outcome" where
  "AddConnection unsub peerID c = addConn unsub SyncTask peerID False None c"

text \<open>The goroutine \<open>t\<close> ends, or turns into one that waits in \<open>Close\<close>.\<close>

definition end_task :: "task \<Rightarrow> bool \<Rightarrow> 'b conn_manager_scheme \<Rightarrow> 'b conn_manager_scheme" where
  "end_task t waiting c = c\<lparr>cmTasks := remove1 t (cmTasks c) @ (if waiting then [ClosingTask] else [])\<rparr>"

text \<open>The deferred function of \<open>readLoop\<close>, after a read failed with \<open>e\<close>.\<close>

definition readLoop_exit :: "('b conn_manager_scheme \<Rightarrow> 'b conn_manager_scheme) \<Rightarrow> managedConn \<Rightarrow> error \<Rightarrow> 'b conn_manager_scheme \<Rightarrow> 'b conn_manager_scheme" where
  "readLoop_exit unsub mc e c =
     (let unexpectedDrop = (\<not> cmClosed c \<and> \<not> mcDone mc);
          allowReconnect = (unexpectedDrop \<longrightarrow> (\<forall>fn \<in> set (cmOnDisconnect c). fn (mcPeerID mc) e));
          shouldReconnect = (unexpectedDrop \<and> mcDialInfo mc \<noteq> None \<and> allowReconnect);
          c = (if shouldReconnect then c\<lparr>cmPendingReconn := cmPendingReconn c + 1\<rparr> else c)
      in (case removeConn unsub (mcRef mc) c of (waiting, c) \<Rightarrow>
            let c = end_task (ReadTask (mcRef mc)) waiting c
            in if shouldReconnect then c\<lparr>cmTasks := cmTasks c @ [ReconnectTask (the (mcDialInfo mc))]\<rparr> else c))"

section \<open>Reconnecting\<close>

text \<open>
  The delay before attempt \<open>n + 1\<close>.  The product of a \<open>float64\<close> with a power of two is exact;
  converting a value out of range to \<open>int64\<close> gives what the platform gives, \<open>oob\<close>.
\<close>

definition next_backoff :: "int \<Rightarrow> int \<Rightarrow> int \<Rightarrow> nat \<Rightarrow> int" where
  "next_backoff oob initial maximum attempt =
     (let x = initial * 2 ^ attempt; backoff = (if in_i64 x then x else oob)
      in if backoff > maximum then maximum else backoff)"

text \<open>The deferred function of \<open>reconnectLoop\<close>.\<close>

definition reconnect_exit :: "('b conn_manager_scheme \<Rightarrow> 'b conn_manager_scheme) \<Rightarrow> dialInfo \<Rightarrow> 'b conn_manager_scheme \<Rightarrow> 'b conn_manager_scheme" where
  "reconnect_exit unsub di c =
     (let c = c\<lparr>cmPendingReconn := cmPendingReconn c - 1\<rparr>
      in (case (if cmConns c = [] \<and> cmPendingReconn c = 0 then close_begin unsub c else (False, c)) of (waiting, c) \<Rightarrow>
            end_task (ReconnectTask di) waiting c))"

datatype reconnect_turn = Finished | Retry

text \<open>One turn of \<open>reconnectLoop\<close> up to the delay.\<close>

definition reconnect_once ::
  "(nat \<Rightarrow> string \<Rightarrow> string \<Rightarrow> header \<Rightarrow> unit result) \<Rightarrow> (string \<Rightarrow> string option) \<Rightarrow> (string \<Rightarrow> string \<Rightarrow> string) \<Rightarrow>
     ('b conn_manager_scheme \<Rightarrow> 'b conn_manager_scheme) \<Rightarrow> (nat \<Rightarrow> task) \<Rightarrow> dialInfo \<Rightarrow> 'b conn_manager_scheme \<Rightarrow> reconnect_turn \<times> 'b conn_manager_scheme" where
  "reconnect_once dial parse rewrite unsub greet di c =
     (if cmClosed c then (Finished, reconnect_exit unsub di c)
      else
        (let provided = (case cmHeaderProvider c of None \<Rightarrow> Inr (diHeader di) | Some p \<Rightarrow> p (diPeerID di) (diURL di));
             giveUp = (case provided of Inl e \<Rightarrow> \<not> (\<forall>fn \<in> set (cmOnConnectError c). fn (diPeerID di) e) | Inr _ \<Rightarrow> False);
             hdr = (case provided of Inl _ \<Rightarrow> diHeader di | Inr h \<Rightarrow> h)
         in if giveUp then (Finished, reconnect_exit unsub di c)
            else (case resolveDialer parse rewrite (diURL di) c of (d, dialURL) \<Rightarrow>
                  (case dial d (diPeerID di) dialURL hdr of
                     Inl e \<Rightarrow>
                       if \<forall>fn \<in> set (cmOnConnectError c). fn (diPeerID di) e then (Retry, c)
                       else (Finished, reconnect_exit unsub di c)
                   | Inr _ \<Rightarrow> (Finished, reconnect_exit unsub di (snd (addConn unsub greet (diPeerID di) True (Some di) c)))))))"

text \<open>The loop, over the outcomes of its dials; the result lists the delays it slept.\<close>

fun reconnectLoop ::
  "(nat \<Rightarrow> string \<Rightarrow> string \<Rightarrow> header \<Rightarrow> unit result) list \<Rightarrow> (string \<Rightarrow> string option) \<Rightarrow> (string \<Rightarrow> string \<Rightarrow> string) \<Rightarrow>
     int \<Rightarrow> ('b conn_manager_scheme \<Rightarrow> 'b conn_manager_scheme) \<Rightarrow> (nat \<Rightarrow> task) \<Rightarrow> dialInfo \<Rightarrow> nat \<Rightarrow> int \<Rightarrow> 'b conn_manager_scheme \<Rightarrow> int list \<times> 'b conn_manager_scheme" where
  "reconnectLoop [] parse rewrite oob unsub greet di attempt backoff c = ([], c)"
| "reconnectLoop (dial # dials) parse rewrite oob unsub greet di attempt backoff c =
     (case reconnect_once dial parse rewrite unsub greet di c of
        (Finished, c) \<Rightarrow> ([], c)
      | (Retry, c) \<Rightarrow>
          (case reconnectLoop dials parse rewrite oob unsub greet di (Suc attempt)
                  (next_backoff oob (cmReconnectInitial c) (cmReconnectMax c) (Suc attempt)) c of
             (ds, c) \<Rightarrow> (backoff # ds, c)))"

section \<open>The sync client\<close>

record listener_state =
  lsSyncIn :: "string list"
  lsNotify :: bool

record 's Client = conn_manager +
  cliStore :: "('s, listener_state) StoreSync"
  cliUnsub :: nat

text \<open>The callback that \<open>New\<close> registers: no notification for an ID that is being taken in.\<close>

definition on_local_update :: "listener_state UpdateListener" where
  "on_local_update item h = (if ID item \<in> set (lsSyncIn h) then h else h\<lparr>lsNotify := True\<rparr>)"

definition new_manager :: conn_manager where
  "new_manager = \<lparr>cmDialer = 0, cmDialers = [], cmMaxConns = 100, cmConns = [], cmNextRef = 0, cmReconnect = False,
     cmReconnectInitial = 1000000000, cmReconnectMax = 30000000000, cmPendingReconn = 0, cmHeaderProvider = None,
     cmOnConnect = [], cmOnDisconnect = [], cmOnConnectError = [], cmTasks = [], cmClosed = False\<rparr>"

definition NewClient :: "('s, listener_state) StoreSync \<Rightarrow> ('s Client \<Rightarrow> 's Client) list \<Rightarrow> 's Client" where
  "NewClient ss opts =
     (let c = fold (\<lambda>opt c. opt c) opts (conn_manager.extend new_manager \<lparr>cliStore = ss, cliUnsub = 0\<rparr>);
          c = c\<lparr>cmTasks := cmTasks c @ [NotifyTask]\<rparr>
      in (case OnUpdate on_local_update (cliStore c) of (n, ss) \<Rightarrow> c\<lparr>cliStore := ss, cliUnsub := n\<rparr>))"

text \<open>\<open>ok\<close>: the write to the connection succeeds.  The result is what was written.\<close>

definition initiateSync :: "'s Store \<Rightarrow> managedConn \<Rightarrow> bool \<Rightarrow> 's Client \<Rightarrow> Message option \<times> 's Client" where
  "initiateSync S mc ok c =
     (case Sync S (mcPeerID mc) None (cliStore c) of
        (Inl e, ss) \<Rightarrow> (None, c\<lparr>cliStore := ss\<rparr>)
      | (Inr None, ss) \<Rightarrow> (None, c\<lparr>cliStore := ss\<rparr>)
      | (Inr (Some payload), ss) \<Rightarrow>
          if ok then (Some \<lparr>mType = ''sync'', mPayload = Some payload, mError = []\<rparr>,
                      c\<lparr>cliStore := snd (AckSyncOut S (mcPeerID mc) payload ss)\<rparr>)
          else (None, c\<lparr>cliStore := ss\<rparr>))"

fun push_conns :: "'s Store \<Rightarrow> (nat \<Rightarrow> bool) \<Rightarrow> managedConn list \<Rightarrow> 's Client \<Rightarrow> (nat \<times> Message) list \<times> 's Client" where
  "push_conns S ok [] c = ([], c)"
| "push_conns S ok (mc # mcs) c =
     (case initiateSync S mc (ok (mcRef mc)) c of (w, c) \<Rightarrow>
      (case push_conns S ok mcs c of (ws, c) \<Rightarrow>
         ((case w of None \<Rightarrow> [] | Some m \<Rightarrow> [(mcRef mc, m)]) @ ws, c)))"

definition pushToAll ::
  "'s Store \<Rightarrow> (nat \<Rightarrow> bool) \<Rightarrow> nat option \<Rightarrow> 's Client \<Rightarrow> (nat \<times> Message) list \<times> 's Client" where
  "pushToAll S ok sender c = push_conns S ok (filter (\<lambda>mc. Some (mcRef mc) \<noteq> sender) (cmConns c)) c"

text \<open>One turn of \<open>notifyLoop\<close>: all pending notifications become one push.\<close>

definition notify_turn :: "'s Store \<Rightarrow> (nat \<Rightarrow> bool) \<Rightarrow> 's Client \<Rightarrow> (nat \<times> Message) list \<times> 's Client" where
  "notify_turn S ok c =
     (if cmClosed c \<or> \<not> lsNotify (hookState (cliStore c)) then ([], c)
      else pushToAll S ok None
             (c\<lparr>cliStore := (cliStore c)\<lparr>hookState := (hookState (cliStore c))\<lparr>lsNotify := False\<rparr>\<rparr>\<rparr>))"

definition track_ids :: "string list \<Rightarrow> ('s, listener_state) StoreSync \<Rightarrow> ('s, listener_state) StoreSync" where
  "track_ids ids ss = ss\<lparr>hookState := (hookState ss)\<lparr>lsSyncIn := ids @ lsSyncIn (hookState ss)\<rparr>\<rparr>"

definition untrack_ids :: "string list \<Rightarrow> ('s, listener_state) StoreSync \<Rightarrow> ('s, listener_state) StoreSync" where
  "untrack_ids ids ss =
     ss\<lparr>hookState := (hookState ss)\<lparr>lsSyncIn := filter (\<lambda>x. x \<notin> set ids) (lsSyncIn (hookState ss))\<rparr>\<rparr>"

text \<open>The body of \<open>readLoop\<close> for one message: what is written back, and the state.\<close>

definition read_message :: "'s Store \<Rightarrow> managedConn \<Rightarrow> Message \<Rightarrow> bool \<Rightarrow> 's Client \<Rightarrow> Message option \<times> 's Client" where
  "read_message S mc msg ok c =
     (if mType msg = ''sync'' then
        (case mPayload msg of
           None \<Rightarrow> (None, c)
         | Some p \<Rightarrow>
             (let ids = map ID (Items p)
              in (case Sync S (mcPeerID mc) (Some p) (track_ids ids (cliStore c)) of
                    (Inl e, ss) \<Rightarrow>
                      (if ok then Some \<lparr>mType = ''error'', mPayload = None, mError = ''internal error''\<rparr> else None,
                       c\<lparr>cliStore := untrack_ids ids ss\<rparr>)
                  | (Inr response, ss) \<Rightarrow>
                      (let c = c\<lparr>cliStore := untrack_ids ids ss\<rparr>;
                           c = (if Items p \<noteq> [] then c\<lparr>cmTasks := cmTasks c @ [PushTask (mcRef mc)]\<rparr> else c)
                       in (case response of
                             None \<Rightarrow> (None, c)
                           | Some resp \<Rightarrow>
                               if ok then (Some \<lparr>mType = ''sync'', mPayload = Some resp, mError = []\<rparr>,
                                           c\<lparr>cliStore := snd (AckSyncOut S (mcPeerID mc) resp (cliStore c))\<rparr>)
                               else (None, c))))))
      else if mType msg = ''sync_update'' then (None, c\<lparr>cmTasks := cmTasks c @ [SyncTask (mcRef mc)]\<rparr>)
      else (None, c))"

definition cli_unsub :: "'s Client \<Rightarrow> 's Client" where
  "cli_unsub c = c\<lparr>cliStore := unsubscribe (cliUnsub c) (cliStore c)\<rparr>"

definition CloseClient :: "'s Client \<Rightarrow> bool \<times> 's Client" where
  "CloseClient c = close_begin cli_unsub c"

section \<open>The inbox client\<close>

record 'y InboxClient = conn_manager +
  icOnReceive :: "(string \<Rightarrow> SyncStoreItem list \<Rightarrow> 'y \<Rightarrow> 'y) option"
  icState :: 'y

text \<open>Its options do the same as those of \<open>Client\<close>.\<close>

definition WithInboxMaxConns :: "int \<Rightarrow> 'y InboxClient \<Rightarrow> 'y InboxClient" where
  "WithInboxMaxConns = WithMaxConns"

definition WithInboxDialer :: "nat \<Rightarrow> 'y InboxClient \<Rightarrow> 'y InboxClient" where
  "WithInboxDialer = WithDialer"

definition WithInboxDialerForScheme :: "string \<Rightarrow> nat \<Rightarrow> 'y InboxClient \<Rightarrow> 'y InboxClient" where
  "WithInboxDialerForScheme = WithDialerForScheme"

definition WithInboxReconnect :: "int \<Rightarrow> int \<Rightarrow> 'y InboxClient \<Rightarrow> 'y InboxClient" where
  "WithInboxReconnect = WithReconnect"

definition WithInboxHeaderProvider :: "(string \<Rightarrow> string \<Rightarrow> header result) \<Rightarrow> 'y InboxClient \<Rightarrow> 'y InboxClient" where
  "WithInboxHeaderProvider = WithHeaderProvider"

definition OnInboxConnect :: "(string \<Rightarrow> error option) \<Rightarrow> 'y InboxClient \<Rightarrow> 'y InboxClient" where
  "OnInboxConnect = OnConnect"

definition OnInboxDisconnect :: "(string \<Rightarrow> error \<Rightarrow> bool) \<Rightarrow> 'y InboxClient \<Rightarrow> 'y InboxClient" where
  "OnInboxDisconnect = OnDisconnect"

definition OnInboxConnectError :: "(string \<Rightarrow> error \<Rightarrow> bool) \<Rightarrow> 'y InboxClient \<Rightarrow> 'y InboxClient" where
  "OnInboxConnectError = OnConnectError"

definition NewInboxClient ::
  "(string \<Rightarrow> SyncStoreItem list \<Rightarrow> 'y \<Rightarrow> 'y) option \<Rightarrow> 'y \<Rightarrow> ('y InboxClient \<Rightarrow> 'y InboxClient) list \<Rightarrow> 'y InboxClient" where
  "NewInboxClient onReceive y opts =
     fold (\<lambda>opt c. opt c) opts (conn_manager.extend new_manager \<lparr>icOnReceive = onReceive, icState = y\<rparr>)"

definition icConnect ::
  "(nat \<Rightarrow> string \<Rightarrow> string \<Rightarrow> header \<Rightarrow> unit result) \<Rightarrow> (string \<Rightarrow> string option) \<Rightarrow> (string \<Rightarrow> string \<Rightarrow> string) \<Rightarrow>
     string \<Rightarrow> string \<Rightarrow> header \<Rightarrow> 'y InboxClient \<Rightarrow> (nat, 'y InboxClient) outcome" where
  "icConnect dial parse rewrite peerID url hdr c = Connect dial parse rewrite (\<lambda>c. c) HelloTask peerID url hdr c"

definition icAddConn :: "string \<Rightarrow> dialInfo option \<Rightarrow> 'y InboxClient \<Rightarrow> (nat, 'y InboxClient) outcome" where
  "icAddConn peerID di c = addConn (\<lambda>c. c) HelloTask peerID True di c"

definition icRemoveConn :: "nat \<Rightarrow> 'y InboxClient \<Rightarrow> bool \<times> 'y InboxClient" where
  "icRemoveConn r c = removeConn (\<lambda>c. c) r c"

definition icClose :: "'y InboxClient \<Rightarrow> bool \<times> 'y InboxClient" where
  "icClose c = close_begin (\<lambda>c. c) c"

definition icResolveDialer ::
  "(string \<Rightarrow> string option) \<Rightarrow> (string \<Rightarrow> string \<Rightarrow> string) \<Rightarrow> string \<Rightarrow> 'y InboxClient \<Rightarrow> nat \<times> string" where
  "icResolveDialer parse rewrite rawURL c = resolveDialer parse rewrite rawURL c"

definition icReconnectLoop ::
  "(nat \<Rightarrow> string \<Rightarrow> string \<Rightarrow> header \<Rightarrow> unit result) list \<Rightarrow> (string \<Rightarrow> string option) \<Rightarrow> (string \<Rightarrow> string \<Rightarrow> string) \<Rightarrow>
     int \<Rightarrow> dialInfo \<Rightarrow> 'y InboxClient \<Rightarrow> int list \<times> 'y InboxClient" where
  "icReconnectLoop dials parse rewrite oob di c =
     reconnectLoop dials parse rewrite oob (\<lambda>c. c) HelloTask di 0 (cmReconnectInitial c) c"

text \<open>\<open>Send\<close>: every connection is tried; the first error is returned.\<close>

definition icSend :: "(nat \<Rightarrow> error option) \<Rightarrow> SyncStoreItem list \<Rightarrow> 'y InboxClient \<Rightarrow> unit result \<times> (nat \<times> Message) list" where
  "icSend write items c =
     (let msg = \<lparr>mType = ''sync'', mPayload = Some \<lparr>Items = items, LastSyncTimestamp = 0\<rparr>, mError = []\<rparr>;
          refs = map mcRef (cmConns c)
      in (case List.map_filter write refs of [] \<Rightarrow> Inr () | e # _ \<Rightarrow> Inl e,
          map (\<lambda>r. (r, msg)) (filter (\<lambda>r. write r = None) refs)))"

text \<open>The body of its \<open>readLoop\<close> for one message.\<close>

definition icRead_message :: "managedConn \<Rightarrow> Message \<Rightarrow> 'y InboxClient \<Rightarrow> 'y InboxClient" where
  "icRead_message mc msg c =
     (case (mPayload msg, icOnReceive c) of
        (Some p, Some fn) \<Rightarrow>
          if mType msg = ''sync'' \<and> Items p \<noteq> [] then c\<lparr>icState := fn (mcPeerID mc) (Items p) (icState c)\<rparr> else c
      | _ \<Rightarrow> c)"

definition icReadLoop_exit :: "managedConn \<Rightarrow> error \<Rightarrow> 'y InboxClient \<Rightarrow> 'y InboxClient" where
  "icReadLoop_exit mc e c = readLoop_exit (\<lambda>c. c) mc e c"

section \<open>The goroutine that closes the client\<close>

text \<open>
  How the counted goroutines of a client evolve: they end, start others, or run the code above;
  one that waits in \<open>Close\<close> goes on only when none is counted any more.
\<close>

inductive cli_run :: "('b conn_manager_scheme \<Rightarrow> 'b conn_manager_scheme) \<Rightarrow> 'b conn_manager_scheme \<Rightarrow> 'b conn_manager_scheme \<Rightarrow> bool"
  for unsub c where
  refl: "cli_run unsub c c"
| finish: "cli_run unsub c d \<Longrightarrow> t \<noteq> ClosingTask \<Longrightarrow> cli_run unsub c (end_task t False d)"
| spawn: "cli_run unsub c d \<Longrightarrow> cli_run unsub c (d\<lparr>cmTasks := cmTasks d @ [t]\<rparr>)"
| dropped: "cli_run unsub c d \<Longrightarrow> cli_run unsub c (readLoop_exit unsub mc e d)"
| redial: "cli_run unsub c d \<Longrightarrow> cli_run unsub c (snd (reconnect_once dial parse rewrite unsub greet di d))"
| added: "cli_run unsub c d \<Longrightarrow> cli_run unsub c (snd (addConn unsub greet peerID active di' d))"
| closed: "cli_run unsub c d \<Longrightarrow> cli_run unsub c (snd (close_begin unsub d))"
| wake: "cli_run unsub c d \<Longrightarrow> close_returns d \<Longrightarrow> cli_run unsub c (end_task ClosingTask False d)"

definition keeps_tasks :: "('b conn_manager_scheme \<Rightarrow> 'b conn_manager_scheme) \<Rightarrow> bool" where
  "keeps_tasks unsub \<longleftrightarrow> (\<forall>c. cmTasks (unsub c) = cmTasks c)"

lemma close_begin_tasks: "keeps_tasks unsub \<Longrightarrow> cmTasks (snd (close_begin unsub c)) = cmTasks c"
  by (simp add: close_begin_def keeps_tasks_def)

lemma removeConn_tasks: "keeps_tasks unsub \<Longrightarrow> cmTasks (snd (removeConn unsub r c)) = cmTasks c"
  by (simp add: removeConn_def close_begin_tasks Let_def)

lemma end_task_closing: "t \<noteq> ClosingTask \<Longrightarrow> ClosingTask \<in> set (cmTasks (end_task t w c)) \<longleftrightarrow> w \<or> ClosingTask \<in> set (cmTasks c)"
  by (auto simp: end_task_def in_set_remove1)

text \<open>The tasks after the exit of a read loop, in terms of what \<open>removeConn\<close> answers.\<close>

lemma readLoop_exit_tasks:
  assumes "keeps_tasks unsub"
  obtains w rest where "cmTasks (readLoop_exit unsub mc e c) = cmTasks (end_task (ReadTask (mcRef mc)) w c) @ rest"
    and "\<not> cmClosed c \<Longrightarrow> cmConns c = [mc] \<Longrightarrow> cmPendingReconn c = 0 \<Longrightarrow> mcDialInfo mc = None \<Longrightarrow> w"
proof -
  define up where "up \<longleftrightarrow> \<not> cmClosed c \<and> \<not> mcDone mc"
  define again where "again \<longleftrightarrow> up \<and> mcDialInfo mc \<noteq> None \<and> (up \<longrightarrow> (\<forall>fn \<in> set (cmOnDisconnect c). fn (mcPeerID mc) e))"
  define c1 where "c1 = (if again then c\<lparr>cmPendingReconn := cmPendingReconn c + 1\<rparr> else c)"
  obtain w c2 where rm: "removeConn unsub (mcRef mc) c1 = (w, c2)" by fastforce
  have t1: "cmTasks c1 = cmTasks c" by (simp add: c1_def)
  have t2: "cmTasks c2 = cmTasks c" using removeConn_tasks [OF assms, of "mcRef mc" c1] rm t1 by simp
  have "readLoop_exit unsub mc e c = (let c' = end_task (ReadTask (mcRef mc)) w c2
      in if again then c'\<lparr>cmTasks := cmTasks c' @ [ReconnectTask (the (mcDialInfo mc))]\<rparr> else c')"
    unfolding readLoop_exit_def Let_def up_def [symmetric] again_def [symmetric] c1_def [symmetric] rm by simp
  then have "cmTasks (readLoop_exit unsub mc e c) = cmTasks (end_task (ReadTask (mcRef mc)) w c) @
      (if again then [ReconnectTask (the (mcDialInfo mc))] else [])"
    by (simp add: Let_def end_task_def t2)
  moreover have w if "\<not> cmClosed c" "cmConns c = [mc]" "cmPendingReconn c = 0" "mcDialInfo mc = None"
  proof -
    have "c1 = c" using that(4) by (simp add: c1_def again_def)
    then show ?thesis using rm that(1-3) by (auto simp: removeConn_def close_begin_def)
  qed
  ultimately show thesis by (rule that)
qed

lemma readLoop_exit_closing:
  assumes "keeps_tasks unsub" and "ClosingTask \<in> set (cmTasks c)"
  shows "ClosingTask \<in> set (cmTasks (readLoop_exit unsub mc e c))"
  by (rule readLoop_exit_tasks [OF assms(1), of mc e c]) (use assms(2) in \<open>simp add: end_task_closing\<close>)

lemma addConn_closing:
  assumes "keeps_tasks unsub" and "ClosingTask \<in> set (cmTasks c)"
  shows "ClosingTask \<in> set (cmTasks (snd (addConn unsub greet p a di c)))"
  using assms
  by (simp add: addConn_def addConn_append_def removeConn_tasks Let_def split: sum.splits list.splits)

lemma reconnect_exit_closing:
  assumes "keeps_tasks unsub" and "ClosingTask \<in> set (cmTasks c)"
  shows "ClosingTask \<in> set (cmTasks (reconnect_exit unsub di c))"
proof -
  define c1 where "c1 = c\<lparr>cmPendingReconn := cmPendingReconn c - 1\<rparr>"
  obtain w c2 where r: "(if cmConns c1 = [] \<and> cmPendingReconn c1 = 0 then close_begin unsub c1 else (False, c1)) = (w, c2)" by fastforce
  have "cmTasks c2 = cmTasks c" using r close_begin_tasks [OF assms(1), of c1] by (auto simp: c1_def split: if_splits)
  moreover have "reconnect_exit unsub di c = end_task (ReconnectTask di) w c2"
    unfolding reconnect_exit_def Let_def c1_def [symmetric] r by simp
  ultimately show ?thesis using assms(2) by (simp add: end_task_closing)
qed

lemma reconnect_once_closing:
  assumes "keeps_tasks unsub" and "ClosingTask \<in> set (cmTasks c)"
  shows "ClosingTask \<in> set (cmTasks (snd (reconnect_once dial parse rewrite unsub greet di c)))"
proof -
  have "\<exists>x. snd (reconnect_once dial parse rewrite unsub greet di c) = c \<or>
      snd (reconnect_once dial parse rewrite unsub greet di c) = reconnect_exit unsub di c \<or>
      snd (reconnect_once dial parse rewrite unsub greet di c) = reconnect_exit unsub di (snd (addConn unsub greet x True (Some di) c))"
    by (auto simp: reconnect_once_def Let_def split: sum.splits prod.splits)
  then show ?thesis
    using assms reconnect_exit_closing [OF assms(1)] addConn_closing [OF assms] by auto
qed

lemma closing_stays:
  assumes "cli_run unsub c d" and "keeps_tasks unsub" and "ClosingTask \<in> set (cmTasks c)"
  shows "ClosingTask \<in> set (cmTasks d)"
  using assms(1)
proof (induction rule: cli_run.induct)
  case (wake d)
  then show ?case by (auto simp: close_returns_def)
qed (use assms(2,3) in \<open>auto simp: end_task_closing close_begin_tasks
    intro: readLoop_exit_closing reconnect_once_closing addConn_closing\<close>)

section \<open>Properties\<close>

text \<open>A client that closes itself never finishes: when its last connection drops and is not to
  be redialled, the read goroutine calls \<open>Close\<close>, which waits for all goroutines, itself
  included.  However the others run on, the wait does not end.\<close>

theorem auto_close_hangs:
  assumes "keeps_tasks unsub" and "\<not> cmClosed c" and "cmConns c = [mc]" and "cmPendingReconn c = 0"
    and "mcDialInfo mc = None" and "cli_run unsub (readLoop_exit unsub mc e c) d"
  shows "\<not> close_returns d"
proof -
  have "ClosingTask \<in> set (cmTasks (readLoop_exit unsub mc e c))"
    by (rule readLoop_exit_tasks [OF assms(1), of mc e c]) (use assms(2-5) in \<open>simp add: end_task_closing\<close>)
  from closing_stays [OF assms(6,1) this] show ?thesis by (auto simp: close_returns_def)
qed

definition lone_conn :: managedConn where
  "lone_conn = \<lparr>mcRef = 0, mcPeerID = ''p'', mcActive = False, mcDone = False, mcDialInfo = None\<rparr>"

definition lone_client :: conn_manager where
  "lone_client = new_manager\<lparr>cmConns := [lone_conn], cmTasks := [NotifyTask, ReadTask 0]\<rparr>"

theorem auto_close_hangs_witness:
  "\<not> close_returns (end_task NotifyTask False (readLoop_exit (\<lambda>c. c) lone_conn (Errorf ''EOF'') lone_client))"
  by (rule auto_close_hangs [where unsub = "\<lambda>c. c" and c = lone_client and mc = lone_conn and e = "Errorf ''EOF''"])
    (auto simp: keeps_tasks_def lone_client_def lone_conn_def new_manager_def intro: cli_run.intros)

text \<open>The reconnect delay is bounded: while the doubled delay fits 64 bits, it lies between the
  initial delay and the maximum, and never shrinks from one attempt to the next.\<close>

theorem next_backoff_bounds:
  assumes "0 < initial" and "initial \<le> maximum" and "in_i64 (initial * 2 ^ Suc n)"
  shows "initial \<le> next_backoff oob initial maximum (Suc n) \<and> next_backoff oob initial maximum (Suc n) \<le> maximum \<and>
    next_backoff oob initial maximum n \<le> next_backoff oob initial maximum (Suc n)"
proof -
  have pos: "0 < initial * 2 ^ n" using assms(1) by simp
  have "in_i64 (initial * 2 ^ n)" using assms(3) pos by (simp add: in_i64_def)
  moreover have "initial * 1 \<le> initial * 2 ^ Suc n" using assms(1) one_le_power [of "2::int" "Suc n"] by (intro mult_left_mono) auto
  moreover have "initial * 2 ^ n \<le> initial * 2 ^ Suc n" using pos by simp
  ultimately show ?thesis using assms by (simp add: next_backoff_def Let_def)
qed

theorem next_backoff_bounds_witness:
  "next_backoff 0 1000000000 30000000000 4 = 16000000000 \<and> 1000000000 \<le> next_backoff 0 1000000000 30000000000 5 \<and>
   next_backoff 0 1000000000 30000000000 5 \<le> 30000000000"
  using next_backoff_bounds [of 1000000000 30000000000 4 0] by (simp add: next_backoff_def in_i64_def)

text \<open>
  Past that range the delay is what the platform makes of the conversion.  With the default
  settings the 34th failed attempt overflows; where the conversion gives the smallest
  integer, as on amd64, the delay becomes negative, which \<open>time.After\<close> does not wait for.
\<close>

theorem backoff_overflow:
  "next_backoff (- (2 ^ 63)) 1000000000 30000000000 34 = - (2 ^ 63)"
  by (simp add: next_backoff_def in_i64_def)

text \<open>
  The limit on connections is checked in one critical section and the connection appended in
  another: two calls that both check first exceed the limit.
\<close>

theorem max_conns_race:
  "let c = new_manager\<lparr>cmMaxConns := 1\<rparr>
   in addConn_check_limit c = Inr () \<and>
      length (cmConns (snd (addConn_append (\<lambda>c. c) SyncTask ''b'' True None (snd (addConn_append (\<lambda>c. c) SyncTask ''a'' True None c))))) = 2"
  by (simp add: addConn_check_limit_def addConn_append_def new_manager_def Let_def List.map_filter_simps)

section \<open>Cursors move only after a write\<close>

lemma Sync_none_spec:
  assumes "kv_store S I A" and "I (store ss)" and "decodable (A (store ss))" and "cursor_wf (A (store ss)) peer"
    and "Sync S peer None ss = (r, ss')"
  shows "I (store ss')" and "A (store ss') = A (store ss)" and "postSyncOuts ss' = postSyncOuts ss"
    and "r = Inr (Some p) \<Longrightarrow> Items p \<noteq> []"
proof -
  obtain t where t: "SyncOut S peer MaxSyncOutLimit ss = (Inr (payload_of ss (A (store ss)) (cursor_of (A (store ss)) peer)
      (effective_limit MaxSyncOutLimit) peer), t)" "evolves I A (A (store ss)) ss t"
    by (rule kv_store.SyncOut_spec [OF assms(1,2,3,4)])
  have s': "store ss' = store t" "postSyncOuts ss' = postSyncOuts t"
    using assms(5) t(1) by (auto simp: Sync_def Let_def)
  show "I (store ss')" "A (store ss') = A (store ss)" "postSyncOuts ss' = postSyncOuts ss"
    using s' evolves_store [OF t(2)] evolves_config(7) [OF t(2)] by simp_all
  show "r = Inr (Some p) \<Longrightarrow> Items p \<noteq> []" using assms(5) t(1) by (auto simp: Sync_def Let_def split: if_splits)
qed

text \<open>C30. A peer's cursor moves only after a write to it succeeded: \<open>initiateSync\<close> either writes
  nothing and leaves the content of the store as it was, so that everything pending will be
  sent again, or the write succeeded, the message carries items, and the only change is that
  the cursor of this peer is the one of the payload.\<close>

theorem initiateSync_cursor:
  assumes "kv_store S I A" and "I (store (cliStore c))" and "wf (A (store (cliStore c)))"
    and "cursor_wf (A (store (cliStore c))) (mcPeerID mc)" and "postSyncOuts (cliStore c) = []"
    and "initiateSync S mc ok c = (w, c')"
  shows "case w of None \<Rightarrow> A (store (cliStore c')) = A (store (cliStore c))
    | Some m \<Rightarrow> ok \<and> (\<exists>p. mPayload m = Some p \<and> Items p \<noteq> [] \<and>
        A (store (cliStore c')) = (A (store (cliStore c)))(LastSyncOutKey (mcPeerID mc) \<mapsto> marshal_int64 (LastSyncTimestamp p)))"
proof -
  obtain r ss where r: "Sync S (mcPeerID mc) None (cliStore c) = (r, ss)" by fastforce
  note sp = Sync_none_spec [OF assms(1,2) wf_decodable [OF assms(3)] assms(4) r]
  consider (quiet) "w = None" "cliStore c' = ss"
    | (sent) p where "r = Inr (Some p)" "ok" "w = Some \<lparr>mType = ''sync'', mPayload = Some p, mError = []\<rparr>"
        "cliStore c' = snd (AckSyncOut S (mcPeerID mc) p ss)"
    using assms(6) r by (auto simp: initiateSync_def split: sum.splits option.splits if_splits)
  then show ?thesis
  proof cases
    case quiet
    then show ?thesis using sp(2) by simp
  next
    case sent
    have "evolves I A ((A (store ss))(LastSyncOutKey (mcPeerID mc) \<mapsto> marshal_int64 (LastSyncTimestamp p))) ss (cliStore c')"
      unfolding sent(4) by (rule kv_store.AckSyncOut_spec(2) [OF assms(1) sp(1)]) (simp add: sp(3) assms(5))
    from evolves_store(2) [OF this] sent sp(2,4) show ?thesis by simp
  qed
qed

definition demoClient :: "StoreMemory Client" where
  "demoClient = NewClient (NewSync demoMem [] \<lparr>lsSyncIn = [], lsNotify = False\<rparr> (\<lambda>_. 1700000020000000000) (\<lambda>n. CHR ''u'' # dec n)) []"

theorem initiateSync_cursor_witness:
  "\<exists>w c'. initiateSync memStore lone_conn False demoClient = (w, c') \<and> w = None \<and>
     mem_abs (store (cliStore c')) = mem_abs demoMem"
proof -
  obtain w c' where i: "initiateSync memStore lone_conn False demoClient = (w, c')" by fastforce
  have st: "store (cliStore demoClient) = demoMem" "postSyncOuts (cliStore demoClient) = []"
    by (simp_all add: demoClient_def NewClient_def conn_manager.defs OnUpdate_def NewSync_def NewWithOptions_def WithTimeOffset_def Let_def)
  have "w = None" using i by (auto simp: initiateSync_def split: prod.splits sum.splits option.splits)
  then show ?thesis
    using initiateSync_cursor [OF mem.kv_store_axioms _ _ _ _ i] i demoMem_inv demo_wf demo_cursor(1) by (simp add: st)
qed

end
