(* ===== verification/Ephemeral.thy ===== *)
theory Ephemeral
  imports Outbound Wire
begin

text \<open>
  Targeted messages that are not kept, \<open>src/sync/ephemeral/main.go\<close>: a \<open>Layer\<close> installed on
  the engine through its three hooks.  The layer is the captured state of the hooks, the
  component \<open>hookState\<close> of the engine; what the registered handlers and delivery callbacks
  touch is its field \<open>lyUser\<close>.  A handler returns whether it panicked; the code recovers
  from that.  The field \<open>lyPanicked\<close> records the index panic of the eviction loop, which a
  negative capacity causes.  The reference to the engine that \<open>Bind\<close> sets is only used for its
  raw store, which \<open>PostSyncOut\<close> receives here.

  Proved: an incoming message is never stored, its handler runs once however often it is
  delivered while its ID is remembered, and a message is sent to its target only and leaves
  the queue once acknowledged.
\<close>

section \<open>Keys and envelopes\<close>

definition ephKeyPrefix :: string where "ephKeyPrefix = ''%eph%''"

definition ephKey :: "string \<Rightarrow> string \<Rightarrow> string" where
  "ephKey targetPeerID messageID = ephKeyPrefix @ targetPeerID @ ''%'' @ messageID"

definition parseEphKey :: "string \<Rightarrow> (string \<times> string) option" where
  "parseEphKey key =
     (if \<not> prefix ephKeyPrefix key then None
      else (let rest = drop (length ephKeyPrefix) key
            in case dropWhile (\<lambda>c. c \<noteq> CHR ''%'') rest of
                 [] \<Rightarrow> None
               | _ # messageID \<Rightarrow> Some (takeWhile (\<lambda>c. c \<noteq> CHR ''%'') rest, messageID)))"

record EphEnvelope =
  eeID :: string
  eeFrom :: string
  eeMsgType :: string
  eeData :: string
  eeCreatedAt :: int

definition eph_json :: "EphEnvelope \<Rightarrow> json" where
  "eph_json e = JObj [(''id'', JStr (eeID e)), (''from'', JStr (eeFrom e)), (''msgType'', JStr (eeMsgType e)),
     (''data'', JStr (eeData e)), (''createdAt'', jint (eeCreatedAt e))]"

definition eph_field :: "string \<Rightarrow> json \<Rightarrow> EphEnvelope \<Rightarrow> EphEnvelope option" where
  "eph_field k v e =
     (if field_is ''id'' k then map_option (\<lambda>x. e\<lparr>eeID := x\<rparr>) (json_string v (eeID e))
      else if field_is ''from'' k then map_option (\<lambda>x. e\<lparr>eeFrom := x\<rparr>) (json_string v (eeFrom e))
      else if field_is ''msgType'' k then map_option (\<lambda>x. e\<lparr>eeMsgType := x\<rparr>) (json_string v (eeMsgType e))
      else if field_is ''data'' k then map_option (\<lambda>x. e\<lparr>eeData := x\<rparr>) (json_string v (eeData e))
      else if field_is ''createdAt'' k then map_option (\<lambda>x. e\<lparr>eeCreatedAt := x\<rparr>) (json_int v (eeCreatedAt e))
      else Some e)"

definition zeroEph :: EphEnvelope where
  "zeroEph = \<lparr>eeID = [], eeFrom = [], eeMsgType = [], eeData = [], eeCreatedAt = 0\<rparr>"

definition marshal_eph :: "EphEnvelope \<Rightarrow> string" where
  "marshal_eph e = jprint (eph_json e)"

definition unmarshal_eph :: "string \<Rightarrow> EphEnvelope option" where
  "unmarshal_eph s = Option.bind (jparse s) (json_struct eph_field zeroEph)"

section \<open>The layer\<close>

type_synonym 'u EphHandler = "EphEnvelope \<Rightarrow> 'u \<Rightarrow> bool \<times> 'u"

record 'u Layer =
  lyNodeID :: string
  lyHandlers :: "(string \<times> 'u EphHandler) list"
  lySeen :: "string set"
  lySeenOrder :: "string list"
  lySeenCap :: int
  lyOnDelivered :: "(EphEnvelope \<Rightarrow> string \<Rightarrow> 'u \<Rightarrow> 'u) list"
  lyUser :: 'u
  lyPanicked :: bool

definition WithSeenCapacity :: "int \<Rightarrow> 'u Layer \<Rightarrow> 'u Layer" where
  "WithSeenCapacity n l = l\<lparr>lySeenCap := n\<rparr>"

definition WithOnDelivered :: "(EphEnvelope \<Rightarrow> string \<Rightarrow> 'u \<Rightarrow> 'u) \<Rightarrow> 'u Layer \<Rightarrow> 'u Layer" where
  "WithOnDelivered fn l = l\<lparr>lyOnDelivered := lyOnDelivered l @ [fn]\<rparr>"

definition NewLayer :: "string \<Rightarrow> ('u Layer \<Rightarrow> 'u Layer) list \<Rightarrow> 'u \<Rightarrow> 'u Layer" where
  "NewLayer nodeID opts u =
     fold (\<lambda>opt l. opt l) opts
       \<lparr>lyNodeID = nodeID, lyHandlers = [], lySeen = {}, lySeenOrder = [], lySeenCap = 10000,
        lyOnDelivered = [], lyUser = u, lyPanicked = False\<rparr>"

definition ephHandle :: "string \<Rightarrow> 'u EphHandler \<Rightarrow> 'u Layer \<Rightarrow> 'u Layer" where
  "ephHandle msgType fn l = l\<lparr>lyHandlers := AList.update msgType fn (lyHandlers l)\<rparr>"

definition ephSend ::
  "'s Store \<Rightarrow> string \<Rightarrow> string \<Rightarrow> string \<Rightarrow> ('s, 'u Layer) StoreSync \<Rightarrow> (unit, ('s, 'u Layer) StoreSync) outcome" where
  "ephSend S targetNode msgType dat s =
     (case uuid_new s of (messageID, s) \<Rightarrow>
      (case time_now s of (now, s) \<Rightarrow>
        let env = \<lparr>eeID = messageID, eeFrom = lyNodeID (hookState s), eeMsgType = msgType, eeData = dat,
                   eeCreatedAt = now\<rparr>
        in SetItem S ''eph'' (ephKey targetNode messageID) (marshal_eph env) s))"

section \<open>The hooks\<close>

definition ephOutFilter :: "'u Layer SyncOutFilter" where
  "ephOutFilter item peerID l =
     (case parseEphKey (Key item) of None \<Rightarrow> True | Some (target, _) \<Rightarrow> target = peerID)"

text \<open>The eviction loop of the seen set; the last component is the index panic.\<close>

fun evictSeen :: "int \<Rightarrow> string list \<Rightarrow> string set \<Rightarrow> string list \<times> string set \<times> bool" where
  "evictSeen cap [] seen = ([], seen, 0 > cap)"
| "evictSeen cap (oldest # order) seen =
     (if int (length (oldest # order)) > cap then evictSeen cap order (seen - {oldest})
      else (oldest # order, seen, False))"

text \<open>The call of the handler, under \<open>recover\<close>.\<close>

definition runHandler :: "EphEnvelope \<Rightarrow> 'u Layer \<Rightarrow> 'u Layer" where
  "runHandler env l =
     (case map_of (lyHandlers l) (eeMsgType env) of
        None \<Rightarrow> l
      | Some handler \<Rightarrow> l\<lparr>lyUser := snd (handler env (lyUser l))\<rparr>)"

definition ephInFilter :: "'u Layer SyncInFilter" where
  "ephInFilter item peerID l =
     (case parseEphKey (Key item) of
        None \<Rightarrow> (True, l)
      | Some (_, messageID) \<Rightarrow>
          if messageID \<in> lySeen l then (False, l)
          else
            (case evictSeen (lySeenCap l) (lySeenOrder l @ [messageID]) (insert messageID (lySeen l)) of
               (order, seen, panic) \<Rightarrow>
                 let l = l\<lparr>lySeen := seen, lySeenOrder := order, lyPanicked := lyPanicked l \<or> panic\<rparr>
                 in if panic then (False, l)
                    else (case unmarshal_eph (Value item) of
                            None \<Rightarrow> (False, l)
                          | Some env \<Rightarrow> (False, runHandler env l))))"

fun postSyncOut_items ::
  "'s Store \<Rightarrow> string \<Rightarrow> SyncStoreItem list \<Rightarrow> 's \<Rightarrow> 'u Layer \<Rightarrow> 's \<times> 'u Layer" where
  "postSyncOut_items S peerID [] st l = (st, l)"
| "postSyncOut_items S peerID (item # items) st l =
     (if parseEphKey (Key item) = None then postSyncOut_items S peerID items st l
      else
        (let l = (if lyOnDelivered l = [] then l
                  else (case unmarshal_eph (Value item) of
                          None \<Rightarrow> l
                        | Some env \<Rightarrow> l\<lparr>lyUser := fold (\<lambda>fn u. fn env peerID u) (lyOnDelivered l) (lyUser l)\<rparr>));
             st = snd (sDelete S (ViewKey (Key item)) st);
             st = snd (sDelete S (ValueKey (ID item)) st);
             st = snd (sDelete S (QueueKey (QueueID (WriteTimestamp item) (ID item) (Key item))) st)
         in postSyncOut_items S peerID items st l))"

definition ephPostSyncOut :: "'s Store \<Rightarrow> ('s, 'u Layer) PostSyncOut" where
  "ephPostSyncOut S items peerID st l = postSyncOut_items S peerID items st l"

definition ephOptions :: "'s Store \<Rightarrow> ('s, 'u Layer) Option list" where
  "ephOptions S = [WithSyncOutFilter ephOutFilter, WithSyncInFilter ephInFilter, WithPostSyncOut (ephPostSyncOut S)]"

section \<open>Keys\<close>

lemma parseEphKey_ephKey [simp]:
  assumes "CHR ''%'' \<notin> set target"
  shows "parseEphKey (ephKey target m) = Some (target, m)"
proof -
  have "dropWhile (\<lambda>c. c \<noteq> CHR ''%'') (target @ CHR ''%'' # m) = CHR ''%'' # m"
    "takeWhile (\<lambda>c. c \<noteq> CHR ''%'') (target @ CHR ''%'' # m) = target"
    using assms by (auto simp: dropWhile_append takeWhile_append split: if_splits)
  then show ?thesis by (simp add: parseEphKey_def ephKey_def)
qed

definition msg_id :: "SyncStoreItem \<Rightarrow> string" where
  "msg_id it = (case parseEphKey (Key it) of None \<Rightarrow> [] | Some (_, m) \<Rightarrow> m)"

definition is_eph :: "SyncStoreItem \<Rightarrow> bool" where
  "is_eph it \<longleftrightarrow> parseEphKey (Key it) \<noteq> None"

section \<open>The seen set\<close>

definition layer_ok :: "'u Layer \<Rightarrow> bool" where
  "layer_ok l \<longleftrightarrow> 0 \<le> lySeenCap l \<and> int (length (lySeenOrder l)) \<le> lySeenCap l \<and> distinct (lySeenOrder l) \<and>
     lySeen l = set (lySeenOrder l) \<and> \<not> lyPanicked l"

lemma evictSeen_drop:
  assumes "0 \<le> cap" and "distinct order" and "seen = set order"
  shows "evictSeen cap order seen =
    (let o' = drop (length order - nat cap) order in (o', set o', False))"
  using assms
proof (induction order arbitrary: seen)
  case Nil
  then show ?case by simp
next
  case (Cons x order)
  show ?case
  proof (cases "int (length (x # order)) > cap")
    case True
    have "set (x # order) - {x} = set order" using Cons.prems(2) by auto
    moreover have "length (x # order) - nat cap = Suc (length order - nat cap)"
      using True Cons.prems(1) by (simp add: Suc_diff_le)
    ultimately show ?thesis using Cons True by simp
  next
    case False
    then show ?thesis using Cons.prems by simp
  qed
qed

section \<open>Receiving\<close>

definition receive :: "SyncStoreItem \<Rightarrow> 'u Layer \<Rightarrow> 'u Layer" where
  "receive it l = snd (ephInFilter it [] l)"

text \<open>What one message does to the variables of the handlers.\<close>

definition handled :: "(string \<times> 'u EphHandler) list \<Rightarrow> SyncStoreItem \<Rightarrow> 'u \<Rightarrow> 'u" where
  "handled hs it u =
     (case unmarshal_eph (Value it) of None \<Rightarrow> u
      | Some env \<Rightarrow> (case map_of hs (eeMsgType env) of None \<Rightarrow> u | Some h \<Rightarrow> snd (h env u)))"

lemma ephInFilter_receive: "is_eph it \<Longrightarrow> ephInFilter it peer l = (False, receive it l)"
  by (auto simp: receive_def ephInFilter_def is_eph_def Let_def split: option.split prod.split)

lemma receive_dup: "is_eph it \<Longrightarrow> msg_id it \<in> lySeen l \<Longrightarrow> receive it l = l"
  by (auto simp: receive_def ephInFilter_def is_eph_def msg_id_def)

lemma receive_other: "\<not> is_eph it \<Longrightarrow> receive it l = l"
  by (cases "parseEphKey (Key it)") (simp_all add: receive_def ephInFilter_def is_eph_def)

lemma receive_new:
  assumes "layer_ok l" and "is_eph it" and "msg_id it \<notin> lySeen l"
  defines "o' \<equiv> drop (Suc (length (lySeenOrder l)) - nat (lySeenCap l)) (lySeenOrder l @ [msg_id it])"
  shows "receive it l = l\<lparr>lySeen := set o', lySeenOrder := o', lyUser := handled (lyHandlers l) it (lyUser l)\<rparr>"
proof -
  obtain t m where tm: "parseEphKey (Key it) = Some (t, m)" "m = msg_id it"
    using assms(2) by (auto simp: is_eph_def msg_id_def)
  have "distinct (lySeenOrder l @ [m])" "insert m (lySeen l) = set (lySeenOrder l @ [m])"
    using assms(1,3) tm(2) by (auto simp: layer_ok_def)
  then have "evictSeen (lySeenCap l) (lySeenOrder l @ [m]) (insert m (lySeen l)) = (o', set o', False)"
    using evictSeen_drop [of "lySeenCap l" "lySeenOrder l @ [m]"] assms(1) tm(2)
    by (simp add: layer_ok_def o'_def Let_def)
  moreover have "m \<notin> lySeen l" "\<not> lyPanicked l" using assms(1,3) tm(2) by (simp_all add: layer_ok_def)
  ultimately show ?thesis
    using tm(1) by (simp add: receive_def ephInFilter_def Let_def handled_def runHandler_def split: option.split)
qed

lemma receive_ok:
  assumes "layer_ok l"
  shows "layer_ok (receive it l)"
proof (cases "is_eph it \<and> msg_id it \<notin> lySeen l")
  case True
  let ?o = "drop (Suc (length (lySeenOrder l)) - nat (lySeenCap l)) (lySeenOrder l @ [msg_id it])"
  have "distinct (lySeenOrder l @ [msg_id it])" using True assms by (auto simp: layer_ok_def)
  then have "distinct ?o" by (rule distinct_drop)
  moreover have "int (length ?o) \<le> lySeenCap l" using assms by (auto simp: layer_ok_def)
  ultimately show ?thesis
    using assms True receive_new [OF assms, of it] by (simp add: layer_ok_def del: drop_append)
next
  case False
  then have "receive it l = l" using receive_dup receive_other by blast
  then show ?thesis using assms by simp
qed

lemma receive_keeps: "lySeenCap (receive it l) = lySeenCap l" "lyHandlers (receive it l) = lyHandlers l"
  by (auto simp: receive_def ephInFilter_def runHandler_def Let_def split: option.split prod.split)

text \<open>New messages fill the end of the queue of remembered IDs, in order.\<close>

lemma receive_all:
  assumes "layer_ok l" and "\<forall>it \<in> set items. is_eph it \<and> msg_id it \<notin> lySeen l" and "distinct (map msg_id items)"
    and "lySeenOrder l = P @ Q" and "int (length Q + length items) \<le> lySeenCap l"
  shows "\<exists>P'. lySeenOrder (fold receive items l) = P' @ Q @ map msg_id items \<and> layer_ok (fold receive items l) \<and>
    lyUser (fold receive items l) = fold (handled (lyHandlers l)) items (lyUser l)"
  using assms
proof (induction items arbitrary: l P Q)
  case Nil
  then show ?case by simp
next
  case (Cons it items)
  let ?l = "receive it l"
  have ord: "lySeenOrder ?l = drop (Suc (length P + length Q) - nat (lySeenCap l)) (P @ Q @ [msg_id it])"
    and seen: "lySeen ?l \<subseteq> insert (msg_id it) (lySeen l)" and user: "lyUser ?l = handled (lyHandlers l) it (lyUser l)"
    using receive_new [OF Cons.prems(1), of it] Cons.prems(1,2,4) set_drop_subset
    by (auto simp: layer_ok_def dest!: in_set_dropD)
  have "Suc (length P + length Q) - nat (lySeenCap l) \<le> length P" using Cons.prems(5) by simp
  then have ord': "lySeenOrder ?l = drop (Suc (length P + length Q) - nat (lySeenCap l)) P @ Q @ [msg_id it]"
    unfolding ord by simp
  have fresh: "\<forall>it' \<in> set items. is_eph it' \<and> msg_id it' \<notin> lySeen ?l"
  proof
    fix it' assume it': "it' \<in> set items"
    then have "msg_id it' \<noteq> msg_id it" using Cons.prems(3) by (metis distinct.simps(2) image_eqI list.set_map list.simps(9))
    then show "is_eph it' \<and> msg_id it' \<notin> lySeen ?l" using Cons.prems(2) seen it' by auto
  qed
  have "\<exists>P'. lySeenOrder (fold receive items ?l) = P' @ (Q @ [msg_id it]) @ map msg_id items \<and>
      layer_ok (fold receive items ?l) \<and>
      lyUser (fold receive items ?l) = fold (handled (lyHandlers ?l)) items (lyUser ?l)"
    using Cons.prems(3,5)
    by (intro Cons.IH [OF receive_ok [OF Cons.prems(1)] fresh _ ord']) (simp_all add: receive_keeps)
  then show ?case by (simp add: receive_keeps user)
qed

lemma receive_again: "\<forall>it \<in> set items. is_eph it \<and> msg_id it \<in> lySeen l \<Longrightarrow> fold receive items l = l"
  by (induction items) (simp_all add: receive_dup)

text \<open>An incoming payload of ephemeral items touches nothing but the layer.\<close>

lemma syncIn_items_eph:
  assumes "syncInFilters s = [ephInFilter]" and "listeners s = []" and "\<forall>it \<in> set items. is_eph it"
  shows "syncIn_items S peer items s = (Inr (), s\<lparr>hookState := fold receive items (hookState s)\<rparr>)"
  using assms
  by (induction items arbitrary: s) (simp_all add: ephInFilter_receive notifyListeners_def)

section \<open>Acknowledging\<close>

definition target_of :: "SyncStoreItem \<Rightarrow> string" where
  "target_of it = (case parseEphKey (Key it) of None \<Rightarrow> [] | Some (t, _) \<Rightarrow> t)"

definition eph_keys :: "SyncStoreItem list \<Rightarrow> string set" where
  "eph_keys items = (\<Union>it \<in> {it \<in> set items. is_eph it}.
     {ViewKey (Key it), ValueKey (ID it), QueueKey (QueueID (WriteTimestamp it) (ID it) (Key it))})"

context kv_store
begin

lemma postSyncOut_items_spec:
  assumes "inv st"
  shows "inv (fst (postSyncOut_items S peer items st l)) \<and>
    abs (fst (postSyncOut_items S peer items st l)) = (\<lambda>k. if k \<in> eph_keys items then None else abs st k)"
  using assms
proof (induction items arbitrary: st l)
  case Nil
  then show ?case by (simp add: eph_keys_def)
next
  case (Cons it items)
  show ?case
  proof (cases "is_eph it")
    case False
    then have "eph_keys (it # items) = eph_keys items" by (auto simp: eph_keys_def)
    then show ?thesis using False Cons by (simp add: is_eph_def)
  next
    case True
    let ?st = "snd (sDelete S (QueueKey (QueueID (WriteTimestamp it) (ID it) (Key it)))
        (snd (sDelete S (ValueKey (ID it)) (snd (sDelete S (ViewKey (Key it)) st)))))"
    have i: "inv ?st" using Cons.prems by (simp add: store_simps)
    have k: "eph_keys (it # items) = {ViewKey (Key it), ValueKey (ID it),
        QueueKey (QueueID (WriteTimestamp it) (ID it) (Key it))} \<union> eph_keys items"
      using True by (auto simp: eph_keys_def)
    show ?thesis
      using True Cons.prems Cons.IH [OF i] unfolding k
      by (auto simp: is_eph_def Let_def store_simps fun_eq_iff)
  qed
qed

end

section \<open>A concrete sender and receiver\<close>

lemma eph_round_trip:
  assumes "utf8_valid (eeID e)" "utf8_valid (eeFrom e)" "utf8_valid (eeMsgType e)" "utf8_valid (eeData e)" "in_i64 (eeCreatedAt e)"
  shows "unmarshal_eph (marshal_eph e) = Some e"
proof -
  have names: "fold_name ''id'' = ''id''" "fold_name ''from'' = ''from''" "fold_name ''msgType'' = ''msgtype''"
    "utf8_coerce ''id'' = ''id''" "utf8_coerce ''from'' = ''from''" "utf8_coerce ''msgType'' = ''msgType''"
    by (simp_all add: char_of_eq_iff utf8_valid_ascii)
  have "jwf (eph_json e)" by (simp add: eph_json_def)
  then have "unmarshal_eph (marshal_eph e) = json_struct eph_field zeroEph (jcoerce (eph_json e))"
    by (simp add: unmarshal_eph_def marshal_eph_def jparse_jprint)
  also have "\<dots> = Some e"
    using assms names by (cases e) (simp add: eph_json_def eph_field_def wire_names zeroEph_def del: fold_name.simps)
  finally show ?thesis .
qed

definition chatEnv :: EphEnvelope where
  "chatEnv = \<lparr>eeID = ''m1'', eeFrom = ''a'', eeMsgType = ''chat'', eeData = ''hi'', eeCreatedAt = 1700000000000000000\<rparr>"

definition chatItem :: SyncStoreItem where
  "chatItem = demoItem\<lparr>App := ''eph'', Key := ephKey ''b'' ''m1'', Value := marshal_eph chatEnv\<rparr>"

definition chatLayer :: "string list Layer" where
  "chatLayer = ephHandle ''chat'' (\<lambda>env u. (False, u @ [eeData env])) (NewLayer ''b'' [] [])"

definition chatPeer :: "StoreMemory \<Rightarrow> (StoreMemory, string list Layer) StoreSync" where
  "chatPeer st = NewWithOptions st (ephOptions memStore) chatLayer (\<lambda>n. 1700000020000000000) (\<lambda>n. CHR ''u'' # dec n)"

definition chatMem :: StoreMemory where
  "chatMem = \<lparr>data = [(QueueKey (QueueID (WriteTimestamp chatItem) (ID chatItem) (Key chatItem)), ID chatItem),
     (ViewEntryKey (Key chatItem) (Timestamp chatItem) (ID chatItem), ID chatItem),
     (ValueKey (ID chatItem), marshal_item chatItem)]\<rparr>"

lemma chatItem_simps [simp]:
  "Key chatItem = ephKey ''b'' ''m1''" "ID chatItem = ''i0''" "Timestamp chatItem = 1700000000000000000"
  "WriteTimestamp chatItem = 1700000010000000000" "Value chatItem = marshal_eph chatEnv" "App chatItem = ''eph''"
  "PublicKey chatItem = []" "Signature chatItem = []"
  by (simp_all add: chatItem_def)

lemma chat_parse: "parseEphKey (ephKey ''b'' ''m1'') = Some (''b'', ''m1'')"
  by simp

lemma chat_item_eph: "is_eph chatItem" "msg_id chatItem = ''m1''" "target_of chatItem = ''b''"
  by (simp_all add: is_eph_def msg_id_def target_of_def)

lemma chatPeer_simps [simp]:
  "store (chatPeer st) = st" "syncInFilters (chatPeer st) = [ephInFilter]" "syncOutFilters (chatPeer st) = [ephOutFilter]"
  "postSyncOuts (chatPeer st) = [ephPostSyncOut memStore]" "listeners (chatPeer st) = []" "hookState (chatPeer st) = chatLayer"
  by (simp_all add: chatPeer_def NewWithOptions_def ephOptions_def WithSyncOutFilter_def WithSyncInFilter_def WithPostSyncOut_def)

lemma chatLayer_simps [simp]: "layer_ok chatLayer" "lySeen chatLayer = {}" "lySeenCap chatLayer = 10000" "lyUser chatLayer = []"
  by (simp_all add: chatLayer_def ephHandle_def NewLayer_def layer_ok_def)

lemma chat_handled: "handled (lyHandlers chatLayer) chatItem u = u @ [''hi'']"
  using eph_round_trip [of chatEnv]
  by (simp add: handled_def chatLayer_def ephHandle_def NewLayer_def chatEnv_def utf8_valid_ascii in_i64_def)

lemma utf8_jprint_chat: "utf8_valid (marshal_eph chatEnv)"
  unfolding marshal_eph_def by (rule utf8_valid_jprint(1)) (simp add: eph_json_def)

lemma chat_writable: "writable Map.empty chatItem"
  by (simp add: writable_def valid_item_def id_ok_fresh nul_free_def utf8_valid_ascii utf8_jprint_chat in_i64_def
      ephKey_def ephKeyPrefix_def)

lemma chatMem_abs: "mem_abs chatMem = puts Map.empty chatItem"
  by (auto simp: mem_abs_def chatMem_def puts_def key_simps fun_eq_iff)

lemma chatMem_inv: "mem_inv chatMem"
  by (simp add: mem_inv_def chatMem_def key_simps)

lemma chatMem_ok:
  "wf (mem_abs chatMem)" "queue_ok (mem_abs chatMem)" "cursor_wf (mem_abs chatMem) peer"
  "queued (mem_abs chatMem) it \<Longrightarrow> nul_free (Key it)"
proof -
  have v: "valid_item chatItem" and le: "live Map.empty u = None" for u
    using chat_writable by (simp_all add: writable_def live_def)
  show "wf (mem_abs chatMem)" unfolding chatMem_abs by (rule wf_puts [OF wf_empty chat_writable])
  show "queue_ok (mem_abs chatMem)"
    unfolding chatMem_abs by (rule queue_ok_puts) (simp_all add: v queue_ok_def nano19_def)
  show "cursor_wf (mem_abs chatMem) peer"
    by (simp add: chatMem_abs cursor_wf_def cursor_of_def cursor_ok_def puts_def key_simps)
  show "nul_free (Key it)" if "queued (mem_abs chatMem) it"
    using that chat_writable by (auto simp: chatMem_abs queued_def live_puts [OF v] le writable_def split: if_splits)
qed

section \<open>Properties\<close>

text \<open>C18. A payload of new ephemeral messages is handed to the handlers and never stored: the
  store is untouched, every message runs its handler once and in order, the bounded set of
  remembered IDs keeps its invariant, and delivering the same payload again, from any peer,
  changes nothing.\<close>

theorem ephemeral_once:
  assumes "syncInFilters s = [ephInFilter]" and "listeners s = []" and "layer_ok (hookState s)"
    and "length (Items p) \<le> MaxSyncInItems" and "int (length (Items p)) \<le> lySeenCap (hookState s)"
    and "\<forall>it \<in> set (Items p). is_eph it \<and> msg_id it \<notin> lySeen (hookState s)" and "distinct (map msg_id (Items p))"
  shows "\<exists>s'. SyncIn S peer p s = (Inr (), s') \<and> store s' = store s \<and> layer_ok (hookState s') \<and>
    lyUser (hookState s') = fold (handled (lyHandlers (hookState s))) (Items p) (lyUser (hookState s)) \<and>
    SyncIn S peer' p s' = (Inr (), s')"
proof -
  let ?l = "fold receive (Items p) (hookState s)" and ?s' = "s\<lparr>hookState := fold receive (Items p) (hookState s)\<rparr>"
  obtain P' where l: "lySeenOrder ?l = P' @ map msg_id (Items p)" "layer_ok ?l"
      "lyUser ?l = fold (handled (lyHandlers (hookState s))) (Items p) (lyUser (hookState s))"
    using receive_all [OF assms(3,6,7), of "lySeenOrder (hookState s)" "[]"] assms(5) by auto
  have eph: "\<forall>it \<in> set (Items p). is_eph it" using assms(6) by blast
  have "SyncIn S peer p s = (Inr (), ?s')"
    using syncIn_items_eph [OF assms(1,2) eph] assms(4) by (simp add: SyncIn_def)
  moreover have "fold receive (Items p) ?l = ?l"
    using eph l(1,2) by (intro receive_again) (auto simp: layer_ok_def)
  then have "SyncIn S peer' p ?s' = (Inr (), ?s')"
    using syncIn_items_eph [of ?s' "Items p"] assms(1,2,4) eph by (simp add: SyncIn_def)
  ultimately show ?thesis using l by auto
qed

theorem ephemeral_once_witness:
  "\<exists>s'. SyncIn memStore ''a'' \<lparr>Items = [chatItem], LastSyncTimestamp = 0\<rparr> (chatPeer NewMemory) = (Inr (), s') \<and>
    store s' = NewMemory \<and> lyUser (hookState s') = [''hi'']"
  using ephemeral_once [of "chatPeer NewMemory" "\<lparr>Items = [chatItem], LastSyncTimestamp = 0\<rparr>" memStore "''a''"]
  by (auto simp: chat_item_eph chat_handled MaxSyncInItems_def)

text \<open>C19. With the hooks of the layer installed, \<open>SyncOut\<close> sends an ephemeral message to its
  target only, and once the peer acknowledges the payload the value and the queue entry of
  each message sent are gone from the sender, while every other item keeps its entries.  The
  view entry of a delivered message stays behind, because the hook deletes the key of
  timestamp 0 instead of it.\<close>

theorem ephemeral_delivery:
  assumes "kv_store S I A" and "I (store s)" and "wf (A (store s))" and "queue_ok (A (store s))"
    and "cursor_wf (A (store s)) peer" and "\<forall>it. queued (A (store s)) it \<longrightarrow> nul_free (Key it)"
    and "syncOutFilters s = [ephOutFilter]" and "postSyncOuts s = [ephPostSyncOut S]"
  shows "\<exists>p s1 s2. SyncOut S peer limit s = (Inr p, s1) \<and> AckSyncOut S peer p s1 = (Inr (), s2) \<and>
    (\<forall>it \<in> set (Items p). is_eph it \<longrightarrow> target_of it = peer \<and>
       A (store s2) (ValueKey (ID it)) = None \<and>
       A (store s2) (QueueKey (QueueID (WriteTimestamp it) (ID it) (Key it))) = None \<and>
       (Timestamp it \<noteq> 0 \<longrightarrow>
          A (store s2) (ViewEntryKey (Key it) (Timestamp it) (ID it)) = A (store s) (ViewEntryKey (Key it) (Timestamp it) (ID it)))) \<and>
    (\<forall>k. k \<noteq> LastSyncOutKey peer \<longrightarrow> k \<notin> eph_keys (Items p) \<longrightarrow> A (store s2) k = A (store s) k)"
proof -
  let ?m = "A (store s)"
  obtain p s1 where p: "SyncOut S peer limit s = (Inr p, s1)" "evolves I A ?m s s1"
      "p = payload_of s ?m (cursor_of ?m peer) (effective_limit limit) peer"
    using kv_store.SyncOut_spec [OF assms(1,2) wf_decodable [OF assms(3)] assms(5)] by blast
  have s1: "I (store s1)" "A (store s1) = ?m" "postSyncOuts s1 = [ephPostSyncOut S]"
    using evolves_store [OF p(2)] evolves_config(7) [OF p(2)] assms(8) by auto
  let ?c = "LastSyncOutKey peer" and ?raw = "marshal_int64 (LastSyncTimestamp p)"
  obtain st where st: "sSet S ?c ?raw (store s1) = (Inr (), st)" "I st" "A st = ?m(?c \<mapsto> ?raw)"
    using kv_store.set_run [OF assms(1) s1(1)] s1(2) by metis
  define q where "q = postSyncOut_items S peer (Items p) st (hookState s1)"
  have q: "A (fst q) = (\<lambda>k. if k \<in> eph_keys (Items p) then None else (?m(?c \<mapsto> ?raw)) k)"
    using kv_store.postSyncOut_items_spec [OF assms(1) st(2), of peer "Items p" "hookState s1"]
    unfolding st(3) q_def by blast
  define s2 where "s2 = s1\<lparr>store := fst q, hookState := snd q\<rparr>"
  have "AckSyncOut S peer p s1 = (Inr (), s2)"
    using st(1) s1(3)
    by (cases "Items p = []") (simp_all add: AckSyncOut_def call_def ephPostSyncOut_def q_def s2_def split: prod.split)
  moreover have "\<forall>it \<in> set (Items p). is_eph it \<longrightarrow> target_of it = peer"
    using assms(7) unfolding p(3)
    by (auto simp: payload_of_def passes_out_def ephOutFilter_def is_eph_def target_of_def)
  moreover have nf: "nul_free (Key it)" if "it \<in> set (Items p)" for it
  proof -
    have "it \<in> set (window ?m (cursor_of ?m peer) (effective_limit limit))"
      using that unfolding p(3) by (simp add: payload_of_def)
    then show ?thesis using window_queued [OF assms(3,4)] assms(5,6) by (auto simp: cursor_wf_def)
  qed
  moreover have "ViewEntryKey (Key it) t u \<notin> eph_keys (Items p)" if "it \<in> set (Items p)" "t \<noteq> 0" for it t u
    using that nf by (auto simp: eph_keys_def ViewKey_def key_simps)
  ultimately show ?thesis
    using p(1) by (intro exI [of _ p] exI [of _ s1] exI [of _ s2]) (auto simp: s2_def q eph_keys_def key_simps)
qed

theorem ephemeral_delivery_witness:
  "\<exists>p s1 s2. SyncOut memStore ''b'' 10 (chatPeer chatMem) = (Inr p, s1) \<and> AckSyncOut memStore ''b'' p s1 = (Inr (), s2)"
  using ephemeral_delivery [OF mem.kv_store_axioms, of "chatPeer chatMem" "''b''" 10] chatMem_inv chatMem_ok
  by auto

end
