(* ===== verification/Messages.thy ===== *)
theory Messages
  imports Outbound Wire
begin

text \<open>
  Request/response messaging on top of the engine, \<open>src/sync/message/main.go\<close>.  The state of
  a \<open>StoreMessage\<close> is the captured state of its update listener, the component
  \<open>hookState\<close> of the engine; \<open>mUser\<close> is what the handlers, listeners and interceptors of the
  application touch.

  The listener \<open>onSyncUpdate\<close> calls back into the engine.  The engine notifies at the very
  end of a write, so the listener here only records the item (\<open>logItem\<close>) and \<open>drain\<close>,
  which runs as soon as the engine returns, does the work; in a payload that is after each
  item.  \<open>drain\<close> may call the engine again and is a partial function; that it returns is
  part of the property.

  \<open>Send\<close> blocks on a channel.  It is split at the \<open>select\<close>: \<open>msgSend\<close> up to it, and
  \<open>msgAwait\<close> for what it returns when the channel or the context is ready.  The channel of a
  message is kept under the ID of the message.
\<close>

section \<open>State\<close>

record MsgChan =
  chBuf :: "Envelope option"
  chClosed :: bool

type_synonym 'u MsgHandler = "Envelope \<Rightarrow> 'u \<Rightarrow> (string \<times> string option) \<times> 'u"
type_synonym 'u MessageListener = "Envelope \<Rightarrow> 'u \<Rightarrow> 'u"

record 'u StoreMessage =
  mID :: string
  mHandlers :: "(string \<times> 'u MsgHandler) list"
  mPending :: "string list"
  mChans :: "(string \<times> MsgChan) list"
  mListeners :: "(nat \<times> 'u MessageListener) list"
  mNextListenerID :: nat
  mSendComplete :: "(nat \<times> (Envelope \<Rightarrow> string \<Rightarrow> 'u \<Rightarrow> string \<times> 'u)) list"
  mSendError :: "(nat \<times> (Envelope \<Rightarrow> error option \<Rightarrow> 'u \<Rightarrow> error option \<times> 'u)) list"
  mNextHookID :: nat
  mGcTTL :: int
  mGcInterval :: int
  mGcRunning :: bool
  mUnsub :: "nat option"
  mUser :: 'u
  mLog :: "SyncStoreItem list"

type_synonym ('s, 'u) msg_engine = "('s, 'u StoreMessage) StoreSync"

definition upd :: "('u StoreMessage \<Rightarrow> 'u StoreMessage) \<Rightarrow> ('s, 'u) msg_engine \<Rightarrow> ('s, 'u) msg_engine" where
  "upd f s = s\<lparr>hookState := f (hookState s)\<rparr>"

definition WithTTL :: "int \<Rightarrow> 'u StoreMessage \<Rightarrow> 'u StoreMessage" where
  "WithTTL ttl m = m\<lparr>mGcTTL := ttl\<rparr>"

definition WithGCInterval :: "int \<Rightarrow> 'u StoreMessage \<Rightarrow> 'u StoreMessage" where
  "WithGCInterval interval m = m\<lparr>mGcInterval := interval\<rparr>"

definition reqPrefix :: string where "reqPrefix = ''%msg%req%''"
definition resPrefix :: string where "resPrefix = ''%msg%res%''"

definition reqKey :: "string \<Rightarrow> string \<Rightarrow> string" where
  "reqKey targetID messageID = ''%msg%req%'' @ targetID @ ''%'' @ messageID"

definition resKey :: "string \<Rightarrow> string" where
  "resKey messageID = ''%msg%res%'' @ messageID"

definition logItem :: "'u StoreMessage UpdateListener" where
  "logItem item m = m\<lparr>mLog := mLog m @ [item]\<rparr>"

text \<open>\<open>New\<close>, with the initial values of the fields; \<open>u\<close> are the variables of the application.\<close>

definition emptyMessage :: "string \<Rightarrow> 'u \<Rightarrow> 'u StoreMessage" where
  "emptyMessage nid u =
     \<lparr>mID = nid, mHandlers = [], mPending = [], mChans = [], mListeners = [], mNextListenerID = 0,
      mSendComplete = [], mSendError = [], mNextHookID = 0, mGcTTL = 0, mGcInterval = 0,
      mGcRunning = False, mUnsub = None, mUser = u, mLog = []\<rparr>"

definition NewMessage ::
  "string \<Rightarrow> ('u StoreMessage \<Rightarrow> 'u StoreMessage) list \<Rightarrow> 'u \<Rightarrow> ('s, 'u) msg_engine \<Rightarrow> ('s, 'u) msg_engine" where
  "NewMessage nid opts u s =
     (let m = fold (\<lambda>opt m. opt m) opts (emptyMessage nid u)
      in (case OnUpdate logItem s of (n, s) \<Rightarrow>
            s\<lparr>hookState := m\<lparr>mUnsub := Some n, mGcRunning := mGcTTL m > 0\<rparr>\<rparr>))"

text \<open>\<open>Close\<close>: every channel that is still pending is closed.\<close>

definition CloseMessage :: "('s, 'u) msg_engine \<Rightarrow> (unit, ('s, 'u) msg_engine) outcome" where
  "CloseMessage s =
     (let s = upd (\<lambda>m. m\<lparr>mGcRunning := False\<rparr>) s;
          s = (case mUnsub (hookState s) of None \<Rightarrow> s
               | Some n \<Rightarrow> upd (\<lambda>m. m\<lparr>mUnsub := None\<rparr>) (unsubscribe n s));
          s = upd (\<lambda>m. m\<lparr>mChans := map (\<lambda>(c, ch). (c, if c \<in> set (mPending m) then ch\<lparr>chClosed := True\<rparr> else ch)) (mChans m),
                         mPending := []\<rparr>) s
      in (Inr (), s))"

section \<open>Registration\<close>

definition msgHandle :: "string \<Rightarrow> 'u MsgHandler \<Rightarrow> ('s, 'u) msg_engine \<Rightarrow> ('s, 'u) msg_engine" where
  "msgHandle msgType h = upd (\<lambda>m. m\<lparr>mHandlers := AList.update msgType h (mHandlers m)\<rparr>)"

definition msgOnMessage :: "'u MessageListener \<Rightarrow> ('s, 'u) msg_engine \<Rightarrow> nat \<times> ('s, 'u) msg_engine" where
  "msgOnMessage fn s =
     (let n = Suc (mNextListenerID (hookState s))
      in (n, upd (\<lambda>m. m\<lparr>mNextListenerID := n, mListeners := AList.update n fn (mListeners m)\<rparr>) s))"

definition msgOnSendComplete ::
  "(Envelope \<Rightarrow> string \<Rightarrow> 'u \<Rightarrow> string \<times> 'u) \<Rightarrow> ('s, 'u) msg_engine \<Rightarrow> nat \<times> ('s, 'u) msg_engine" where
  "msgOnSendComplete fn s =
     (let n = Suc (mNextHookID (hookState s))
      in (n, upd (\<lambda>m. m\<lparr>mNextHookID := n, mSendComplete := AList.update n fn (mSendComplete m)\<rparr>) s))"

definition msgOnSendError ::
  "(Envelope \<Rightarrow> error option \<Rightarrow> 'u \<Rightarrow> error option \<times> 'u) \<Rightarrow> ('s, 'u) msg_engine \<Rightarrow> nat \<times> ('s, 'u) msg_engine" where
  "msgOnSendError fn s =
     (let n = Suc (mNextHookID (hookState s))
      in (n, upd (\<lambda>m. m\<lparr>mNextHookID := n, mSendError := AList.update n fn (mSendError m)\<rparr>) s))"

text \<open>The functions that the three registrations return.\<close>

definition msgOffMessage :: "nat \<Rightarrow> ('s, 'u) msg_engine \<Rightarrow> ('s, 'u) msg_engine" where
  "msgOffMessage n = upd (\<lambda>m. m\<lparr>mListeners := AList.delete n (mListeners m)\<rparr>)"

definition msgOffSendComplete :: "nat \<Rightarrow> ('s, 'u) msg_engine \<Rightarrow> ('s, 'u) msg_engine" where
  "msgOffSendComplete n = upd (\<lambda>m. m\<lparr>mSendComplete := AList.delete n (mSendComplete m)\<rparr>)"

definition msgOffSendError :: "nat \<Rightarrow> ('s, 'u) msg_engine \<Rightarrow> ('s, 'u) msg_engine" where
  "msgOffSendError n = upd (\<lambda>m. m\<lparr>mSendError := AList.delete n (mSendError m)\<rparr>)"

text \<open>
  The interceptors and listeners, in the order of the association list; Go iterates over the
  map in no fixed order.
\<close>

definition notifySendComplete :: "Envelope \<Rightarrow> string \<Rightarrow> ('s, 'u) msg_engine \<Rightarrow> string \<times> ('s, 'u) msg_engine" where
  "notifySendComplete env response s =
     (case fold (\<lambda>fn (r, u). fn env r u) (map snd (mSendComplete (hookState s))) (response, mUser (hookState s)) of
        (r, u) \<Rightarrow> (r, upd (\<lambda>m. m\<lparr>mUser := u\<rparr>) s))"

definition notifySendError :: "Envelope \<Rightarrow> error \<Rightarrow> ('s, 'u) msg_engine \<Rightarrow> error option \<times> ('s, 'u) msg_engine" where
  "notifySendError env err s =
     (case fold (\<lambda>fn (r, u). fn env r u) (map snd (mSendError (hookState s))) (Some err, mUser (hookState s)) of
        (r, u) \<Rightarrow> (r, upd (\<lambda>m. m\<lparr>mUser := u\<rparr>) s))"

definition notifyMessageListeners :: "Envelope \<Rightarrow> ('s, 'u) msg_engine \<Rightarrow> ('s, 'u) msg_engine" where
  "notifyMessageListeners env =
     upd (\<lambda>m. m\<lparr>mUser := fold (\<lambda>fn u. fn env u) (map snd (mListeners m)) (mUser m)\<rparr>)"

section \<open>Receiving\<close>

definition sendResponse ::
  "'s Store \<Rightarrow> string \<Rightarrow> string \<Rightarrow> string \<Rightarrow> ('s, 'u) msg_engine \<Rightarrow> (unit, ('s, 'u) msg_engine) outcome" where
  "sendResponse S messageID dat errMsg s =
     (case time_now s of (now, s) \<Rightarrow>
        let env = \<lparr>envMessageID = messageID, envSenderID = mID (hookState s), envType = [], envData = dat,
                   envError = errMsg, envCreatedAt = now\<rparr>
        in SetItem S ''msg'' (resKey messageID) (marshal_env env) s)"

definition removePending :: "string \<Rightarrow> ('s, 'u) msg_engine \<Rightarrow> ('s, 'u) msg_engine" where
  "removePending messageID = upd (\<lambda>m. m\<lparr>mPending := removeAll messageID (mPending m)\<rparr>)"

definition onSyncUpdate :: "'s Store \<Rightarrow> SyncStoreItem \<Rightarrow> ('s, 'u) msg_engine \<Rightarrow> ('s, 'u) msg_engine" where
  "onSyncUpdate S item s =
     (let key = Key item;
          myPrefix = reqPrefix @ mID (hookState s) @ ''%''
      in if length key > length myPrefix \<and> take (length myPrefix) key = myPrefix then
           (case unmarshal_env (Value item) of
              None \<Rightarrow> s
            | Some env \<Rightarrow>
                (let s = notifyMessageListeners env s
                 in (case map_of (mHandlers (hookState s)) (envType env) of
                       None \<Rightarrow> snd (sendResponse S (envMessageID env) [] ''unsupported message type'' s)
                     | Some handler \<Rightarrow>
                         (case handler env (mUser (hookState s)) of ((responseData, err), u) \<Rightarrow>
                            let s = upd (\<lambda>m. m\<lparr>mUser := u\<rparr>) s;
                                errMsg = (case err of None \<Rightarrow> [] | Some e \<Rightarrow> e)
                            in snd (sendResponse S (envMessageID env) responseData errMsg s)))))
         else if length key > length resPrefix \<and> take (length resPrefix) key = resPrefix then
           (case unmarshal_env (Value item) of
              None \<Rightarrow> s
            | Some env \<Rightarrow>
                if envMessageID env \<in> set (mPending (hookState s))
                then upd (\<lambda>m. m\<lparr>mPending := removeAll (envMessageID env) (mPending m),
                       mChans := AList.update (envMessageID env) \<lparr>chBuf = Some env, chClosed = False\<rparr> (mChans m)\<rparr>) s
                else s)
         else s)"

text \<open>The listener at work on what the engine has notified.\<close>

partial_function (option) drain :: "'s Store \<Rightarrow> ('s, 'u) msg_engine \<Rightarrow> ('s, 'u) msg_engine option" where
  "drain S s =
     (case mLog (hookState s) of
        [] \<Rightarrow> Some s
      | item # rest \<Rightarrow> drain S (onSyncUpdate S item (upd (\<lambda>m. m\<lparr>mLog := rest\<rparr>) s)))"

definition msgSetItem ::
  "'s Store \<Rightarrow> string \<Rightarrow> string \<Rightarrow> string \<Rightarrow> ('s, 'u) msg_engine \<Rightarrow> (unit, ('s, 'u) msg_engine) outcome option" where
  "msgSetItem S app key value s =
     (case SetItem S app key value s of (r, s) \<Rightarrow> map_option (Pair r) (drain S s))"

fun msgSyncIn_items ::
  "'s Store \<Rightarrow> string \<Rightarrow> SyncStoreItem list \<Rightarrow> ('s, 'u) msg_engine \<Rightarrow> (unit, ('s, 'u) msg_engine) outcome option" where
  "msgSyncIn_items S peerID [] s = Some (Inr (), s)"
| "msgSyncIn_items S peerID (item # items) s =
     (case syncIn_items S peerID [item] s of (r, s) \<Rightarrow>
        (case drain S s of
           None \<Rightarrow> None
         | Some s \<Rightarrow> (case r of Inl e \<Rightarrow> Some (Inl e, s) | Inr _ \<Rightarrow> msgSyncIn_items S peerID items s)))"

section \<open>Sending\<close>

text \<open>\<open>Send\<close> up to the \<open>select\<close>; the result is the envelope it waits for.\<close>

definition msgSend ::
  "'s Store \<Rightarrow> string \<Rightarrow> string \<Rightarrow> string \<Rightarrow> ('s, 'u) msg_engine \<Rightarrow> (Envelope, ('s, 'u) msg_engine) outcome option" where
  "msgSend S targetID msgType dat s =
     (case uuid_new s of (messageID, s) \<Rightarrow>
        let s = upd (\<lambda>m. m\<lparr>mPending := messageID # mPending m,
                       mChans := AList.update messageID \<lparr>chBuf = None, chClosed = False\<rparr> (mChans m)\<rparr>) s
        in (case time_now s of (now, s) \<Rightarrow>
              let env = \<lparr>envMessageID = messageID, envSenderID = mID (hookState s), envType = msgType,
                         envData = dat, envError = [], envCreatedAt = now\<rparr>
              in (case msgSetItem S ''msg'' (reqKey targetID messageID) (marshal_env env) s of
                    None \<Rightarrow> None
                  | Some (Inl e, s) \<Rightarrow> Some (Inl e, removePending messageID s)
                  | Some (Inr _, s) \<Rightarrow> Some (Inr env, s))))"

text \<open>
  The \<open>select\<close>: \<open>None\<close> while neither case is ready; \<open>ctxErr\<close> is the error of a context that
  has ended.  When both are ready Go may take either; \<open>takeCtx\<close> says which.
\<close>

definition send_failed :: "Envelope \<Rightarrow> error \<Rightarrow> ('s, 'u) msg_engine \<Rightarrow> (string, ('s, 'u) msg_engine) outcome" where
  "send_failed env err s =
     (case notifySendError env err s of (None, s) \<Rightarrow> (Inr [], s) | (Some e, s) \<Rightarrow> (Inl e, s))"

definition msgAwait ::
  "Envelope \<Rightarrow> error option \<Rightarrow> bool \<Rightarrow> ('s, 'u) msg_engine \<Rightarrow> (string, ('s, 'u) msg_engine) outcome option" where
  "msgAwait env ctxErr takeCtx s =
     (let fromCtx = map_option (\<lambda>e. send_failed env e (removePending (envMessageID env) s)) ctxErr;
          fromCh = (case map_of (mChans (hookState s)) (envMessageID env) of
              None \<Rightarrow> None
            | Some ch \<Rightarrow>
                (case chBuf ch of
                   Some resp \<Rightarrow>
                     Some (if envError resp \<noteq> [] then send_failed env (Errorf (envError resp)) s
                           else (case notifySendComplete env (envData resp) s of (dat, s) \<Rightarrow> (Inr dat, s)))
                 | None \<Rightarrow> if chClosed ch then Some (send_failed env (Errorf ''store closed'') s) else None))
      in if takeCtx \<and> fromCtx \<noteq> None then fromCtx else if fromCh \<noteq> None then fromCh else fromCtx)"

section \<open>Garbage collection\<close>

fun msg_gc_pairs ::
  "'s Store \<Rightarrow> int \<Rightarrow> KeyValuePair list \<Rightarrow> ('s, 'u) msg_engine \<Rightarrow> ('s, 'u) msg_engine option" where
  "msg_gc_pairs S cutoff [] s = Some s"
| "msg_gc_pairs S cutoff (p # ps) s =
     (case unmarshal_env (kvValue p) of
        None \<Rightarrow> msg_gc_pairs S cutoff ps s
      | Some env \<Rightarrow>
          if envCreatedAt env \<noteq> 0 \<and> envCreatedAt env < cutoff
          then (case drain S (snd (DeleteSync S (kvKey p) s)) of
                  None \<Rightarrow> None | Some s \<Rightarrow> msg_gc_pairs S cutoff ps s)
          else msg_gc_pairs S cutoff ps s)"

fun msg_gc_prefixes ::
  "'s Store \<Rightarrow> int \<Rightarrow> string list \<Rightarrow> ('s, 'u) msg_engine \<Rightarrow> ('s, 'u) msg_engine option" where
  "msg_gc_prefixes S cutoff [] s = Some s"
| "msg_gc_prefixes S cutoff (pfx # pfxs) s =
     (case ListSync S \<lparr>Prefix = pfx, StartAfter = [], Limit = 0\<rparr> s of
        None \<Rightarrow> None
      | Some (Inl e, s) \<Rightarrow> msg_gc_prefixes S cutoff pfxs s
      | Some (Inr pairs, s) \<Rightarrow>
          (case msg_gc_pairs S cutoff pairs s of None \<Rightarrow> None | Some s \<Rightarrow> msg_gc_prefixes S cutoff pfxs s))"

definition msg_gc :: "'s Store \<Rightarrow> ('s, 'u) msg_engine \<Rightarrow> ('s, 'u) msg_engine option" where
  "msg_gc S s =
     (case time_now s of (now, s) \<Rightarrow>
        msg_gc_prefixes S (i64 (now - mGcTTL (hookState s))) [reqPrefix, resPrefix] s)"

section \<open>What a write leaves of the UUID source\<close>

lemma call_uuids: "call f s = (r, s') \<Longrightarrow> uuidsUsed s' = uuidsUsed s"
  by (auto simp: call_def)

lemma uuids_kept [simp]:
  "uuidsUsed (call_ignore f s) = uuidsUsed s" "uuidsUsed (offerGC r s) = uuidsUsed s"
  "uuidsUsed (notifyListeners it s) = uuidsUsed s"
  by (simp_all add: call_ignore_def call_def offerGC_def notifyListeners_def)

lemma setItem_write_uuids: "uuidsUsed (snd (setItem_write S it wt (Some notifyListeners) s)) = uuidsUsed s"
  unfolding setItem_write_def Let_def time_now_def
  by (auto split: prod.split sum.split dest!: call_uuids)

context kv_store
begin

lemma setItem_uuids:
  assumes "inv (store s)" and "decodable (abs (store s))"
  shows "uuidsUsed (snd (setItem S it (Some notifyListeners) s)) = uuidsUsed s"
proof -
  let ?s = "s\<lparr>ticks := Suc (Suc (ticks s))\<rparr>"
  obtain t where t: "getItem S (Key it) ?s = (view_result (view (abs (store s)) (Key it)), t)" "reads inv abs ?s t"
    using getItem_spec [of ?s "Key it"] assms by auto
  have "uuidsUsed t = uuidsUsed s" using reads_fields(15) [OF t(2)] by simp
  then show ?thesis
    using t(1) by (auto simp: setItem_def Let_def time_now_def view_result_def setItem_write_uuids split: option.splits)
qed

end

section \<open>One write of a node\<close>

text \<open>
  A node that exchanges messages: the engine is well formed, has no filters or hooks, its only
  listener is that of the \<open>StoreMessage\<close>, all notifications have been handled, its clock
  does not jump, and its UUIDs are what UUIDs are.
\<close>

definition msg_node :: "('s \<Rightarrow> bool) \<Rightarrow> ('s \<Rightarrow> (string \<rightharpoonup> string)) \<Rightarrow> ('s, 'u) msg_engine \<Rightarrow> bool" where
  "msg_node I A s \<longleftrightarrow> I (store s) \<and> wf (A (store s)) \<and> preSetItems s = [] \<and> syncInFilters s = [] \<and>
     (\<exists>n. listeners s = [(n, logItem)]) \<and> mLog (hookState s) = [] \<and> steady s \<and>
     (\<forall>n k. n \<le> k \<longrightarrow> clock s n \<le> i64 (clock s k + timeOffset s + maxClockSkew s)) \<and>
     (\<forall>n. in_i64 (clock s n)) \<and> (\<forall>n. utf8_valid (uuids s n) \<and> CHR ''%'' \<notin> set (uuids s n))"

definition cleared :: "('s, 'u) msg_engine \<Rightarrow> ('s, 'u) msg_engine" where
  "cleared = upd (\<lambda>m. m\<lparr>mLog := []\<rparr>)"

lemma upd_simps [simp]:
  "hookState (upd f s) = f (hookState s)" "store (upd f s) = store s" "clock (upd f s) = clock s" "uuids (upd f s) = uuids s"
  "uuidsUsed (upd f s) = uuidsUsed s" "ticks (upd f s) = ticks s" "timeOffset (upd f s) = timeOffset s"
  "maxClockSkew (upd f s) = maxClockSkew s" "preSetItems (upd f s) = preSetItems s"
  by (simp_all add: upd_def)

lemma msg_node_upd [simp]: "msg_node I A (upd f s) \<longleftrightarrow> msg_node I A (s\<lparr>hookState := f (hookState s)\<rparr>)"
  by (simp add: upd_def)

lemma msg_node_hook:
  "msg_node I A s \<Longrightarrow> mLog m = [] \<Longrightarrow> msg_node I A (s\<lparr>hookState := m\<rparr>)"
  by (simp add: msg_node_def steady_def)

lemma msg_node_tick: "msg_node I A s \<Longrightarrow> msg_node I A (s\<lparr>ticks := t\<rparr>)"
  by (simp add: msg_node_def steady_def)

lemma msg_node_evolves:
  assumes "msg_node I A s" and "evolves I A m s s'" and "wf m" and "mLog x = []"
  shows "msg_node I A (s'\<lparr>hookState := x\<rparr>)"
  using assms evolves_store [OF assms(2)] evolves_config [OF assms(2)] by (simp add: msg_node_def steady_def)

text \<open>Fresh IDs stay fresh when another item is stored.\<close>

lemma fresh_id_puts:
  assumes "fresh_id m u" and "u \<noteq> ID w" and "CHR ''%'' \<notin> set u" and "CHR ''%'' \<notin> set (ID w)" and "nul_free (Key w)"
  shows "fresh_id (puts m w) u"
proof -
  have "u @ CHR ''%'' # k \<noteq> ID w @ CHR ''%'' # k'" for k k'
    using split_at_percent [OF assms(3,4)] assms(2) by blast
  then show ?thesis
    using assms by (auto simp: fresh_id_def puts_entry) (auto simp: puts_def key_simps QueueID_inject)
qed

context kv_store
begin

lemma setItem_node:
  assumes "msg_node inv abs s" and "fresh_id (abs (store s)) (ID it)" and "nul_free (Key it)" and "valid_item it"
    and "dated s it" and "view (abs (store s)) (Key it) = None"
  defines "w \<equiv> it\<lparr>WriteTimestamp := write_time s\<rparr>"
  obtains s' where "setItem S it (Some notifyListeners) s = (Inr (), s')"
    "evolves inv abs (puts (abs (store s)) w) s s'" "hookState s' = logItem w (hookState s)"
    "wf (puts (abs (store s)) w)" "writable (abs (store s)) w"
proof -
  let ?m = "abs (store s)"
  have n: "inv (store s)" "wf ?m" "preSetItems s = []" "steady s" using assms(1) by (auto simp: msg_node_def)
  obtain l where l: "listeners s = [(l, logItem)]" using assms(1) by (auto simp: msg_node_def)
  have wr: "writable ?m w"
    using assms(2-4) write_time_range [of s] id_ok_fresh by (auto simp: writable_def w_def valid_item_def id_ok_def)
  have ww: "written s it (write_time s) = w" using written_no_hooks [OF n(3)] by (simp add: w_def)
  have a: "setItem_abs s it ?m = (Inr (), puts ?m w)"
    using setItem_abs_accepts [OF n(4) assms(5), of ?m] assms(6) ww
    by (auto simp: setItem_abs_def Let_def blocked_def split: if_splits)
  obtain s' where "setItem S it (Some notifyListeners) s = (Inr (), s')" "evolves inv abs (puts ?m w) s s'"
      "hookState s' = fold (\<lambda>fn. fn w) (map snd (listeners s)) (hookState s)"
    using setItem_spec [OF n(1) wf_decodable [OF n(2)], of it] n(3) a ww by auto
  then show thesis using that l wf_puts [OF n(2) wr] wr by simp
qed

lemma SetItem_node:
  assumes node: "msg_node inv abs s" and fresh: "fresh_id (abs (store s)) (uuids s (uuidsUsed s))"
    and "nul_free key" and "utf8_valid key" and "utf8_valid app" and "utf8_valid value"
    and "view (abs (store s)) key = None"
  defines "w \<equiv> (fresh_item app key value s)\<lparr>WriteTimestamp := write_time (stamped s)\<rparr>"
  obtains s' where "SetItem S app key value s = (Inr (), s')"
    "evolves inv abs (puts (abs (store s)) w) s s'" "hookState s' = logItem w (hookState s)"
    "wf (puts (abs (store s)) w)" "writable (abs (store s)) w"
proof -
  let ?it = "fresh_item app key value s" and ?s = "stamped s"
  have st: "msg_node inv abs ?s" using node by (simp add: stamped_def msg_node_def steady_def)
  have v: "valid_item ?it"
    using assms(4-6) node by (auto simp: valid_item_def fresh_item_def zeroItem_def msg_node_def in_i64_def)
  have i: "inv (store s)" "wf (abs (store s))" "preSetItems s = []" using node by (auto simp: msg_node_def)
  obtain l where l: "listeners s = [(l, logItem)]" using node by (auto simp: msg_node_def)
  have wr: "writable (abs (store s)) w"
    using fresh assms(3) v write_time_range [of ?s] id_ok_fresh [of _ ?it]
    by (auto simp: writable_def w_def valid_item_def id_ok_def)
  have ww: "written ?s ?it (write_time ?s) = w"
    using written_no_hooks [of ?s] i(3) by (simp add: w_def)
  have t: "clock s (ticks s) \<le> i64 (clock s (Suc (ticks s)) + timeOffset s + maxClockSkew s)"
    "clock s (Suc (Suc (Suc (ticks s)))) \<le> write_time ?s"
    using node by (auto simp: msg_node_def steady_def write_time_def stamped_def)
  have a: "setItem_abs ?s ?it (abs (store s)) = (Inr (), puts (abs (store s)) w)"
    using t assms(7) ww by (simp add: setItem_abs_def Let_def blocked_def stamped_def not_less)
  obtain s' where s': "setItem S ?it (Some notifyListeners) ?s = (Inr (), s')" "evolves inv abs (puts (abs (store s)) w) ?s s'"
      "hookState s' = fold (\<lambda>fn. fn w) (map snd (listeners ?s)) (hookState ?s)"
    using setItem_spec [of ?s ?it] i wf_decodable [OF i(2)] a ww by auto
  have "SetItem S app key value s = (Inr (), s')"
    using s'(1) by (simp add: SetItem_def time_now_def uuid_new_def stamped_def fresh_item_def)
  then show thesis
    using that s'(3) l evolves_trans [OF evolves_stamped [of inv, OF i(1)] s'(2)] wf_puts [OF i(2) wr] wr by simp
qed

end

section \<open>The listener\<close>

lemma drain_Nil: "mLog (hookState s) = [] \<Longrightarrow> drain S s = Some s"
  by (simp add: drain.simps)

lemma drain_Cons:
  "mLog (hookState s) = item # rest \<Longrightarrow> drain S s = drain S (onSyncUpdate S item (upd (\<lambda>m. m\<lparr>mLog := rest\<rparr>) s))"
  by (subst drain.simps) simp

lemma resKey_not_request: "take (length (reqPrefix @ x)) (resKey mid) \<noteq> reqPrefix @ x"
proof
  assume "take (length (reqPrefix @ x)) (resKey mid) = reqPrefix @ x"
  then have "prefix reqPrefix (resKey mid)" by (metis append_prefixD take_is_prefix)
  then show False by (simp add: reqPrefix_def resKey_def)
qed

text \<open>What a node answers: response data, error text, and the variables of the application afterwards.\<close>

definition answer :: "'u StoreMessage \<Rightarrow> Envelope \<Rightarrow> string \<times> string \<times> 'u" where
  "answer m env =
     (let u = fold (\<lambda>fn u. fn env u) (map snd (mListeners m)) (mUser m)
      in case map_of (mHandlers m) (envType env) of
           None \<Rightarrow> ([], ''unsupported message type'', u)
         | Some h \<Rightarrow> (case h env u of ((d, e), u) \<Rightarrow> (d, case e of None \<Rightarrow> [] | Some x \<Rightarrow> x, u)))"

lemma onSyncUpdate_request:
  assumes "Key item = reqKey (mID (hookState s)) mid" and "mid \<noteq> []"
    and "unmarshal_env (Value item) = Some env" and "answer (hookState s) env = (d, e, u)"
  shows "onSyncUpdate S item s = snd (sendResponse S (envMessageID env) d e (upd (\<lambda>m. m\<lparr>mUser := u\<rparr>) s))"
proof -
  let ?p = "reqPrefix @ mID (hookState s) @ ''%''"
  have k: "Key item = ?p @ mid" using assms(1) by (simp add: reqKey_def reqPrefix_def)
  then have "length (Key item) > length ?p \<and> take (length ?p) (Key item) = ?p" using assms(2) by simp
  then show ?thesis
    using assms(3,4)
    by (auto simp: onSyncUpdate_def Let_def answer_def notifyMessageListeners_def upd_def
        split: option.splits prod.splits)
qed

lemma onSyncUpdate_response:
  assumes "Key item = resKey mid" and "mid \<noteq> []" and "unmarshal_env (Value item) = Some env"
  shows "onSyncUpdate S item s =
    (if envMessageID env \<in> set (mPending (hookState s))
     then upd (\<lambda>m. m\<lparr>mPending := removeAll (envMessageID env) (mPending m),
       mChans := AList.update (envMessageID env) \<lparr>chBuf = Some env, chClosed = False\<rparr> (mChans m)\<rparr>) s
     else s)"
proof -
  have "length (Key item) > length resPrefix \<and> take (length resPrefix) (Key item) = resPrefix"
    using assms(1,2) by (simp add: resKey_def resPrefix_def)
  moreover have "take (length (reqPrefix @ mID (hookState s) @ ''%'')) (Key item) \<noteq> reqPrefix @ mID (hookState s) @ ''%''"
    using resKey_not_request assms(1) by metis
  ultimately show ?thesis using assms(3) by (simp add: onSyncUpdate_def Let_def)
qed

lemma syncIn_one: "syncInFilters s = [] \<Longrightarrow> setItem S it (Some notifyListeners) s = (Inr (), s') \<Longrightarrow>
    syncIn_items S peer [it] s = (Inr (), s')"
  by simp

context kv_store
begin

lemma accept_response:
  assumes node: "msg_node inv abs s" and "Key w = resKey mid" and "mid \<noteq> []" and "unmarshal_env (Value w) = Some env"
    and "envMessageID env = mid" and "mid \<in> set (mPending (hookState s))"
    and "fresh_id (abs (store s)) (ID w)" and "nul_free (Key w)" and "valid_item w" and "dated s w"
    and "view (abs (store s)) (Key w) = None"
  obtains s' where "msgSyncIn_items S peer [w] s = Some (Inr (), s')"
    "map_of (mChans (hookState s')) mid = Some \<lparr>chBuf = Some env, chClosed = False\<rparr>"
    "mSendComplete (hookState s') = mSendComplete (hookState s)" "mSendError (hookState s') = mSendError (hookState s)"
proof -
  let ?w = "w\<lparr>WriteTimestamp := write_time s\<rparr>"
  obtain s1 where s1: "setItem S w (Some notifyListeners) s = (Inr (), s1)" "hookState s1 = logItem ?w (hookState s)"
    using setItem_node [OF node assms(7-11)] by blast
  define s2 where "s2 = upd (\<lambda>m. m\<lparr>mLog := []\<rparr>) s1"
  have node0: "mLog (hookState s) = []" "syncInFilters s = []" using node by (auto simp: msg_node_def)
  have h2: "hookState s2 = hookState s" using s1(2) node0 by (simp add: s2_def logItem_def)
  define s3 where "s3 = upd (\<lambda>m. m\<lparr>mPending := removeAll mid (mPending m),
       mChans := AList.update mid \<lparr>chBuf = Some env, chClosed = False\<rparr> (mChans m)\<rparr>) s2"
  have "onSyncUpdate S ?w s2 = s3"
    using onSyncUpdate_response [of ?w mid env S s2] assms(2-6) h2 by (simp add: s3_def)
  then have "drain S s1 = drain S s3"
    using drain_Cons [of s1 ?w "[]"] s1(2) node0 by (simp add: s2_def logItem_def)
  also have "\<dots> = Some s3" using h2 node0 by (intro drain_Nil) (simp add: s3_def)
  finally have "msgSyncIn_items S peer [w] s = Some (Inr (), s3)"
    using syncIn_one [OF node0(2) s1(1), of peer] by (simp del: syncIn_items.simps)
  then show thesis using that h2 by (auto simp: s3_def update_conv')
qed

lemma sendResponse_node:
  assumes node: "msg_node inv abs s" and "fresh_id (abs (store s)) (uuids s (uuidsUsed s))"
    and "nul_free mid" and "utf8_valid mid" and "utf8_valid d" and "utf8_valid e" and "utf8_valid (mID (hookState s))"
    and "view (abs (store s)) (resKey mid) = None"
  obtains s' w env where "sendResponse S mid d e s = (Inr (), s')"
    "evolves inv abs (puts (abs (store s)) w) s s'" "hookState s' = logItem w (hookState s)"
    "wf (puts (abs (store s)) w)" "writable (abs (store s)) w" "Key w = resKey mid" "ID w = uuids s (uuidsUsed s)"
    "\<exists>t. Timestamp w = clock s t" "unmarshal_env (Value w) = Some env" "envMessageID env = mid" "envData env = d"
    "envError env = e" "Deleted w = False"
proof -
  let ?s = "s\<lparr>ticks := Suc (ticks s)\<rparr>"
  define env where "env = \<lparr>envMessageID = mid, envSenderID = mID (hookState s), envType = [], envData = d,
      envError = e, envCreatedAt = clock s (ticks s)\<rparr>"
  have n: "msg_node inv abs ?s" using msg_node_tick [OF node] .
  have v: "unmarshal_env (marshal_env env) = Some env"
    using assms(4-7) node by (intro env_round_trip) (simp add: valid_env_def env_def msg_node_def)
  have "jwf (env_json env)" by (simp add: env_json_def omitempty_def)
  then have u: "utf8_valid (marshal_env env)" by (simp add: marshal_env_def utf8_valid_jprint)
  have k: "nul_free (resKey mid)" "utf8_valid (resKey mid)" "utf8_valid ''msg''"
    using assms(3,4) utf8_valid_append [of "''%msg%res%''" mid]
    by (simp_all add: resKey_def nul_free_def utf8_valid_ascii)
  define w where "w = (fresh_item ''msg'' (resKey mid) (marshal_env env) ?s)\<lparr>WriteTimestamp := write_time (stamped ?s)\<rparr>"
  have w: "Key w = resKey mid" "ID w = uuids s (uuidsUsed s)" "Timestamp w = clock s (Suc (ticks s))"
      "Value w = marshal_env env" "Deleted w = False"
    by (simp_all add: w_def fresh_item_def zeroItem_def)
  obtain s' where s': "SetItem S ''msg'' (resKey mid) (marshal_env env) ?s = (Inr (), s')"
      "evolves inv abs (puts (abs (store s)) w) ?s s'" "hookState s' = logItem w (hookState s)"
      "wf (puts (abs (store s)) w)" "writable (abs (store s)) w"
    using SetItem_node [OF n _ k(1,2,3) u] assms(2,8) unfolding w_def by auto
  have r: "sendResponse S mid d e s = (Inr (), s')"
    using s'(1) by (simp add: sendResponse_def time_now_def env_def)
  have i: "inv (store s)" using node by (simp add: msg_node_def)
  show thesis
    by (rule that [of s' w env, OF r evolves_trans [OF evolves_tick [of inv, OF i] s'(2)] s'(3-5) w(1,2)])
      (use w v in \<open>auto simp: env_def\<close>)
qed

text \<open>A node that receives a request: the handler runs and its answer is stored under the response key.\<close>

lemma serve_request:
  assumes node: "msg_node inv abs s" and req: "Key req = reqKey (mID (hookState s)) mid" "mid \<noteq> []"
      "Value req = marshal_env env" "valid_env env" "envMessageID env = mid"
    and names: "nul_free (mID (hookState s))" "nul_free mid" "utf8_valid (mID (hookState s))"
    and item: "valid_item req" "dated s req" "fresh_id (abs (store s)) (ID req)" "CHR ''%'' \<notin> set (ID req)"
      "view (abs (store s)) (Key req) = None"
    and ans: "answer (hookState s) env = (d, e, u)" "utf8_valid d" "utf8_valid e"
    and res: "view (abs (store s)) (resKey mid) = None" "fresh_id (abs (store s)) (uuids s (uuidsUsed s))"
      "uuids s (uuidsUsed s) \<noteq> ID req" "mid \<notin> set (mPending (hookState s))"
  obtains s' w env' where "msgSyncIn_items S peer [req] s = Some (Inr (), s')" "mUser (hookState s') = u"
    "view (abs (store s')) (resKey mid) = Some w" "Key w = resKey mid" "ID w = uuids s (uuidsUsed s)" "valid_item w"
    "\<exists>t. Timestamp w = clock s t" "unmarshal_env (Value w) = Some env'" "envMessageID env' = mid"
    "envData env' = d" "envError env' = e"
proof -
  let ?m = "abs (store s)" and ?w = "req\<lparr>WriteTimestamp := write_time s\<rparr>"
  have kr: "nul_free (Key req)" using req(1) names by (simp add: reqKey_def nul_free_def)
  obtain s1 where s1: "setItem S req (Some notifyListeners) s = (Inr (), s1)" "evolves inv abs (puts ?m ?w) s s1"
      "hookState s1 = logItem ?w (hookState s)" "wf (puts ?m ?w)" "writable ?m ?w"
    using setItem_node [OF node item(3) kr item(1,2,5)] .
  have node0: "mLog (hookState s) = []" "syncInFilters s = []" "wf ?m" "utf8_valid (uuids s n)" "CHR ''%'' \<notin> set (uuids s n)" for n
    using node by (auto simp: msg_node_def)
  define s2 where "s2 = s1\<lparr>hookState := (hookState s)\<lparr>mUser := u\<rparr>\<rparr>"
  have n2: "msg_node inv abs s2"
    using msg_node_evolves [OF node s1(2,4)] node0(1) by (simp add: s2_def)
  have c2: "abs (store s2) = puts ?m ?w" "uuids s2 = uuids s" "clock s2 = clock s" "mID (hookState s2) = mID (hookState s)"
    using evolves_store(2) [OF s1(2)] evolves_config [OF s1(2)] by (simp_all add: s2_def)
  have used: "uuidsUsed s2 = uuidsUsed s"
    using setItem_uuids [of s req] node s1(1) wf_decodable [OF node0(3)] by (simp add: s2_def msg_node_def)
  have mid: "utf8_valid mid" using req(4,5) by (simp add: valid_env_def)
  have keys: "nul_free (resKey mid)" "resKey mid \<noteq> Key req"
    using names req(1) by (auto simp: resKey_def reqKey_def nul_free_def)
  have fr: "fresh_id (abs (store s2)) (uuids s2 (uuidsUsed s2))"
    unfolding c2 used using fresh_id_puts [OF res(2), of ?w] res(3) node0(5) item(4) kr by simp
  have vw: "view (abs (store s2)) (resKey mid) = None"
    unfolding c2 using view_puts [OF node0(3) s1(5) keys(1)] item(5) keys(2) res(1) by auto
  obtain s3 w env' where s3: "sendResponse S mid d e s2 = (Inr (), s3)" "evolves inv abs (puts (abs (store s2)) w) s2 s3"
      "hookState s3 = logItem w (hookState s2)" "wf (puts (abs (store s2)) w)" "writable (abs (store s2)) w"
      "Key w = resKey mid" "ID w = uuids s2 (uuidsUsed s2)" "\<exists>t. Timestamp w = clock s2 t"
      "unmarshal_env (Value w) = Some env'" "envMessageID env' = mid" "envData env' = d" "envError env' = e" "Deleted w = False"
    using sendResponse_node [OF n2 fr names(2) mid ans(2,3) names(3) [folded c2(4)] vw] .
  define s4 where "s4 = upd (\<lambda>m. m\<lparr>mLog := []\<rparr>) s3"
  have h4: "hookState s4 = (hookState s)\<lparr>mUser := u\<rparr>"
    using s3(3) node0(1) by (simp add: s4_def s2_def logItem_def)
  have "onSyncUpdate S ?w (upd (\<lambda>m. m\<lparr>mLog := []\<rparr>) s1) = snd (sendResponse S mid d e s2)"
  proof -
    have h: "hookState (upd (\<lambda>m. m\<lparr>mLog := []\<rparr>) s1) = hookState s" using s1(3) node0(1) by (simp add: logItem_def)
    have "unmarshal_env (Value ?w) = Some env" using req(3) env_round_trip [OF req(4)] by simp
    moreover have "upd (\<lambda>m. m\<lparr>mUser := u\<rparr>) (upd (\<lambda>m. m\<lparr>mLog := []\<rparr>) s1) = s2"
      using h by (simp add: upd_def s2_def)
    ultimately show ?thesis
      using onSyncUpdate_request [of ?w "upd (\<lambda>m. m\<lparr>mLog := []\<rparr>) s1" mid env d e u S] req(1,2,5) ans(1) h
        s1(3) by (simp add: logItem_def)
  qed
  then have "drain S s1 = drain S s3"
    using drain_Cons [of s1 ?w "[]" S] s1(3) node0(1) s3(1) by (simp add: logItem_def)
  also have "\<dots> = drain S s4"
    using drain_Cons [of s3 w "[]" S] onSyncUpdate_response [of w mid env' S s4] s3(3,6,9,10) req(2) node0(1) res(4) h4
    by (simp add: logItem_def s2_def s4_def)
  also have "\<dots> = Some s4" using h4 node0(1) by (intro drain_Nil) simp
  finally have run: "msgSyncIn_items S peer [req] s = Some (Inr (), s4)"
    using syncIn_one [OF node0(2) s1(1), of peer] by (simp del: syncIn_items.simps)
  have "view (abs (store s4)) (resKey mid) = Some w"
    using view_puts [OF s1(4) s3(5) [unfolded c2] keys(1)] s3(6) vw evolves_store(2) [OF s3(2)] c2(1)
    by (simp add: s4_def)
  moreover have "valid_item w" using s3(5) by (simp add: writable_def)
  ultimately show thesis
    using that [of s4 w env'] run h4 s3(6-12) c2 used by simp
qed

end

section \<open>Two concrete nodes\<close>

definition pingEnv :: Envelope where
  "pingEnv = \<lparr>envMessageID = ''m1'', envSenderID = ''a'', envType = ''ping'', envData = ''hello'', envError = [],
     envCreatedAt = 1700000000000000000\<rparr>"

definition pingNode :: "string \<Rightarrow> (StoreMemory, unit) msg_engine" where
  "pingNode nid = msgHandle ''ping'' (\<lambda>env u. ((envData env @ ''!'', None), u))
     (NewMessage nid [] () (NewSync NewMemory [] (emptyMessage [] ()) (\<lambda>n. 1700000000000000000) (\<lambda>n. CHR ''u'' # nid @ dec n)))"

definition pingSender :: "(StoreMemory, unit) msg_engine" where
  "pingSender = upd (\<lambda>m. m\<lparr>mPending := [''m1''], mChans := [(''m1'', \<lparr>chBuf = None, chClosed = False\<rparr>)]\<rparr>) (pingNode ''a'')"

definition pingItem :: SyncStoreItem where
  "pingItem = zeroItem\<lparr>App := ''msg'', Key := reqKey ''b'' ''m1'', Value := marshal_env pingEnv,
     Timestamp := 1700000000000000000, ID := ''i1''\<rparr>"

lemma pingNode_simps [simp]:
  "store (pingNode nid) = NewMemory" "uuids (pingNode nid) n = CHR ''u'' # nid @ dec n" "uuidsUsed (pingNode nid) = 0"
  "clock (pingNode nid) n = 1700000000000000000" "timeOffset (pingNode nid) = 10000000000"
  "maxClockSkew (pingNode nid) = 300000000000" "mID (hookState (pingNode nid)) = nid"
  "mPending (hookState (pingNode nid)) = []" "mSendComplete (hookState (pingNode nid)) = []"
  "mSendError (hookState (pingNode nid)) = []"
  by (simp_all add: pingNode_def msgHandle_def NewMessage_def emptyMessage_def Let_def OnUpdate_def NewSync_def NewWithOptions_def
      WithTimeOffset_def MaxClockSkew_def)

lemma utf8_valid_dec: "utf8_valid (dec n)"
proof (rule utf8_valid_ascii)
  show "list_all (\<lambda>c. ord c < 128) (dec n)"
  proof (induction n rule: dec.induct)
    case (1 n)
    have "n mod 10 < 10" by simp
    then have "n mod 10 < 80" by (rule less_trans) simp
    then show ?case using 1 by (subst dec.simps) (simp add: digit_def)
  qed
qed

lemma ping_node:
  assumes "utf8_valid nid" and "CHR ''%'' \<notin> set nid"
  shows "msg_node mem_inv mem_abs (pingNode nid)"
proof -
  have u: "utf8_valid (CHR ''u'' # nid @ dec n)" for n
    using assms(1) utf8_valid_append [of nid "dec n"] by (intro utf8_valid_Cons) (simp_all add: utf8_valid_dec)
  have "preSetItems (pingNode nid) = []" "syncInFilters (pingNode nid) = []" "mLog (hookState (pingNode nid)) = []"
    "\<exists>n. listeners (pingNode nid) = [(n, logItem)]"
    by (simp_all add: pingNode_def msgHandle_def NewMessage_def emptyMessage_def Let_def OnUpdate_def NewSync_def NewWithOptions_def
        WithTimeOffset_def upd_def)
  then show ?thesis
    using assms(2) u blank_store by (simp add: msg_node_def steady_def i64_def in_i64_def dec_no_percent)
qed

section \<open>Property\<close>

text \<open>C17. A request is answered.  When a peer delivers the request of a pending \<open>Send\<close> to its
  target, the target stores the answer of its handler (or "unsupported message type" when it
  has none) under the response key, and when that item is delivered back, the pending
  \<open>Send\<close> returns the data of the answer, or its error.  Both deliveries return: the listener,
  which itself writes to the engine, comes to an end.\<close>

theorem request_answered:
  assumes stores: "kv_store S I A" "kv_store T J B" and nodes: "msg_node I A a" "msg_node J B b"
    and req: "Key req = reqKey (mID (hookState b)) mid" "mid \<noteq> []" "Value req = marshal_env env" "valid_env env"
      "envMessageID env = mid"
    and names: "nul_free (mID (hookState b))" "nul_free mid" "utf8_valid (mID (hookState b))"
    and item: "valid_item req" "dated b req" "fresh_id (B (store b)) (ID req)" "CHR ''%'' \<notin> set (ID req)"
      "view (B (store b)) (Key req) = None"
    and ans: "answer (hookState b) env = (d, e, u)" "utf8_valid d" "utf8_valid e"
    and res: "view (B (store b)) (resKey mid) = None" "fresh_id (B (store b)) (uuids b (uuidsUsed b))"
      "uuids b (uuidsUsed b) \<noteq> ID req" "mid \<notin> set (mPending (hookState b))"
    and sender: "mid \<in> set (mPending (hookState a))" "view (A (store a)) (resKey mid) = None"
      "fresh_id (A (store a)) (uuids b (uuidsUsed b))" "mSendComplete (hookState a) = []" "mSendError (hookState a) = []"
    and clocks: "\<forall>t n. clock b t \<le> i64 (clock a n + timeOffset a + maxClockSkew a)"
  shows "\<exists>b' w a'. msgSyncIn_items T peer [req] b = Some (Inr (), b') \<and> mUser (hookState b') = u \<and>
    view (B (store b')) (resKey mid) = Some w \<and>
    msgSyncIn_items S peer' [w] a = Some (Inr (), a') \<and>
    map_option fst (msgAwait env None False a') = Some (if e = [] then Inr d else Inl (Errorf e))"
proof -
  obtain b' w env' where b': "msgSyncIn_items T peer [req] b = Some (Inr (), b')" "mUser (hookState b') = u"
    "view (B (store b')) (resKey mid) = Some w" "Key w = resKey mid" "ID w = uuids b (uuidsUsed b)" "valid_item w"
    "\<exists>t. Timestamp w = clock b t" "unmarshal_env (Value w) = Some env'" "envMessageID env' = mid"
    "envData env' = d" "envError env' = e"
    using kv_store.serve_request [OF stores(2) nodes(2) req names item ans res] .
  have k: "nul_free (Key w)" using b'(4) names(2) by (simp add: resKey_def nul_free_def)
  have dt: "dated a w" using b'(7) clocks by (auto simp: dated_def)
  obtain a' where a': "msgSyncIn_items S peer' [w] a = Some (Inr (), a')"
    "map_of (mChans (hookState a')) mid = Some \<lparr>chBuf = Some env', chClosed = False\<rparr>"
    "mSendComplete (hookState a') = mSendComplete (hookState a)" "mSendError (hookState a') = mSendError (hookState a)"
    using kv_store.accept_response [OF stores(1) nodes(1) b'(4) req(2) b'(8,9) sender(1) sender(3) [folded b'(5)] k b'(6) dt
        sender(2) [folded b'(4)]] .
  have "map_option fst (msgAwait env None False a') = Some (if e = [] then Inr d else Inl (Errorf e))"
    using a'(2-4) sender(4,5) req(5) b'(10,11)
    by (simp add: msgAwait_def Let_def send_failed_def notifySendError_def notifySendComplete_def)
  then show ?thesis using b'(1-3) a'(1) by blast
qed

theorem request_answered_witness:
  "\<exists>b' w a'. msgSyncIn_items memStore ''a'' [pingItem] (pingNode ''b'') = Some (Inr (), b') \<and>
    msgSyncIn_items memStore ''b'' [w] pingSender = Some (Inr (), a') \<and>
    map_option fst (msgAwait pingEnv None False a') = Some (Inr ''hello!'')"
proof -
  have u: "utf8_valid ''a''" "utf8_valid ''b''" "utf8_valid ''m1''" "utf8_valid ''i1''" "utf8_valid ''msg''"
      "utf8_valid ''ping''" "utf8_valid ''hello''" "utf8_valid ''hello!''" "utf8_valid (reqKey ''b'' ''m1'')"
    by (simp_all add: utf8_valid_ascii reqKey_def)
  have ev: "valid_env pingEnv" using u by (simp add: valid_env_def pingEnv_def in_i64_def)
  have a: "msg_node mem_inv mem_abs pingSender"
    unfolding pingSender_def msg_node_upd
    by (rule msg_node_hook [OF ping_node]) (use u ping_node [of "''a''"] in \<open>simp_all add: msg_node_def\<close>)
  have "jwf (env_json pingEnv)" by (simp add: env_json_def omitempty_def)
  then have it: "valid_item pingItem"
    using u by (simp add: pingItem_def zeroItem_def valid_item_def marshal_env_def utf8_valid_jprint in_i64_def)
  have an: "answer (hookState (pingNode ''b'')) pingEnv = (''hello!'', [], ())"
    by (simp add: answer_def pingNode_def msgHandle_def NewMessage_def emptyMessage_def Let_def OnUpdate_def pingEnv_def)
  have d: "dated (pingNode ''b'') pingItem" by (simp add: dated_def pingItem_def i64_def)
  show ?thesis
    using request_answered [OF mem.kv_store_axioms mem.kv_store_axioms a ping_node [OF u(2)], of pingItem "''m1''" pingEnv
        "''hello!''" "[]" "()" "''a''" "''b''"] u ev it an d
    by (auto simp: pingItem_def pingEnv_def pingSender_def blank_store nul_free_def zeroItem_def i64_def)
qed

end
