(* ===== verification/Base64.thy ===== *)
theory Base64
  imports Items
begin

text \<open>
  \<open>base64.StdEncoding\<close> of Go's standard library, which the sources use for signatures, keys and
  encrypted payloads: \<open>EncodeToString\<close> on bytes and \<open>DecodeString\<close>, which skips line breaks and
  wants the padding.  Decoding an encoding gives the bytes back, and an encoding is plain ASCII.
\<close>

section \<open>Model\<close>

definition b64_char :: "nat \<Rightarrow> char" where
  "b64_char n =
     (if n < 26 then char_of (65 + n) else if n < 52 then char_of (71 + n)
      else if n < 62 then char_of (n - 4) else if n = 62 then CHR ''+'' else CHR ''/'')"

definition b64_value :: "char \<Rightarrow> nat option" where
  "b64_value c =
     (if 65 \<le> ord c \<and> ord c \<le> 90 then Some (ord c - 65)
      else if 97 \<le> ord c \<and> ord c \<le> 122 then Some (ord c - 71)
      else if 48 \<le> ord c \<and> ord c \<le> 57 then Some (ord c + 4)
      else if c = CHR ''+'' then Some 62 else if c = CHR ''/'' then Some 63 else None)"

fun b64_encode :: "string \<Rightarrow> string" where
  "b64_encode [] = []"
| "b64_encode [a] = [b64_char (ord a div 4), b64_char (ord a mod 4 * 16), CHR ''='', CHR ''='']"
| "b64_encode [a, b] =
     [b64_char (ord a div 4), b64_char (ord a mod 4 * 16 + ord b div 16), b64_char (ord b mod 16 * 4), CHR ''='']"
| "b64_encode (a # b # c # s) =
     b64_char (ord a div 4) # b64_char (ord a mod 4 * 16 + ord b div 16) #
     b64_char (ord b mod 16 * 4 + ord c div 64) # b64_char (ord c mod 64) # b64_encode s"

text \<open>Groups of four characters; padding is allowed in the last group only.\<close>

fun b64_groups :: "string \<Rightarrow> string option" where
  "b64_groups [] = Some []"
| "b64_groups (p # q # r # s # rest) =
     (case (b64_value p, b64_value q) of
        (Some v, Some w) \<Rightarrow>
          if r = CHR ''='' \<and> s = CHR ''='' \<and> rest = [] then Some [char_of (v * 4 + w div 16)]
          else (case b64_value r of
                  None \<Rightarrow> None
                | Some x \<Rightarrow>
                    if s = CHR ''='' \<and> rest = []
                    then Some [char_of (v * 4 + w div 16), char_of (w mod 16 * 16 + x div 4)]
                    else (case b64_value s of
                            None \<Rightarrow> None
                          | Some y \<Rightarrow>
                              map_option (\<lambda>t. char_of (v * 4 + w div 16) # char_of (w mod 16 * 16 + x div 4) #
                                  char_of (x mod 4 * 64 + y) # t) (b64_groups rest)))
      | _ \<Rightarrow> None)"
| "b64_groups _ = None"

definition b64_decode :: "string \<Rightarrow> string option" where
  "b64_decode s = b64_groups (filter (\<lambda>c. c \<noteq> CHR 0x0A \<and> c \<noteq> CHR 0x0D) s)"

section \<open>Round trip\<close>

lemma b64_value_char: "n < 64 \<Longrightarrow> b64_value (b64_char n) = Some n"
proof -
  assume "n < 64"
  then consider "n < 26" | "26 \<le> n" "n < 52" | "52 \<le> n" "n < 62" | "n = 62" | "n = 63" by linarith
  then show ?thesis by cases (auto simp: b64_char_def b64_value_def)
qed

lemma b64_char_ascii: "n < 64 \<Longrightarrow> ord (b64_char n) < 128"
  by (auto simp: b64_char_def)

lemma b64_char_plain:
  assumes "n < 64"
  shows "b64_char n \<noteq> CHR ''=''" "b64_char n \<noteq> CHR 0x0A" "b64_char n \<noteq> CHR 0x0D"
proof -
  have "b64_value (b64_char n) \<noteq> None" using b64_value_char [OF assms] by simp
  then show "b64_char n \<noteq> CHR ''=''" "b64_char n \<noteq> CHR 0x0A" "b64_char n \<noteq> CHR 0x0D"
    by (auto simp: b64_value_def)
qed

lemma ord_less: "ord c < 256"
  using mod_less_divisor [of 256 "ord c"] of_char_mod_256 [of c, where ?'a = nat] by simp

text \<open>The six-bit fields of the encoding are in range, and the bytes are put together again.\<close>

lemma b64_fields:
  fixes a b c :: char
  shows "ord a div 4 < 64" "ord a mod 4 * 16 < 64" "ord a mod 4 * 16 + ord b div 16 < 64"
    "ord b mod 16 * 4 < 64" "ord b mod 16 * 4 + ord c div 64 < 64" "ord c mod 64 < 64"
proof -
  have "ord a < 256" "ord b < 256" "ord c < 256" by (rule ord_less)+
  then have q: "ord a div 4 < 64" "ord b div 16 < 16" "ord c div 64 < 4" by (simp_all add: less_mult_imp_div_less)
  have m: "ord a mod 4 \<le> 3" "ord b mod 16 \<le> 15"
    using mod_less_divisor [of 4 "ord a"] mod_less_divisor [of 16 "ord b"] by linarith+
  show "ord a div 4 < 64" "ord a mod 4 * 16 < 64" "ord a mod 4 * 16 + ord b div 16 < 64"
    "ord b mod 16 * 4 < 64" "ord b mod 16 * 4 + ord c div 64 < 64" "ord c mod 64 < 64"
    using q m by simp_all
qed

lemma b64_join:
  fixes c :: char
  shows "ord c div 16 div 16 = 0" "ord c div 16 mod 16 = ord c div 16" "ord c div 64 div 4 = 0" "ord c div 64 mod 4 = ord c div 64"
proof -
  have "ord c div 16 < 16" "ord c div 64 < 4" using ord_less [of c] by (simp_all add: less_mult_imp_div_less)
  then show "ord c div 16 div 16 = 0" "ord c div 16 mod 16 = ord c div 16" "ord c div 64 div 4 = 0" "ord c div 64 mod 4 = ord c div 64"
    by simp_all
qed

lemma b64_encode_chars: "c \<in> set (b64_encode s) \<Longrightarrow> ord c < 128 \<and> c \<noteq> CHR 0x0A \<and> c \<noteq> CHR 0x0D"
  by (induction s rule: b64_encode.induct)
    (auto simp: b64_fields b64_char_ascii b64_char_plain)

lemma b64_groups_encode: "b64_groups (b64_encode s) = Some s"
  by (induction s rule: b64_encode.induct)
    (simp_all add: b64_fields b64_value_char b64_char_plain b64_join)

lemma b64_round_trip [simp]: "b64_decode (b64_encode s) = Some s"
proof -
  have "filter (\<lambda>c. c \<noteq> CHR 0x0A \<and> c \<noteq> CHR 0x0D) (b64_encode s) = b64_encode s"
    using b64_encode_chars by (intro filter_True) blast
  then show ?thesis by (simp add: b64_decode_def b64_groups_encode)
qed

lemma b64_utf8 [simp]: "utf8_valid (b64_encode s)"
  by (rule utf8_valid_ascii) (use b64_encode_chars in \<open>auto simp: list_all_iff\<close>)

end
