(* ===== verification/Signing.thy ===== *)
theory Signing
  imports Outbound Base64
begin

text \<open>
  The optional plugins of \<open>src/sync/encrypted/optional.go\<close>: signing items when they are saved,
  verifying signatures on receipt, and access control per peer.  They are options of the
  engine; \<open>SignOnSave\<close> is a \<open>PreSetItem\<close> hook and the others are sync filters.

  Ed25519 is the parameter \<open>ed\<close>, a record of \<open>Sign\<close> and \<open>Verify\<close>
  (\<open>src/helpers/encryption/keys.go\<close> only swaps their arguments); \<open>ed_pair\<close> is its documented
  law: a signature made with a private key verifies under its public key.  The maps of an
  \<open>AccessControl\<close> are shared with the filters and may change at any time, so they are captured
  state, the component \<open>hookState\<close> of the engine.
\<close>

section \<open>Signatures\<close>

record ed25519 =
  edSign :: "string \<Rightarrow> string \<Rightarrow> string"
  edVerify :: "string \<Rightarrow> string \<Rightarrow> string \<Rightarrow> bool"

definition Sign :: "ed25519 \<Rightarrow> string \<Rightarrow> string \<Rightarrow> string" where
  "Sign ed message privateKey = edSign ed privateKey message"

definition Verify :: "ed25519 \<Rightarrow> string \<Rightarrow> string \<Rightarrow> string \<Rightarrow> bool" where
  "Verify ed message sig publicKey = edVerify ed publicKey message sig"

definition fmt_bool :: "bool \<Rightarrow> string" where
  "fmt_bool b = (if b then ''true'' else ''false'')"

definition itemDataForSigning :: "SyncStoreItem \<Rightarrow> string" where
  "itemDataForSigning item =
     App item @ ''|'' @ Key item @ ''|'' @ Value item @ ''|'' @ itoa (Timestamp item) @ ''|'' @ ID item @ ''|'' @
     fmt_bool (Deleted item)"

definition sign_hook :: "ed25519 \<Rightarrow> string \<Rightarrow> string \<Rightarrow> PreSetItem" where
  "sign_hook ed signPriv signPub item =
     (if Signature item \<noteq> [] \<or> PublicKey item \<noteq> [] then item
      else (let item = item\<lparr>PublicKey := b64_encode signPub\<rparr>;
                dat = itemDataForSigning item;
                sig = Sign ed dat signPriv
            in item\<lparr>Signature := b64_encode sig\<rparr>))"

definition SignOnSave :: "ed25519 \<Rightarrow> string \<Rightarrow> string \<Rightarrow> ('s, 'x) Option" where
  "SignOnSave ed signPriv signPub = WithPreSetItem (sign_hook ed signPriv signPub)"

definition verify_filter :: "ed25519 \<Rightarrow> (string \<times> string) list \<Rightarrow> 'x SyncInFilter" where
  "verify_filter ed peerSignKeys item peerID x =
     (if Signature item = [] \<or> PublicKey item = [] then (False, x)
      else (case (b64_decode (Signature item), b64_decode (PublicKey item)) of
              (Some sig, Some pubKey) \<Rightarrow>
                (case map_of peerSignKeys peerID of
                   None \<Rightarrow> (False, x)
                 | Some expectedPubKey \<Rightarrow>
                     if pubKey \<noteq> expectedPubKey then (False, x)
                     else (Verify ed (itemDataForSigning item) sig pubKey, x))
            | _ \<Rightarrow> (False, x)))"

definition VerifySignatures :: "ed25519 \<Rightarrow> (string \<times> string) list \<Rightarrow> ('s, 'x) Option" where
  "VerifySignatures ed peerSignKeys = WithSyncInFilter (verify_filter ed peerSignKeys)"

definition AllowUnsigned :: "('s, 'x) Option" where
  "AllowUnsigned = WithSyncInFilter (\<lambda>item peerID x. (True, x))"

section \<open>Access control\<close>

record AccessControl =
  AllowedOut :: "(string \<times> (string \<times> bool) list) list"
  BlockedPeers :: "(string \<times> bool) list"

definition NewAccessControl :: AccessControl where
  "NewAccessControl = \<lparr>AllowedOut = [], BlockedPeers = []\<rparr>"

text \<open>A missing entry of a Go map reads as the zero value.\<close>

definition flag :: "(string \<times> bool) list \<Rightarrow> string \<Rightarrow> bool" where
  "flag m k = (map_of m k = Some True)"

definition AllowPeer :: "string \<Rightarrow> AccessControl \<Rightarrow> AccessControl" where
  "AllowPeer peerID ac = ac\<lparr>BlockedPeers := AList.delete peerID (BlockedPeers ac)\<rparr>"

definition BlockPeer :: "string \<Rightarrow> AccessControl \<Rightarrow> AccessControl" where
  "BlockPeer peerID ac = ac\<lparr>BlockedPeers := AList.update peerID True (BlockedPeers ac)\<rparr>"

definition AllowApp :: "string \<Rightarrow> string \<Rightarrow> AccessControl \<Rightarrow> AccessControl" where
  "AllowApp peerID app ac =
     (let apps = (case map_of (AllowedOut ac) peerID of None \<Rightarrow> [] | Some m \<Rightarrow> m)
      in ac\<lparr>AllowedOut := AList.update peerID (AList.update app True apps) (AllowedOut ac)\<rparr>)"

definition acOutFilter :: "AccessControl SyncOutFilter" where
  "acOutFilter item peerID ac =
     (if flag (BlockedPeers ac) peerID then False
      else (case map_of (AllowedOut ac) peerID of
              None \<Rightarrow> True
            | Some allowed \<Rightarrow> if allowed \<noteq> [] then flag allowed (App item) else True))"

definition acInFilter :: "AccessControl SyncInFilter" where
  "acInFilter item peerID ac = (\<not> flag (BlockedPeers ac) peerID, ac)"

definition acOptions :: "('s, AccessControl) Option list" where
  "acOptions = [WithSyncOutFilter acOutFilter, WithSyncInFilter acInFilter]"

section \<open>Signing does not disturb the engine\<close>

definition ed_pair :: "ed25519 \<Rightarrow> string \<Rightarrow> string \<Rightarrow> bool" where
  "ed_pair ed priv pub \<longleftrightarrow> pub \<noteq> [] \<and> (\<forall>message. edSign ed priv message \<noteq> [] \<and> edVerify ed pub message (edSign ed priv message))"

lemma sign_hook_fields [simp]:
  "App (sign_hook ed priv pub it) = App it" "Key (sign_hook ed priv pub it) = Key it"
  "Value (sign_hook ed priv pub it) = Value it" "Timestamp (sign_hook ed priv pub it) = Timestamp it"
  "ID (sign_hook ed priv pub it) = ID it" "WriteTimestamp (sign_hook ed priv pub it) = WriteTimestamp it"
  "Deleted (sign_hook ed priv pub it) = Deleted it"
  by (simp_all add: sign_hook_def Let_def)

lemma sign_hook_benign: "benign [sign_hook ed priv pub]"
  by (auto simp: benign_def valid_item_def sign_hook_def Let_def)

lemma b64_encode_Nil: "b64_encode s = [] \<longleftrightarrow> s = []"
  by (cases s rule: b64_encode.cases) simp_all

lemma data_of_signed: "itemDataForSigning (sign_hook ed priv pub it) = itemDataForSigning it"
  by (simp add: itemDataForSigning_def)

lemma data_of_written: "itemDataForSigning (it\<lparr>WriteTimestamp := t\<rparr>) = itemDataForSigning it"
  by (simp add: itemDataForSigning_def)

lemma sign_then_verify:
  assumes "ed_pair ed priv pub" and "Signature it = []" and "PublicKey it = []" and "map_of keys peer = Some pub"
  shows "verify_filter ed keys (sign_hook ed priv pub it) peer x = (True, x)"
proof -
  have "b64_encode pub \<noteq> []" "b64_encode (edSign ed priv m) \<noteq> []" for m
    using assms(1) by (simp_all add: b64_encode_Nil ed_pair_def)
  moreover have "PublicKey (sign_hook ed priv pub it) = b64_encode pub"
    "Signature (sign_hook ed priv pub it) = b64_encode (edSign ed priv (itemDataForSigning it))"
    using assms(2,3) by (simp_all add: sign_hook_def Let_def Sign_def itemDataForSigning_def)
  ultimately show ?thesis
    using assms(1,4) by (simp add: verify_filter_def data_of_signed Verify_def ed_pair_def)
qed

section \<open>Filters that reject\<close>

definition announce :: "(nat \<times> 'x UpdateListener) list \<Rightarrow> SyncStoreItem \<Rightarrow> 'x \<Rightarrow> 'x" where
  "announce ls it x = fold (\<lambda>fn x. fn it x) (map snd ls) x"

text \<open>The filters reject the item whatever their captured variables are, and leave those alone.\<close>

definition rejects :: "'x SyncInFilter list \<Rightarrow> string \<Rightarrow> SyncStoreItem \<Rightarrow> bool" where
  "rejects fs peer it \<longleftrightarrow> (\<forall>x. run_in_filters fs it peer x = (False, x))"

lemma syncIn_items_rejected:
  assumes "\<forall>it \<in> set items. rejects (syncInFilters s) peer it"
  shows "syncIn_items S peer items s = (Inr (), s\<lparr>hookState := fold (announce (listeners s)) items (hookState s)\<rparr>)"
  using assms
  by (induction items arbitrary: s) (simp_all add: rejects_def notifyListeners_def announce_def)

lemma verify_rejects:
  assumes "map_of keys peer = None \<or> Signature it = [] \<or> PublicKey it = []"
  shows "rejects [verify_filter ed keys] peer it"
  using assms by (auto simp: rejects_def verify_filter_def split: option.split)

section \<open>Concrete engines\<close>

definition toyEd :: ed25519 where
  "toyEd = \<lparr>edSign = (\<lambda>priv m. priv @ m), edVerify = (\<lambda>pub m sig. sig = pub @ m)\<rparr>"

lemma toy_pair: "k \<noteq> [] \<Longrightarrow> ed_pair toyEd k k"
  by (simp add: ed_pair_def toyEd_def)

definition signer :: "(StoreMemory, unit) StoreSync" where
  "signer = NewWithOptions NewMemory [SignOnSave toyEd ''s'' ''s''] () (\<lambda>n. 1700000000000000000) (\<lambda>n. CHR ''u'' # dec n)"

definition verifier :: "(StoreMemory, unit) StoreSync" where
  "verifier = NewWithOptions NewMemory [SignOnSave toyEd ''t'' ''t'', VerifySignatures toyEd [(''a'', ''s'')]] ()
     (\<lambda>n. 1700000000000000000) (\<lambda>n. CHR ''v'' # dec n)"

definition listening :: "(StoreMemory, string list) StoreSync" where
  "listening = snd (OnUpdate (\<lambda>it x. x @ [Key it])
     (NewWithOptions NewMemory [VerifySignatures toyEd []] [] (\<lambda>n. 1700000000000000000) (\<lambda>n. CHR ''v'' # dec n)))"

lemmas engine_defs = NewWithOptions_def SignOnSave_def VerifySignatures_def WithPreSetItem_def WithSyncInFilter_def MaxClockSkew_def

lemma signer_simps [simp]:
  "store signer = NewMemory" "preSetItems signer = [sign_hook toyEd ''s'' ''s'']" "clock signer n = 1700000000000000000"
  "timeOffset signer = 10000000000" "maxClockSkew signer = 300000000000" "uuids signer n = CHR ''u'' # dec n"
  "ticks signer = 0" "uuidsUsed signer = 0"
  by (simp_all add: signer_def engine_defs)

lemma verifier_simps [simp]:
  "store verifier = NewMemory" "preSetItems verifier = [sign_hook toyEd ''t'' ''t'']" "clock verifier n = 1700000000000000000"
  "timeOffset verifier = 10000000000" "maxClockSkew verifier = 300000000000"
  "syncInFilters verifier = [verify_filter toyEd [(''a'', ''s'')]]"
  by (simp_all add: verifier_def engine_defs)

lemma signer_ready: "ready signer (mem_abs NewMemory) ''k'' ''z''"
  by (simp add: ready_def blank_store nul_free_def utf8_valid_ascii in_i64_def dec.simps digit_def)

lemma signer_SetItem: "\<exists>s. SetItem memStore [] ''k'' ''z'' signer = (Inr (), s)"
proof -
  let ?it = "fresh_item [] ''k'' ''z'' signer"
  have "fst (setItem_abs (stamped signer) ?it (mem_abs NewMemory)) = Inr ()"
    by (simp add: setItem_abs_def Let_def blocked_def blank_store i64_def write_time_def stamped_def)
  then show ?thesis
    using mem.SetItem_spec [OF refl, of signer "[]" "''k''" "''z''"] blank_store sign_hook_benign
    by (fastforce simp: ignore_stale_def decodable_def)
qed

section \<open>Properties\<close>

text \<open>A rejected item is not stored but still announced.  A payload all of whose items are
  rejected by the filters leaves the store alone, and every update listener is nevertheless
  called with every item, in order.\<close>

theorem rejected_items_announced:
  assumes "length (Items p) \<le> MaxSyncInItems" and "\<forall>it \<in> set (Items p). rejects (syncInFilters s) peer it"
  shows "SyncIn S peer p s = (Inr (), s\<lparr>hookState := fold (announce (listeners s)) (Items p) (hookState s)\<rparr>)"
  using assms syncIn_items_rejected by (simp add: SyncIn_def)

theorem rejected_items_announced_witness:
  "SyncIn memStore ''eve'' \<lparr>Items = [demoItem], LastSyncTimestamp = 0\<rparr> listening =
    (Inr (), listening\<lparr>hookState := [''k'']\<rparr>)"
  using rejected_items_announced [of "\<lparr>Items = [demoItem], LastSyncTimestamp = 0\<rparr>" listening "''eve''" memStore]
    verify_rejects [of "[]" "''eve''" demoItem toyEd]
  by (simp add: MaxSyncInItems_def listening_def OnUpdate_def Let_def engine_defs announce_def)

text \<open>The signed text does not separate the fields: when a peer accepts a signed item whose
  value contains a bar, it also accepts the item, with the same signature, in which the part
  of the value before the bar has moved to the end of the key.\<close>

theorem signature_boundary:
  assumes "verify_filter ed keys it peer x = (True, x)" and "Value it = v1 @ ''|'' @ v2"
  shows "verify_filter ed keys (it\<lparr>Key := Key it @ ''|'' @ v1, Value := v2\<rparr>) peer x = (True, x)"
proof -
  have "itemDataForSigning (it\<lparr>Key := Key it @ ''|'' @ v1, Value := v2\<rparr>) = itemDataForSigning it"
    using assms(2) by (simp add: itemDataForSigning_def)
  then show ?thesis using assms(1) by (simp add: verify_filter_def split: if_splits option.splits)
qed

theorem signature_boundary_witness:
  "let it = sign_hook toyEd ''s'' ''s'' (demoItem\<lparr>Value := ''a|b''\<rparr>)
   in verify_filter toyEd [(''a'', ''s'')] (it\<lparr>Key := ''k|a'', Value := ''b''\<rparr>) ''a'' () = (True, ())"
  using signature_boundary [OF sign_then_verify [OF toy_pair [of "''s''"], of "demoItem\<lparr>Value := ''a|b''\<rparr>" "[(''a'', ''s'')]" "''a''" "()"],
      of "''a''" "''b''"]
  by (simp add: Let_def)

text \<open>C20. Signing and verifying fit together.  What an engine with \<open>SignOnSave\<close> stores for a new
  key is accepted by a peer with \<open>VerifySignatures\<close> that trusts its key; the peer then shows
  the value under the key, with the signature of its author, even when it signs its own items
  too.\<close>

theorem signed_sync:
  assumes stores: "kv_store S I A" "kv_store T J B"
    and a: "I (store a)" "wf (A (store a))" "preSetItems a = [sign_hook ed priv pub]"
      "ready a (A (store a)) key value" "utf8_valid app" "view (A (store a)) key = None"
      "SetItem S app key value a = (Inr (), a')"
    and b: "J (store b)" "wf (B (store b))" "preSetItems b = [sign_hook ed priv' pub']"
      "syncInFilters b = [verify_filter ed keys]" "steady b"
      "\<forall>n. clock a (ticks a) \<le> i64 (clock b n + timeOffset b + maxClockSkew b)"
      "fresh_id (B (store b)) (uuids a (uuidsUsed a))" "view (B (store b)) key = None"
    and keys: "ed_pair ed priv pub" "map_of keys peer = Some pub"
  shows "\<exists>w b' w'. view (A (store a')) key = Some w \<and> Value w = value \<and>
    SyncIn T peer \<lparr>Items = [w], LastSyncTimestamp = c\<rparr> b = (Inr (), b') \<and>
    view (B (store b')) key = Some w' \<and> Value w' = value \<and>
    PublicKey w' = b64_encode pub \<and> Signature w' = Signature w \<and>
    verify_filter ed keys w' peer (hookState b) = (True, hookState b)"
proof -
  let ?wt = "write_time (stamped a)" and ?it = "fresh_item app key value a"
  define w where "w = sign_hook ed priv pub (?it\<lparr>WriteTimestamp := ?wt\<rparr>)"
  have w0: "written a ?it ?wt = w" by (simp add: written_def a(3) w_def)
  have nf: "nul_free key" using a(4) by (simp add: ready_def)
  have va: "view (A (store a')) key = Some w" 
    using kv_store.SetItem_view(3) [OF stores(1) a(1,2) _ a(4,5,7) nf] a(3,6) sign_hook_benign w0 by simp
  have fields: "Key w = key" "Value w = value" "ID w = uuids a (uuidsUsed a)" "Timestamp w = clock a (ticks a)"
    by (simp_all add: w_def)
  have sig: "PublicKey w = b64_encode pub" "Signature w \<noteq> []"
    using keys(1) by (simp_all add: w_def sign_hook_def Let_def fresh_item_def zeroItem_def Sign_def ed_pair_def b64_encode_Nil)
  have ver: "verify_filter ed keys (w\<lparr>WriteTimestamp := t\<rparr>) peer y = (True, y)" for t y
  proof -
    have "w\<lparr>WriteTimestamp := t\<rparr> = sign_hook ed priv pub (?it\<lparr>WriteTimestamp := t\<rparr>)"
      by (simp add: w_def sign_hook_def Let_def itemDataForSigning_def)
    then show ?thesis
      using sign_then_verify [OF keys(1) _ _ keys(2), of "?it\<lparr>WriteTimestamp := t\<rparr>" y] by (simp add: fresh_item_def zeroItem_def)
  qed
  define w' where "w' = w\<lparr>WriteTimestamp := write_time b\<rparr>"
  have "written b w (write_time b) = w'" using sig(2) by (simp add: written_def b(3) sign_hook_def w'_def)
  moreover have "dated b w" using b(6) fields(4) by (simp add: dated_def)
  then have "fst (setItem_abs b w (B (store b))) = Inr ()"
    using setItem_abs_accepts [OF b(5), of w "B (store b)"] b(8) fields(1)
    by (auto simp: setItem_abs_def Let_def blocked_def split: if_splits)
  ultimately have acc: "setItem_abs b w (B (store b)) = (Inr (), puts (B (store b)) w')"
    by (auto simp: setItem_abs_def Let_def split: if_splits)
  have "valid_item w" 
    using wf_live_valid [OF kv_store.SetItem_view(1) [OF stores(1) a(1,2) _ a(4,5,7)] view_live(1)]
      kv_store.SetItem_view(1) [OF stores(1) a(1,2) _ a(4,5,7)] nf va a(3) sign_hook_benign by metis
  then have wr: "writable (B (store b)) w'"
    using nf fields b(7) write_time_range [of b] id_ok_fresh [of "B (store b)" w'] by (simp add: writable_def w'_def valid_item_def)
  obtain b' where b': "setItem T w (Some notifyListeners) b = (Inr (), b')" "B (store b') = puts (B (store b)) w'"
    using kv_store.setItem_result [OF stores(2) b(1) wf_decodable [OF b(2)], of w] b(3) sign_hook_benign acc
    by (metis evolves_store(2) fst_conv prod.collapse snd_conv)
  have flt: "run_in_filters (syncInFilters b) w peer (hookState b) = (True, hookState b)"
    using ver [of "WriteTimestamp w" "hookState b"] by (simp add: b(4))
  then have "SyncIn T peer \<lparr>Items = [w], LastSyncTimestamp = c\<rparr> b = (Inr (), b')"
    using b'(1) by (simp add: SyncIn_def MaxSyncInItems_def)
  moreover have "view (B (store b')) key = Some w'"
    using view_puts [OF b(2) wr nf] b(8) fields(1) unfolding b'(2) by (simp add: w'_def)
  ultimately show ?thesis using va fields(2) sig(1) ver by (auto simp: w'_def)
qed

theorem signed_sync_witness:
  "\<exists>a' w b' w'. SetItem memStore [] ''k'' ''z'' signer = (Inr (), a') \<and> view (mem_abs (store a')) ''k'' = Some w \<and>
    SyncIn memStore ''a'' \<lparr>Items = [w], LastSyncTimestamp = 0\<rparr> verifier = (Inr (), b') \<and>
    view (mem_abs (store b')) ''k'' = Some w' \<and> Value w' = ''z''"
proof -
  obtain a' where a': "SetItem memStore [] ''k'' ''z'' signer = (Inr (), a')" using signer_SetItem by blast
  have "steady verifier" by (simp add: steady_def i64_def)
  then show ?thesis
    using signed_sync [OF mem.kv_store_axioms mem.kv_store_axioms _ _ _ _ _ _ a', of toyEd "''s''" "''s''" verifier "''t''" "''t''"
        "[(''a'', ''s'')]" "''a''" 0] a' toy_pair [of "''s''"] signer_ready
    by (fastforce simp: blank_store i64_def)
qed

end
