(* ===== verification/Encrypted.thy ===== *)
theory Encrypted
  imports Signing Wire
begin

text \<open>
  Wire encryption, \<open>EncryptedSync\<close> of \<open>src/sync/encrypted/sync.go\<close> over the engine, with the
  helpers \<open>BoxEncrypt\<close> and \<open>BoxDecrypt\<close> of \<open>src/helpers/encryption/keys.go\<close>.  A payload is
  encrypted as one blob and travels as a single item.

  NaCl \<open>box\<close> is the parameter \<open>N\<close>, a record of \<open>Seal\<close> and \<open>Open\<close>; \<open>box_pair\<close> is its documented
  law for two key pairs.  What \<open>crypto/rand\<close> returns (an ephemeral key pair and a nonce) is an
  argument, an error when it fails.  Keys of 32 bytes are byte strings.  \<open>ed25519.Verify\<close>
  panics when the public key has another length; \<open>decrypt\<close> passes it a key from the wire.
\<close>

section \<open>Box\<close>

record nacl =
  boxSeal :: "string \<Rightarrow> string \<Rightarrow> string \<Rightarrow> string \<Rightarrow> string"
  boxOpen :: "string \<Rightarrow> string \<Rightarrow> string \<Rightarrow> string \<Rightarrow> string option"
  secretSeal :: "string \<Rightarrow> string \<Rightarrow> string \<Rightarrow> string"
  secretOpen :: "string \<Rightarrow> string \<Rightarrow> string \<Rightarrow> string option"

record BoxKeyPair =
  bkPublic :: string
  bkPrivate :: string

type_synonym randomness = "(BoxKeyPair \<times> string) result"

definition BoxEncrypt :: "nacl \<Rightarrow> randomness \<Rightarrow> string \<Rightarrow> string \<Rightarrow> string \<Rightarrow> string result" where
  "BoxEncrypt N rnd plaintext recipientPub senderPriv =
     (case rnd of
        Inl e \<Rightarrow> Inl (Wrap ''generate: '' e)
      | Inr (eph, nonce) \<Rightarrow>
          Inr (bkPublic eph @ nonce @ boxSeal N plaintext nonce recipientPub (bkPrivate eph)))"

definition boxOverhead :: nat where "boxOverhead = 16"

definition BoxDecrypt :: "nacl \<Rightarrow> string \<Rightarrow> string \<Rightarrow> string \<Rightarrow> string result" where
  "BoxDecrypt N dat senderPub recipientPriv =
     (if length dat < 32 + 24 + boxOverhead then Inl (Errorf ''ciphertext too short'')
      else (let ephemeralPub = take 32 dat;
                nonce = take 24 (drop 32 dat);
                ciphertext = drop 56 dat
            in (case boxOpen N ciphertext nonce ephemeralPub recipientPriv of
                  None \<Rightarrow> Inl (Errorf ''decryption failed'')
                | Some plaintext \<Rightarrow> Inr plaintext)))"

definition SecretboxEncrypt :: "nacl \<Rightarrow> string result \<Rightarrow> string \<Rightarrow> string \<Rightarrow> (string \<times> string) result" where
  "SecretboxEncrypt N rnd plaintext key =
     (case rnd of Inl e \<Rightarrow> Inl (Wrap ''generate nonce: '' e) | Inr nonce \<Rightarrow> Inr (secretSeal N plaintext nonce key, nonce))"

definition SecretboxDecrypt :: "nacl \<Rightarrow> string \<Rightarrow> string \<Rightarrow> string \<Rightarrow> string result" where
  "SecretboxDecrypt N ciphertext nonce key =
     (case secretOpen N ciphertext nonce key of None \<Rightarrow> Inl (Errorf ''decryption failed'') | Some plaintext \<Rightarrow> Inr plaintext)"

section \<open>Wire format\<close>

record BatchWireFormat =
  wVersion :: int
  wSenderSignPub :: string
  wEphemeralPub :: string
  wNonce :: string
  wCiphertext :: string
  wSignature :: string

definition zeroWire :: BatchWireFormat where
  "zeroWire = \<lparr>wVersion = 0, wSenderSignPub = [], wEphemeralPub = replicate 32 NUL, wNonce = replicate 24 NUL,
     wCiphertext = [], wSignature = []\<rparr>"

text \<open>A byte slice is a base64 string, left out when empty; a byte array is an array of numbers.\<close>

definition bytes_member :: "string \<Rightarrow> string \<Rightarrow> (string \<times> json) list" where
  "bytes_member name b = (if b = [] then [] else [(name, JStr (b64_encode b))])"

definition byte_array :: "string \<Rightarrow> json" where
  "byte_array b = JArr (map (\<lambda>c. jint (int (ord c))) b)"

definition wire_json :: "BatchWireFormat \<Rightarrow> json" where
  "wire_json w = JObj
     ([(''v'', jint (wVersion w))] @ bytes_member ''sender'' (wSenderSignPub w)
      @ [(''epk'', byte_array (wEphemeralPub w)), (''n'', byte_array (wNonce w))]
      @ bytes_member ''ct'' (wCiphertext w) @ bytes_member ''sig'' (wSignature w))"

fun json_byte :: "json \<Rightarrow> char option" where
  "json_byte (JNum l) =
     (case parse_int64 l of
        Some z \<Rightarrow> if \<not> prefix ''-'' l \<and> z \<le> 255 then Some (char_of (nat z)) else None
      | None \<Rightarrow> None)"
| "json_byte JNull = Some NUL"
| "json_byte _ = None"

fun json_byte_list :: "json list \<Rightarrow> string option" where
  "json_byte_list [] = Some []"
| "json_byte_list (j # js) =
     (case json_byte j of None \<Rightarrow> None | Some c \<Rightarrow> map_option ((#) c) (json_byte_list js))"

fun json_byte_array :: "nat \<Rightarrow> json \<Rightarrow> string \<Rightarrow> string option" where
  "json_byte_array n (JArr js) old =
     map_option (\<lambda>b. b @ replicate (n - length b) NUL) (json_byte_list (take n js))"
| "json_byte_array n JNull old = Some old"
| "json_byte_array n _ old = None"

fun json_bytes :: "json \<Rightarrow> string option" where
  "json_bytes (JStr s) = b64_decode s"
| "json_bytes (JArr js) = json_byte_list js"
| "json_bytes JNull = Some []"
| "json_bytes _ = None"

definition wire_field :: "string \<Rightarrow> json \<Rightarrow> BatchWireFormat \<Rightarrow> BatchWireFormat option" where
  "wire_field k v w =
     (if field_is ''v'' k then map_option (\<lambda>x. w\<lparr>wVersion := x\<rparr>) (json_int v (wVersion w))
      else if field_is ''sender'' k then map_option (\<lambda>x. w\<lparr>wSenderSignPub := x\<rparr>) (json_bytes v)
      else if field_is ''epk'' k then map_option (\<lambda>x. w\<lparr>wEphemeralPub := x\<rparr>) (json_byte_array 32 v (wEphemeralPub w))
      else if field_is ''n'' k then map_option (\<lambda>x. w\<lparr>wNonce := x\<rparr>) (json_byte_array 24 v (wNonce w))
      else if field_is ''ct'' k then map_option (\<lambda>x. w\<lparr>wCiphertext := x\<rparr>) (json_bytes v)
      else if field_is ''sig'' k then map_option (\<lambda>x. w\<lparr>wSignature := x\<rparr>) (json_bytes v)
      else Some w)"

definition marshal_wire :: "BatchWireFormat \<Rightarrow> string" where
  "marshal_wire w = jprint (wire_json w)"

definition unmarshal_wire :: "string \<Rightarrow> BatchWireFormat option" where
  "unmarshal_wire s = Option.bind (jparse s) (json_struct wire_field zeroWire)"

definition marshal_payload :: "SyncPayload \<Rightarrow> string" where
  "marshal_payload p = jprint (payload_json p)"

definition unmarshal_payload :: "string \<Rightarrow> SyncPayload option" where
  "unmarshal_payload s = Option.bind (jparse s) (json_struct payload_field zeroPayload)"

section \<open>The wrapper\<close>

record EncryptedSync =
  esMyKeys :: "BoxKeyPair option"
  esSignPriv :: "string option"
  esSignPub :: string
  esPeerKeys :: "(string \<times> string) list"
  esPeerSigs :: "(string \<times> string) list"

text \<open>\<open>Config\<close> without the inner store, which is the engine; a nil map is \<open>None\<close>.\<close>

record Config =
  cfgMyKeys :: "BoxKeyPair option"
  cfgSignPriv :: "string option"
  cfgSignPub :: string
  cfgPeerBoxKeys :: "(string \<times> string) list option"
  cfgPeerSignKeys :: "(string \<times> string) list option"

definition NewEncrypted :: "Config \<Rightarrow> EncryptedSync" where
  "NewEncrypted cfg =
     \<lparr>esMyKeys = cfgMyKeys cfg, esSignPriv = cfgSignPriv cfg, esSignPub = cfgSignPub cfg,
      esPeerKeys = (case cfgPeerBoxKeys cfg of None \<Rightarrow> [] | Some m \<Rightarrow> m),
      esPeerSigs = (case cfgPeerSignKeys cfg of None \<Rightarrow> [] | Some m \<Rightarrow> m)\<rparr>"

definition enabled :: "EncryptedSync \<Rightarrow> bool" where
  "enabled es \<longleftrightarrow> esMyKeys es \<noteq> None"

definition AddPeer :: "string \<Rightarrow> string \<Rightarrow> string \<Rightarrow> EncryptedSync \<Rightarrow> EncryptedSync" where
  "AddPeer peerID boxPub signPub es =
     es\<lparr>esPeerKeys := AList.update peerID boxPub (esPeerKeys es),
        esPeerSigs := AList.update peerID signPub (esPeerSigs es)\<rparr>"

definition RemovePeer :: "string \<Rightarrow> EncryptedSync \<Rightarrow> EncryptedSync" where
  "RemovePeer peerID es =
     es\<lparr>esPeerKeys := AList.delete peerID (esPeerKeys es), esPeerSigs := AList.delete peerID (esPeerSigs es)\<rparr>"

definition MyBoxPublicKey :: "EncryptedSync \<Rightarrow> string" where
  "MyBoxPublicKey es = (case esMyKeys es of None \<Rightarrow> replicate 32 NUL | Some k \<Rightarrow> bkPublic k)"

definition MySigningPublicKey :: "EncryptedSync \<Rightarrow> string" where
  "MySigningPublicKey es = esSignPub es"

definition encrypt ::
  "nacl \<Rightarrow> ed25519 \<Rightarrow> EncryptedSync \<Rightarrow> randomness \<Rightarrow> string \<Rightarrow> SyncPayload \<Rightarrow> SyncPayload result" where
  "encrypt N ed es rnd peerID payload =
     (case map_of (esPeerKeys es) peerID of
        None \<Rightarrow> Inl (Errorf (''unknown peer: '' @ peerID))
      | Some peerPub \<Rightarrow>
          (case BoxEncrypt N rnd (marshal_payload payload) peerPub (bkPrivate (the (esMyKeys es))) of
             Inl e \<Rightarrow> Inl (Wrap ''box encrypt: '' e)
           | Inr ciphertext \<Rightarrow>
               (let wire = \<lparr>wVersion = 1, wSenderSignPub = esSignPub es, wEphemeralPub = take 32 ciphertext,
                            wNonce = take 24 (drop 32 ciphertext), wCiphertext = drop 56 ciphertext, wSignature = []\<rparr>;
                    wire = (case esSignPriv es of None \<Rightarrow> wire | Some priv \<Rightarrow> wire\<lparr>wSignature := Sign ed ciphertext priv\<rparr>)
                in Inr \<lparr>Items = [zeroItem\<lparr>App := ''__enc'', Key := ''batch'', Value := b64_encode (marshal_wire wire),
                          PublicKey := b64_encode (esSignPub es), Signature := b64_encode (wSignature wire)\<rparr>],
                        LastSyncTimestamp = 0\<rparr>)))"

text \<open>The attempts to decrypt; an empty plaintext counts as a failure, as a nil slice does.\<close>

fun try_decrypt :: "nacl \<Rightarrow> string \<Rightarrow> string \<Rightarrow> string list \<Rightarrow> error \<Rightarrow> string result" where
  "try_decrypt N dat priv [] err = Inl err"
| "try_decrypt N dat priv (senderPub # pubs) err =
     (case BoxDecrypt N dat senderPub priv of
        Inl e \<Rightarrow> try_decrypt N dat priv pubs e
      | Inr plaintext \<Rightarrow> if plaintext = [] then try_decrypt N dat priv pubs err else Inr plaintext)"

definition decrypt :: "nacl \<Rightarrow> ed25519 \<Rightarrow> EncryptedSync \<Rightarrow> string \<Rightarrow> SyncPayload \<Rightarrow> SyncPayload result" where
  "decrypt N ed es peerID payload =
     (case find (\<lambda>it. App it = ''__enc'' \<and> Key it = ''batch'') (Items payload) of
        None \<Rightarrow> Inr payload
      | Some batchItem \<Rightarrow>
          (case b64_decode (Value batchItem) of
             None \<Rightarrow> Inl (Errorf ''decode batch'')
           | Some wireJSON \<Rightarrow>
               (case unmarshal_wire wireJSON of
                  None \<Rightarrow> Inl (Errorf ''unmarshal wire'')
                | Some wire \<Rightarrow>
                    (let fullCiphertext = wEphemeralPub wire @ wNonce wire @ wCiphertext wire
                     in if wSignature wire \<noteq> [] \<and> wSenderSignPub wire \<noteq> [] \<and> length (wSenderSignPub wire) \<noteq> 32
                        then Inl (Errorf ''panic: ed25519: bad public key length'')
                        else if wSignature wire \<noteq> [] \<and> wSenderSignPub wire \<noteq> [] \<and>
                           \<not> Verify ed fullCiphertext (wSignature wire) (wSenderSignPub wire)
                        then Inl (Errorf ''signature verification failed'')
                        else
                          (let hint = (case map_of (esPeerKeys es) peerID of None \<Rightarrow> [] | Some pub \<Rightarrow> [pub])
                           in (case try_decrypt N fullCiphertext (bkPrivate (the (esMyKeys es)))
                                      (hint @ map snd (esPeerKeys es)) (Errorf ''no peers'') of
                                 Inl e \<Rightarrow> Inl (Wrap ''decrypt: '' e)
                               | Inr plaintext \<Rightarrow>
                                   (case unmarshal_payload plaintext of
                                      None \<Rightarrow> Inl (Errorf ''unmarshal payload'')
                                    | Some p \<Rightarrow> Inr p)))))))"

definition encSync ::
  "nacl \<Rightarrow> ed25519 \<Rightarrow> EncryptedSync \<Rightarrow> randomness \<Rightarrow> 's Store \<Rightarrow> string \<Rightarrow> SyncPayload option \<Rightarrow>
     ('s, 'x) StoreSync \<Rightarrow> (SyncPayload option, ('s, 'x) StoreSync) outcome" where
  "encSync N ed es rnd S peerID payload s =
     (case (case payload of
              None \<Rightarrow> Inr None
            | Some p \<Rightarrow>
                if enabled es \<and> Items p \<noteq> []
                then (case decrypt N ed es peerID p of Inl e \<Rightarrow> Inl (Wrap ''decrypt: '' e) | Inr q \<Rightarrow> Inr (Some q))
                else Inr (Some p)) of
        Inl e \<Rightarrow> (Inl e, s)
      | Inr payload \<Rightarrow>
          (case Sync S peerID payload s of
             (Inl e, s) \<Rightarrow> (Inl e, s)
           | (Inr response, s) \<Rightarrow>
               (case response of
                  None \<Rightarrow> (Inr None, s)
                | Some r \<Rightarrow>
                    if enabled es \<and> Items r \<noteq> []
                    then (case encrypt N ed es rnd peerID r of
                            Inl e \<Rightarrow> (Inl (Wrap ''encrypt: '' e), s)
                          | Inr q \<Rightarrow> (Inr (Some q), s))
                    else (Inr (Some r), s))))"

section \<open>Round trips of the encodings\<close>

lemma payload_bytes_round_trip:
  assumes "\<forall>it \<in> set (Items p). valid_item it" and "in_i64 (LastSyncTimestamp p)"
  shows "unmarshal_payload (marshal_payload p) = Some p"
  using payload_round_trip [OF assms] jwf_payload
  by (simp add: unmarshal_payload_def marshal_payload_def jparse_jprint)

lemma itoa_not_minus: "0 \<le> z \<Longrightarrow> \<not> prefix ''-'' (itoa z)"
  using dec_not_minus by (simp add: itoa_def)

lemma json_byte_jint [simp]: "json_byte (jint (int (ord c))) = Some c"
proof -
  have "int (ord c) \<le> 255" using ord_less [of c] by linarith
  then show ?thesis
    using itoa_not_minus [of "int (ord c)"] by (simp add: jint_def in_i64_def)
qed

lemma json_byte_list_round: "json_byte_list (map (\<lambda>c. jint (int (ord c))) b) = Some b"
  by (induction b) simp_all

lemma json_byte_array_round:
  "length b = n \<Longrightarrow> json_byte_array n (jcoerce (byte_array b)) old = Some b"
  using json_byte_list_round by (simp add: byte_array_def comp_def)

lemma wire_round_trip:
  assumes "length (wEphemeralPub w) = 32" and "length (wNonce w) = 24" and "in_i64 (wVersion w)"
  shows "unmarshal_wire (marshal_wire w) = Some w"
proof -
  have names: "fold_name ''v'' = ''v''" "fold_name ''sender'' = ''sender''" "fold_name ''epk'' = ''epk''"
    "fold_name ''n'' = ''n''" "fold_name ''ct'' = ''ct''" "fold_name ''sig'' = ''sig''"
    "utf8_coerce ''v'' = ''v''" "utf8_coerce ''sender'' = ''sender''" "utf8_coerce ''epk'' = ''epk''"
    "utf8_coerce ''n'' = ''n''" "utf8_coerce ''ct'' = ''ct''" "utf8_coerce ''sig'' = ''sig''"
    by (simp_all add: char_of_eq_iff utf8_valid_ascii)
  have "jwf (wire_json w)" by (auto simp: wire_json_def bytes_member_def byte_array_def)
  then have "unmarshal_wire (marshal_wire w) = json_struct wire_field zeroWire (jcoerce (wire_json w))"
    by (simp add: unmarshal_wire_def marshal_wire_def jparse_jprint)
  also have "\<dots> = Some w"
    using assms json_byte_array_round [of "wEphemeralPub w" 32] json_byte_array_round [of "wNonce w" 24] names
    by (cases w) (auto simp: wire_json_def bytes_member_def wire_field_def field_is_def zeroWire_def fold_members_append
        simp del: fold_name.simps json_byte_array.simps)
  finally show ?thesis .
qed

section \<open>Decrypting what was encrypted\<close>

definition box_pair :: "nacl \<Rightarrow> BoxKeyPair \<Rightarrow> BoxKeyPair \<Rightarrow> bool" where
  "box_pair N recipient eph \<longleftrightarrow> (\<forall>m n.
     boxOpen N (boxSeal N m n (bkPublic recipient) (bkPrivate eph)) n (bkPublic eph) (bkPrivate recipient) = Some m \<and>
     length (boxSeal N m n (bkPublic recipient) (bkPrivate eph)) = length m + boxOverhead)"

lemma BoxDecrypt_BoxEncrypt:
  assumes "box_pair N recipient eph" and "length (bkPublic eph) = 32" and "length nonce = 24"
    and "BoxEncrypt N (Inr (eph, nonce)) m (bkPublic recipient) senderPriv = Inr dat"
  shows "BoxDecrypt N dat senderPub (bkPrivate recipient) = Inr m"
  using assms by (auto simp: BoxEncrypt_def BoxDecrypt_def box_pair_def Let_def)

lemma try_decrypt_first: "BoxDecrypt N dat pub priv = Inr m \<Longrightarrow> m \<noteq> [] \<Longrightarrow> try_decrypt N dat priv (pub # pubs) err = Inr m"
  by simp

lemma marshal_payload_nonempty: "marshal_payload p \<noteq> []"
  by (simp add: marshal_payload_def payload_json_def)

section \<open>Concrete peers\<close>

text \<open>A box that only pads: enough to run the wrapper.\<close>

definition toyBox :: nacl where
  "toyBox = \<lparr>boxSeal = (\<lambda>m n pub priv. replicate 16 NUL @ m), boxOpen = (\<lambda>c n pub priv. Some (drop 16 c)),
     secretSeal = (\<lambda>m n k. replicate 16 NUL @ m), secretOpen = (\<lambda>c n k. Some (drop 16 c))\<rparr>"

definition toyKeys :: BoxKeyPair where
  "toyKeys = \<lparr>bkPublic = replicate 32 CHR ''p'', bkPrivate = replicate 32 CHR ''q''\<rparr>"

definition signKey :: string where
  "signKey = replicate 32 CHR ''s''"

definition toySync :: EncryptedSync where
  "toySync = \<lparr>esMyKeys = Some toyKeys, esSignPriv = Some signKey, esSignPub = signKey, esPeerKeys = [(''a'', bkPublic toyKeys)],
     esPeerSigs = []\<rparr>"

lemma toy_box: "box_pair toyBox toyKeys toyKeys"
  by (simp add: box_pair_def toyBox_def boxOverhead_def)

section \<open>Property\<close>

text \<open>C21. A payload encrypted for a peer is decrypted by it to the same payload, whoever of its
  known peers it takes for the sender.  On the wire it is one item, but the payload that
  carries it has cursor 0: acknowledging an encrypted payload sets the cursor of the peer back
  to the start of the queue, whatever the cursor of the encrypted one was.\<close>

theorem encrypted_round_trip:
  assumes "map_of (esPeerKeys a) peer = Some (bkPublic kb)" and "esMyKeys b = Some kb" and "esPeerKeys b \<noteq> []"
    and "box_pair N kb eph" and "length (bkPublic eph) = 32" and "length nonce = 24"
    and "\<forall>it \<in> set (Items p). valid_item it" and "in_i64 (LastSyncTimestamp p)"
    and "\<forall>priv. esSignPriv a = Some priv \<longrightarrow> ed_pair ed priv (esSignPub a) \<and> length (esSignPub a) = 32"
    and "kv_store S I A" and "I (store s)" and "postSyncOuts s = []"
  shows "\<exists>q. encrypt N ed a (Inr (eph, nonce)) peer p = Inr q \<and> decrypt N ed b from q = Inr p \<and> length (Items q) = 1 \<and>
    fst (AckSyncOut S peer q s) = Inr () \<and> cursor_of (A (store (snd (AckSyncOut S peer q s)))) peer = 0"
proof -
  define ct where "ct = boxSeal N (marshal_payload p) nonce (bkPublic kb) (bkPrivate eph)"
  define dat where "dat = bkPublic eph @ nonce @ ct"
  have enc: "BoxEncrypt N (Inr (eph, nonce)) (marshal_payload p) (bkPublic kb) k = Inr dat" for k
    by (simp add: BoxEncrypt_def dat_def ct_def)
  have parts: "take 32 dat = bkPublic eph" "take 24 (drop 32 dat) = nonce" "drop 56 dat = ct"
    using assms(5,6) by (simp_all add: dat_def)
  define sig where "sig = (case esSignPriv a of None \<Rightarrow> [] | Some priv \<Rightarrow> Sign ed dat priv)"
  define w where "w = \<lparr>wVersion = 1, wSenderSignPub = esSignPub a, wEphemeralPub = bkPublic eph, wNonce = nonce,
      wCiphertext = ct, wSignature = sig\<rparr>"
  define q where "q = \<lparr>Items = [zeroItem\<lparr>App := ''__enc'', Key := ''batch'', Value := b64_encode (marshal_wire w),
      PublicKey := b64_encode (esSignPub a), Signature := b64_encode sig\<rparr>], LastSyncTimestamp = 0\<rparr>"
  have e: "encrypt N ed a (Inr (eph, nonce)) peer p = Inr q"
    using assms(1) enc parts by (simp add: encrypt_def q_def w_def sig_def Let_def split: option.split)
  have wt: "unmarshal_wire (marshal_wire w) = Some w"
    using assms(5,6) by (intro wire_round_trip) (simp_all add: w_def in_i64_def)
  have ver: "sig \<noteq> [] \<Longrightarrow> Verify ed dat sig (esSignPub a) \<and> length (esSignPub a) = 32"
    using assms(9) by (auto simp: sig_def Verify_def Sign_def ed_pair_def split: option.splits)
  obtain pub pubs where pp: "(case map_of (esPeerKeys b) from of None \<Rightarrow> [] | Some pub \<Rightarrow> [pub]) @ map snd (esPeerKeys b) = pub # pubs"
    using assms(3) by (cases "map_of (esPeerKeys b) from"; cases "esPeerKeys b") auto
  have "try_decrypt N dat (bkPrivate kb) (pub # pubs) (Errorf ''no peers'') = Inr (marshal_payload p)"
    using BoxDecrypt_BoxEncrypt [OF assms(4-6) enc] marshal_payload_nonempty by (intro try_decrypt_first)
  then have d: "decrypt N ed b from q = Inr p"
    using wt ver assms(2) payload_bytes_round_trip [OF assms(7,8)] pp
    by (auto simp: decrypt_def q_def w_def Let_def dat_def)
  have "fst (AckSyncOut S peer q s) = Inr ()" "cursor_of (A (store (snd (AckSyncOut S peer q s)))) peer = 0"
    using kv_store.AckSyncOut_spec(1) [OF assms(10-12)] evolves_store(2) [OF kv_store.AckSyncOut_spec(2) [OF assms(10-12)]]
    by (simp_all add: q_def cursor_of_def in_i64_def)
  then show ?thesis using e d by (auto simp: q_def)
qed

theorem encrypted_round_trip_witness:
  "\<exists>q. encrypt toyBox toyEd toySync (Inr (toyKeys, replicate 24 NUL)) ''a'' \<lparr>Items = [demoItem], LastSyncTimestamp = 7\<rparr> = Inr q \<and>
    decrypt toyBox toyEd toySync ''a'' q = Inr \<lparr>Items = [demoItem], LastSyncTimestamp = 7\<rparr> \<and>
    cursor_of (mem_abs (store (snd (AckSyncOut memStore ''a'' q demo)))) ''a'' = 0"
  using encrypted_round_trip [OF _ _ _ toy_box _ _ _ _ _ mem.kv_store_axioms, of toySync "''a''" toySync "replicate 24 NUL"
      "\<lparr>Items = [demoItem], LastSyncTimestamp = 7\<rparr>" toyEd demo "''a''"]
    toy_pair [of signKey] demoItem_writable demoMem_inv
  by (auto simp: signKey_def toySync_def toyKeys_def writable_def in_i64_def)

text \<open>
  The signature is checked with the key that the message carries, before anything else is
  known about the sender.  Whoever can reach the wrapper makes it panic with a message whose
  key does not have 32 bytes; no key of either side is needed.
\<close>

theorem decrypt_panics:
  assumes "wSignature w \<noteq> []" and "wSenderSignPub w \<noteq> []" and "length (wSenderSignPub w) \<noteq> 32"
    and "in_i64 (wVersion w)" and "length (wEphemeralPub w) = 32" and "length (wNonce w) = 24"
  shows "decrypt N ed es peer \<lparr>Items = [zeroItem\<lparr>App := ''__enc'', Key := ''batch'', Value := b64_encode (marshal_wire w)\<rparr>],
      LastSyncTimestamp = 0\<rparr> = Inl (Errorf ''panic: ed25519: bad public key length'')"
  using assms wire_round_trip [of w] by (simp add: decrypt_def)

end
