(* ===== verification/Times.thy ===== *)
theory Times
  imports Keys Items
begin

text \<open>
  What the blob and image stores use of \<open>time.Time\<close>: the milliseconds since 1970 and the JSON
  encoding, RFC 3339 with nanoseconds.  A time is its wall clock with the offset of its zone
  in minutes.  Encoding fails for years after 9999 and offsets of a day or more.  Decoding
  tries the strict format and then falls back to the general parser of the package, which is
  the parameter \<open>lenient\<close>; no lemma depends on it.  (Decoding reads the text between the quotes
  as it stands; the model reads it after unescaping.)  Printing then parsing gives the time
  back: \<open>parse_format_time\<close>.
\<close>

section \<open>Model\<close>

record Time =
  tYear :: nat
  tMonth :: nat
  tDay :: nat
  tHour :: nat
  tMinute :: nat
  tSecond :: nat
  tNano :: nat
  tZone :: int

definition zeroTime :: Time where
  "zeroTime = \<lparr>tYear = 1, tMonth = 1, tDay = 1, tHour = 0, tMinute = 0, tSecond = 0, tNano = 0, tZone = 0\<rparr>"

definition is_leap :: "nat \<Rightarrow> bool" where
  "is_leap y \<longleftrightarrow> y mod 4 = 0 \<and> (y mod 100 \<noteq> 0 \<or> y mod 400 = 0)"

definition daysIn :: "nat \<Rightarrow> nat \<Rightarrow> nat" where
  "daysIn m y = (if m = 2 then (if is_leap y then 29 else 28) else if m \<in> {4, 6, 9, 11} then 30 else 31)"

definition valid_time :: "Time \<Rightarrow> bool" where
  "valid_time t \<longleftrightarrow> tYear t \<le> 9999 \<and> 1 \<le> tMonth t \<and> tMonth t \<le> 12 \<and> 1 \<le> tDay t \<and> tDay t \<le> daysIn (tMonth t) (tYear t) \<and>
     tHour t \<le> 23 \<and> tMinute t \<le> 59 \<and> tSecond t \<le> 59 \<and> tNano t < 1000000000 \<and> \<bar>tZone t\<bar> < 1440"

text \<open>Days since 1970: whole years with their leap days, whole months, days.\<close>

definition unix_days :: "nat \<Rightarrow> nat \<Rightarrow> nat \<Rightarrow> int" where
  "unix_days y m d =
     int (365 * y + (y + 3) div 4 - (y + 99) div 100 + (y + 399) div 400 + (\<Sum>i \<leftarrow> [1..<m]. daysIn i y) + d) - 719529"

definition UnixMilli :: "Time \<Rightarrow> int" where
  "UnixMilli t =
     ((unix_days (tYear t) (tMonth t) (tDay t) * 24 + int (tHour t)) * 60 + int (tMinute t) - tZone t) * 60000
     + int (tSecond t) * 1000 + int (tNano t div 1000000)"

definition pad :: "nat \<Rightarrow> nat \<Rightarrow> string" where
  "pad w n = zeros (w - length (dec n)) @ dec n"

definition trim_zeros :: "string \<Rightarrow> string" where
  "trim_zeros s = rev (dropWhile (\<lambda>c. c = CHR ''0'') (rev s))"

definition fraction :: "nat \<Rightarrow> string" where
  "fraction n = (if n = 0 then [] else CHR ''.'' # trim_zeros (pad 9 n))"

definition zone :: "int \<Rightarrow> string" where
  "zone z = (if z = 0 then ''Z''
     else (if z < 0 then CHR ''-'' else CHR ''+'') # pad 2 (nat \<bar>z\<bar> div 60) @ '':'' @ pad 2 (nat \<bar>z\<bar> mod 60))"

definition format_time :: "Time \<Rightarrow> string" where
  "format_time t =
     pad 4 (tYear t) @ ''-'' @ pad 2 (tMonth t) @ ''-'' @ pad 2 (tDay t) @ ''T'' @
     pad 2 (tHour t) @ '':'' @ pad 2 (tMinute t) @ '':'' @ pad 2 (tSecond t) @ fraction (tNano t) @ zone (tZone t)"

definition marshal_time :: "Time \<Rightarrow> string result" where
  "marshal_time t =
     (if tYear t > 9999 then Inl (Errorf ''Time.MarshalJSON: year outside of range [0,9999]'')
      else if \<bar>tZone t\<bar> \<ge> 1440 then Inl (Errorf ''Time.MarshalJSON: timezone hour outside of range [0,23]'')
      else Inr (format_time t))"

definition field :: "nat \<Rightarrow> nat \<Rightarrow> string \<Rightarrow> nat option" where
  "field lo hi s = (if list_all is_digit s \<and> lo \<le> dec_val s \<and> dec_val s \<le> hi then Some (dec_val s) else None)"

text \<open>The fraction: its digits after the point, cut to nine, and the rest of the text.\<close>

definition parse_fraction :: "string \<Rightarrow> nat \<times> string" where
  "parse_fraction s =
     (let ds = takeWhile is_digit (drop 1 s)
      in if prefix ''.'' s \<and> ds \<noteq> []
         then (let n = take 9 ds in (dec_val (n @ zeros (9 - length n)), drop (Suc (length ds)) s)) else (0, s))"

definition parse_zone :: "string \<Rightarrow> int option" where
  "parse_zone s =
     (if s = ''Z'' then Some 0
      else if length s \<noteq> 6 \<or> \<not> (prefix ''+'' s \<or> prefix ''-'' s) \<or> s ! 3 \<noteq> CHR '':'' then None
      else (case (field 0 23 (take 2 (drop 1 s)), field 0 59 (take 2 (drop 4 s))) of
              (Some h, Some m) \<Rightarrow> Some (if prefix ''-'' s then - int (60 * h + m) else int (60 * h + m))
            | _ \<Rightarrow> None))"

definition parseRFC3339 :: "string \<Rightarrow> Time option" where
  "parseRFC3339 s =
     (if length s < 19 then None
      else
        (case (field 0 9999 (take 4 s), field 1 12 (take 2 (drop 5 s)), field 0 23 (take 2 (drop 11 s)),
               field 0 59 (take 2 (drop 14 s)), field 0 59 (take 2 (drop 17 s))) of
           (Some year, Some month, Some hour, Some minute, Some sec) \<Rightarrow>
             (case field 1 (daysIn month year) (take 2 (drop 8 s)) of
                Some day \<Rightarrow>
                  if s ! 4 = CHR ''-'' \<and> s ! 7 = CHR ''-'' \<and> s ! 10 = CHR ''T'' \<and> s ! 13 = CHR '':'' \<and> s ! 16 = CHR '':''
                  then (case parse_fraction (drop 19 s) of
                          (nano, rest) \<Rightarrow> map_option (\<lambda>z. \<lparr>tYear = year, tMonth = month, tDay = day, tHour = hour,
                            tMinute = minute, tSecond = sec, tNano = nano, tZone = z\<rparr>) (parse_zone rest))
                  else None
              | None \<Rightarrow> None)
         | _ \<Rightarrow> None))"

fun json_time :: "(string \<Rightarrow> Time option) \<Rightarrow> json \<Rightarrow> Time \<Rightarrow> Time option" where
  "json_time lenient (JStr s) old = (case parseRFC3339 s of Some t \<Rightarrow> Some t | None \<Rightarrow> lenient s)"
| "json_time lenient JNull old = Some old"
| "json_time lenient _ old = None"

section \<open>Padded numbers\<close>

lemma length_dec_le: "0 < w \<Longrightarrow> n < 10 ^ w \<Longrightarrow> length (dec n) \<le> w"
proof (induction w arbitrary: n)
  case (Suc w)
  show ?case
  proof (cases "n < 10")
    case False
    then have "n div 10 < 10 ^ w" "w \<noteq> 0" using Suc.prems(2) by (cases w; simp)+
    then show ?thesis using Suc.IH [of "n div 10"] False by (simp add: dec.simps [of n])
  qed (simp add: dec.simps [of n])
qed simp

lemma pad_length: "0 < w \<Longrightarrow> n < 10 ^ w \<Longrightarrow> length (pad w n) = w"
  using length_dec_le [of w n] by (simp add: pad_def zeros_def)

lemma pad_lengths [simp]:
  "n < 10000 \<Longrightarrow> length (pad 4 n) = 4" "n < 100 \<Longrightarrow> length (pad 2 n) = 2" "n < 1000000000 \<Longrightarrow> length (pad 9 n) = 9"
  by (simp_all add: pad_length)

lemma dec_val_pad [simp]: "dec_val (pad w n) = n"
  by (simp add: pad_def)

lemma pad_digits [simp]: "list_all is_digit (pad w n)"
proof -
  have "list_all is_digit (zeros k)" for k by (simp add: zeros_def list_all_iff is_digit_def)
  then show ?thesis by (simp add: pad_def dec_digits)
qed

lemma field_pad [simp]: "lo \<le> n \<Longrightarrow> n \<le> hi \<Longrightarrow> field lo hi (pad w n) = Some n"
  by (simp add: field_def)

lemma pad_plain: "c \<in> set (pad w n) \<Longrightarrow> ord c < 128"
  using pad_digits [of w n] by (auto simp: list_all_iff is_digit_def)

section \<open>Fraction and zone\<close>

lemma dec_val_snoc: "dec_val (s @ [c]) = 10 * dec_val s + (ord c - 48)"
  by (simp add: dec_val_def)

lemma trim_zeros_append: "\<exists>k. s = trim_zeros s @ zeros k"
proof (induction s rule: rev_induct)
  case (snoc c s)
  then obtain k where "s = trim_zeros s @ zeros k" by blast
  show ?case
  proof (cases "c = CHR ''0''")
    case True
    then have "trim_zeros (s @ [c]) = trim_zeros s" by (simp add: trim_zeros_def)
    moreover have "s @ [c] = trim_zeros s @ zeros (Suc k)"
      using True \<open>s = trim_zeros s @ zeros k\<close> by (metis append.assoc replicate_append_same replicate_Suc zeros_def)
    ultimately show ?thesis by metis
  next
    case False
    then have "trim_zeros (s @ [c]) = s @ [c]" by (simp add: trim_zeros_def)
    then show ?thesis by (intro exI [of _ 0]) (simp add: zeros_def)
  qed
qed (simp add: trim_zeros_def zeros_def)

lemma trim_zeros_pad9:
  assumes "0 < n" and "n < 1000000000"
  shows "trim_zeros (pad 9 n) \<noteq> []" "length (trim_zeros (pad 9 n)) \<le> 9"
    "trim_zeros (pad 9 n) @ zeros (9 - length (trim_zeros (pad 9 n))) = pad 9 n" "list_all is_digit (trim_zeros (pad 9 n))"
proof -
  obtain k where k: "pad 9 n = trim_zeros (pad 9 n) @ zeros k" using trim_zeros_append by blast
  have len: "length (trim_zeros (pad 9 n)) + k = 9"
    using arg_cong [OF k, of length] assms(2) by (simp add: zeros_def)
  then show "length (trim_zeros (pad 9 n)) \<le> 9" by simp
  from len have "k = 9 - length (trim_zeros (pad 9 n))" by simp
  with k show "trim_zeros (pad 9 n) @ zeros (9 - length (trim_zeros (pad 9 n))) = pad 9 n" by simp
  show "trim_zeros (pad 9 n) \<noteq> []"
  proof
    assume "trim_zeros (pad 9 n) = []"
    then have "dec_val (pad 9 n) = dec_val (zeros k @ [])" using k by simp
    then show False using assms(1) by (simp del: append_Nil2) (simp add: dec_val_def)
  qed
  show "list_all is_digit (trim_zeros (pad 9 n))"
    using pad_digits [of 9 n] k by (metis list_all_append)
qed

lemma parse_fraction_format:
  assumes "n < 1000000000" and "rest \<noteq> []" and "\<not> is_digit (hd rest)" and "hd rest \<noteq> CHR ''.''"
  shows "parse_fraction (fraction n @ rest) = (n, rest)"
proof (cases "n = 0")
  case True
  then show ?thesis using assms(2,4) by (cases rest) (simp_all add: fraction_def parse_fraction_def)
next
  case False
  then have n: "0 < n" by simp
  note t = trim_zeros_pad9 [OF n assms(1)]
  have "takeWhile is_digit (trim_zeros (pad 9 n) @ rest) = trim_zeros (pad 9 n)"
    using t(4) assms(2,3) by (cases rest) (auto simp: takeWhile_append2 list_all_iff)
  then show ?thesis using False t by (simp add: fraction_def parse_fraction_def)
qed

lemma zone_head: "zone z \<noteq> []" "\<not> is_digit (hd (zone z))" "hd (zone z) \<noteq> CHR ''.''"
  by (simp_all add: zone_def is_digit_def)

lemma zone_columns:
  fixes a b :: string and c :: char
  assumes "length a = 2" "length b = 2"
  defines "s \<equiv> c # a @ '':'' @ b"
  shows "take 2 (drop 1 s) = a" "take 2 (drop 4 s) = b" "s ! 3 = CHR '':''" "length s = 6" "s \<noteq> ''Z''"
    "prefix [x] s \<longleftrightarrow> c = x"
  using assms(1,2) unfolding s_def by (auto simp: nth_append)

lemma parse_zone_signed:
  assumes "length a = 2" "length b = 2" "field 0 23 a = Some h" "field 0 59 b = Some m"
  shows "parse_zone (CHR ''+'' # a @ '':'' @ b) = Some (int (60 * h + m))"
    "parse_zone (CHR ''-'' # a @ '':'' @ b) = Some (- int (60 * h + m))"
  unfolding parse_zone_def zone_columns [OF assms(1,2)] assms(3,4) by (simp_all add: assms(1,2))

lemma parse_zone_format:
  assumes "\<bar>z\<bar> < 1440"
  shows "parse_zone (zone z) = Some z"
proof (cases "z = 0")
  case False
  define n where "n = nat \<bar>z\<bar>"
  have n: "n div 60 \<le> 23" "n mod 60 \<le> 59" using assms by (simp_all add: n_def nat_less_iff)
  then have "length (pad 2 (n div 60)) = 2" "length (pad 2 (n mod 60)) = 2"
    "field 0 23 (pad 2 (n div 60)) = Some (n div 60)" "field 0 59 (pad 2 (n mod 60)) = Some (n mod 60)" by simp_all
  from parse_zone_signed [OF this] have "parse_zone (CHR ''+'' # pad 2 (n div 60) @ '':'' @ pad 2 (n mod 60)) = Some (int n)"
    "parse_zone (CHR ''-'' # pad 2 (n div 60) @ '':'' @ pad 2 (n mod 60)) = Some (- int n)" by (simp_all only: mult_div_mod_eq)
  then show ?thesis using False by (cases "z < 0") (simp_all add: zone_def n_def)
qed (simp add: parse_zone_def zone_def)

section \<open>Round trip\<close>

text \<open>The fixed columns of the format.\<close>

lemma columns:
  fixes a b c d e f r :: string
  assumes "length a = 4" "length b = 2" "length c = 2" "length d = 2" "length e = 2" "length f = 2"
  defines "s \<equiv> a @ ''-'' @ b @ ''-'' @ c @ ''T'' @ d @ '':'' @ e @ '':'' @ f @ r"
  shows "take 4 s = a" "take 2 (drop 5 s) = b" "take 2 (drop 8 s) = c" "take 2 (drop 11 s) = d" "take 2 (drop 14 s) = e"
    "take 2 (drop 17 s) = f" "drop 19 s = r" "s ! 4 = CHR ''-''" "s ! 7 = CHR ''-''" "s ! 10 = CHR ''T''" "s ! 13 = CHR '':''"
    "s ! 16 = CHR '':''" "\<not> length s < 19"
  using assms(1-6) unfolding s_def by (simp_all add: nth_append)

lemma daysIn_le: "daysIn m y \<le> 31"
  by (simp add: daysIn_def)

lemma parse_format_time:
  assumes "valid_time t"
  shows "parseRFC3339 (format_time t) = Some t"
proof -
  have day: "tDay t < 100" using assms daysIn_le [of "tMonth t" "tYear t"] by (simp add: valid_time_def)
  have "length (pad 4 (tYear t)) = 4" "length (pad 2 (tMonth t)) = 2" "length (pad 2 (tDay t)) = 2"
    "length (pad 2 (tHour t)) = 2" "length (pad 2 (tMinute t)) = 2" "length (pad 2 (tSecond t)) = 2"
    using assms day by (simp_all add: valid_time_def)
  note cols = columns [OF this, of "fraction (tNano t) @ zone (tZone t)", folded format_time_def]
  have "parse_fraction (fraction (tNano t) @ zone (tZone t)) = (tNano t, zone (tZone t))"
    using assms zone_head by (intro parse_fraction_format) (simp_all add: valid_time_def)
  then show ?thesis
    using assms by (simp add: parseRFC3339_def cols valid_time_def parse_zone_format)
qed

lemma format_time_ascii: "utf8_valid (format_time t)"
proof -
  have "ord c < 128" if "c \<in> set (trim_zeros (pad 9 n))" for c n
    using that trim_zeros_append [of "pad 9 n"] pad_plain by (metis Un_iff set_append)
  then show ?thesis
    using pad_plain by (intro utf8_valid_ascii) (auto simp: list_all_iff format_time_def fraction_def zone_def)
qed

lemma marshal_valid_time: "valid_time t \<Longrightarrow> marshal_time t = Inr (format_time t)"
  by (simp add: marshal_time_def valid_time_def)

lemma json_time_format: "valid_time t \<Longrightarrow> json_time lenient (JStr (format_time t)) old = Some t"
  by (simp add: parse_format_time)

end
