(* ===== verification/Blobs.thy ===== *)
theory Blobs
  imports Times Base64 Memory
begin

text \<open>
  The blob store and the image store, \<open>src/blobstore/main.go\<close> and \<open>src/imagestore/main.go\<close>.
  The two packages are the same code with other names, so the operations take a \<open>kind\<close>: the key
  prefix, the start of an identifier, the JSON name of the content type and the name used in
  errors.  \<open>blobKind\<close> and \<open>imageKind\<close> are the constants of the two packages.  What \<open>time.Now\<close>
  and \<open>rand.Intn\<close> return are arguments of \<open>Put\<close>.

  Shown here: what was put is read back and leaves the rest of a shared store alone
  (\<open>blob_round_trip\<close>), and what a listing returns after any sequence of puts (\<open>blob_list\<close>).
\<close>

section \<open>Model\<close>

record kind =
  kPrefix :: string
  kName :: string
  kType :: string
  kPackage :: string

definition blobKind :: kind where
  "blobKind = \<lparr>kPrefix = ''blobs/'', kName = ''blob_'', kType = ''content_type'', kPackage = ''blobstore''\<rparr>"

definition imageKind :: kind where
  "imageKind = \<lparr>kPrefix = ''images/'', kName = ''img_'', kType = ''mime_type'', kPackage = ''imagestore''\<rparr>"

record ObjRecord =
  oID :: string
  oContentType :: string
  oData :: string
  oSize :: int
  oCreatedAt :: Time

record ObjMeta =
  mID :: string
  mContentType :: string
  mSize :: int
  mCreatedAt :: Time

definition zeroRecord :: ObjRecord where
  "zeroRecord = \<lparr>oID = [], oContentType = [], oData = [], oSize = 0, oCreatedAt = zeroTime\<rparr>"

definition marshal_record :: "kind \<Rightarrow> ObjRecord \<Rightarrow> string result" where
  "marshal_record K r =
     (case marshal_time (oCreatedAt r) of
        Inl e \<Rightarrow> Inl e
      | Inr t \<Rightarrow> Inr (jprint (JObj [(''id'', JStr (oID r)), (kType K, JStr (oContentType r)), (''data'', JStr (oData r)),
          (''size'', jint (oSize r)), (''created_at'', JStr t)])))"

definition record_field :: "(string \<Rightarrow> Time option) \<Rightarrow> kind \<Rightarrow> string \<Rightarrow> json \<Rightarrow> ObjRecord \<Rightarrow> ObjRecord option" where
  "record_field lenient K k v r =
     (if field_is ''id'' k then map_option (\<lambda>x. r\<lparr>oID := x\<rparr>) (json_string v (oID r))
      else if field_is (kType K) k then map_option (\<lambda>x. r\<lparr>oContentType := x\<rparr>) (json_string v (oContentType r))
      else if field_is ''data'' k then map_option (\<lambda>x. r\<lparr>oData := x\<rparr>) (json_string v (oData r))
      else if field_is ''size'' k then map_option (\<lambda>x. r\<lparr>oSize := x\<rparr>) (json_int v (oSize r))
      else if field_is ''created_at'' k then map_option (\<lambda>x. r\<lparr>oCreatedAt := x\<rparr>) (json_time lenient v (oCreatedAt r))
      else Some r)"

definition unmarshal_record :: "(string \<Rightarrow> Time option) \<Rightarrow> kind \<Rightarrow> string \<Rightarrow> ObjRecord option" where
  "unmarshal_record lenient K s = Option.bind (jparse s) (json_struct (record_field lenient K) zeroRecord)"

text \<open>\<open>%04x\<close> of a number below 65536.\<close>

definition hex04 :: "nat \<Rightarrow> string" where
  "hex04 n = map hexdigit [n div 4096 mod 16, n div 256 mod 16, n div 16 mod 16, n mod 16]"

definition obj_id :: "kind \<Rightarrow> Time \<Rightarrow> nat \<Rightarrow> string" where
  "obj_id K now rnd = kName K @ itoa (UnixMilli now) @ ''_'' @ hex04 rnd"

definition objPut ::
  "kind \<Rightarrow> 's Store \<Rightarrow> Time \<Rightarrow> nat \<Rightarrow> Time \<Rightarrow> string \<Rightarrow> string \<Rightarrow> 's \<Rightarrow> (string, 's) outcome" where
  "objPut K S now rnd now' dat contentType s =
     (let oid = obj_id K now rnd;
          rec = \<lparr>oID = oid, oContentType = contentType, oData = b64_encode dat, oSize = int (length dat), oCreatedAt = now'\<rparr>
      in (case marshal_record K rec of
            Inl e \<Rightarrow> (Inl (Wrap (kPackage K @ '': marshal: '') e), s)
          | Inr b \<Rightarrow>
              (case sSet S (kPrefix K @ oid) b s of
                 (Inl e, s) \<Rightarrow> (Inl (Wrap (kPackage K @ '': set: '') e), s)
               | (Inr _, s) \<Rightarrow> (Inr oid, s))))"

definition objGet ::
  "(string \<Rightarrow> Time option) \<Rightarrow> kind \<Rightarrow> 's Store \<Rightarrow> string \<Rightarrow> 's \<Rightarrow> (ObjRecord, 's) outcome" where
  "objGet lenient K S oid s =
     (case sGet S (kPrefix K @ oid) s of
        (Inl e, s) \<Rightarrow> (Inl (Wrap (kPackage K @ '': get '' @ oid @ '': '') e), s)
      | (Inr val, s) \<Rightarrow>
          (case unmarshal_record lenient K val of
             None \<Rightarrow> (Inl (Errorf (kPackage K @ '': unmarshal '' @ oid)), s)
           | Some rec \<Rightarrow> (Inr rec, s)))"

definition objGetBytes ::
  "(string \<Rightarrow> Time option) \<Rightarrow> kind \<Rightarrow> 's Store \<Rightarrow> string \<Rightarrow> 's \<Rightarrow> (string \<times> string, 's) outcome" where
  "objGetBytes lenient K S oid s =
     (case objGet lenient K S oid s of
        (Inl e, s) \<Rightarrow> (Inl e, s)
      | (Inr rec, s) \<Rightarrow>
          (case b64_decode (oData rec) of
             None \<Rightarrow> (Inl (Errorf (kPackage K @ '': decode '' @ oid)), s)
           | Some b \<Rightarrow> (Inr (b, oContentType rec), s)))"

definition meta_of :: "ObjRecord \<Rightarrow> ObjMeta" where
  "meta_of rec = \<lparr>mID = oID rec, mContentType = oContentType rec, mSize = oSize rec, mCreatedAt = oCreatedAt rec\<rparr>"

definition objMeta ::
  "(string \<Rightarrow> Time option) \<Rightarrow> kind \<Rightarrow> 's Store \<Rightarrow> string \<Rightarrow> 's \<Rightarrow> (ObjMeta, 's) outcome" where
  "objMeta lenient K S oid s =
     (case objGet lenient K S oid s of (Inl e, s) \<Rightarrow> (Inl e, s) | (Inr rec, s) \<Rightarrow> (Inr (meta_of rec), s))"

fun collect_metas :: "(string \<Rightarrow> Time option) \<Rightarrow> kind \<Rightarrow> KeyValuePair list \<Rightarrow> ObjMeta list" where
  "collect_metas lenient K [] = []"
| "collect_metas lenient K (p # ps) =
     (case unmarshal_record lenient K (kvValue p) of
        None \<Rightarrow> collect_metas lenient K ps
      | Some rec \<Rightarrow> meta_of rec # collect_metas lenient K ps)"

definition objList :: "(string \<Rightarrow> Time option) \<Rightarrow> kind \<Rightarrow> 's Store \<Rightarrow> 's \<Rightarrow> (ObjMeta list, 's) outcome" where
  "objList lenient K S s =
     (case sList S \<lparr>Prefix = kPrefix K, StartAfter = [], Limit = 0\<rparr> s of
        (Inl e, s) \<Rightarrow> (Inl (Wrap (kPackage K @ '': list: '') e), s)
      | (Inr pairs, s) \<Rightarrow> (Inr (collect_metas lenient K pairs), s))"

definition objDelete :: "kind \<Rightarrow> 's Store \<Rightarrow> string \<Rightarrow> 's \<Rightarrow> (unit, 's) outcome" where
  "objDelete K S oid s =
     (case sDelete S (kPrefix K @ oid) s of
        (Inl e, s) \<Rightarrow> (Inl (Wrap (kPackage K @ '': delete '' @ oid @ '': '') e), s)
      | (Inr _, s) \<Rightarrow> (Inr (), s))"

text \<open>The operations of the second package.\<close>

definition imgPut :: "'s Store \<Rightarrow> Time \<Rightarrow> nat \<Rightarrow> Time \<Rightarrow> string \<Rightarrow> string \<Rightarrow> 's \<Rightarrow> (string, 's) outcome" where
  "imgPut = objPut imageKind"

definition imgGet :: "(string \<Rightarrow> Time option) \<Rightarrow> 's Store \<Rightarrow> string \<Rightarrow> 's \<Rightarrow> (ObjRecord, 's) outcome" where
  "imgGet lenient = objGet lenient imageKind"

definition imgGetBytes :: "(string \<Rightarrow> Time option) \<Rightarrow> 's Store \<Rightarrow> string \<Rightarrow> 's \<Rightarrow> (string \<times> string, 's) outcome" where
  "imgGetBytes lenient = objGetBytes lenient imageKind"

definition imgMeta :: "(string \<Rightarrow> Time option) \<Rightarrow> 's Store \<Rightarrow> string \<Rightarrow> 's \<Rightarrow> (ObjMeta, 's) outcome" where
  "imgMeta lenient = objMeta lenient imageKind"

definition imgList :: "(string \<Rightarrow> Time option) \<Rightarrow> 's Store \<Rightarrow> 's \<Rightarrow> (ObjMeta list, 's) outcome" where
  "imgList lenient = objList lenient imageKind"

definition imgDelete :: "'s Store \<Rightarrow> string \<Rightarrow> 's \<Rightarrow> (unit, 's) outcome" where
  "imgDelete = objDelete imageKind"

section \<open>Records\<close>

definition known :: "kind \<Rightarrow> bool" where
  "known K \<longleftrightarrow> K = blobKind \<or> K = imageKind"

definition coerce_record :: "ObjRecord \<Rightarrow> ObjRecord" where
  "coerce_record r = r\<lparr>oID := utf8_coerce (oID r), oContentType := utf8_coerce (oContentType r), oData := utf8_coerce (oData r)\<rparr>"

lemma record_round_trip:
  assumes "known K" and "valid_time (oCreatedAt r)" and "in_i64 (oSize r)"
  obtains b where "marshal_record K r = Inr b" "unmarshal_record lenient K b = Some (coerce_record r)"
proof -
  let ?j = "JObj [(''id'', JStr (oID r)), (kType K, JStr (oContentType r)), (''data'', JStr (oData r)),
    (''size'', jint (oSize r)), (''created_at'', JStr (format_time (oCreatedAt r)))]"
  have names: "fold_name ''id'' = ''id''" "fold_name ''data'' = ''data''" "fold_name ''size'' = ''size''"
    "fold_name ''created_at'' = ''created_at''" "fold_name ''content_type'' = ''content_type''" "fold_name ''mime_type'' = ''mime_type''"
    by (simp_all add: numeral_eq_Suc)
  have utf8: "utf8_coerce ''id'' = ''id''" "utf8_coerce ''data'' = ''data''" "utf8_coerce ''size'' = ''size''"
    "utf8_coerce ''created_at'' = ''created_at''" "utf8_coerce ''content_type'' = ''content_type''" "utf8_coerce ''mime_type'' = ''mime_type''"
    by (simp_all add: utf8_valid_ascii)
  have time: "json_time lenient (JStr (format_time (oCreatedAt r))) x = Some (oCreatedAt r)" for x
    using assms(2) by (rule json_time_format)
  consider "K = blobKind" | "K = imageKind" using assms(1) by (auto simp: known_def)
  then have "json_struct (record_field lenient K) zeroRecord (jcoerce ?j) = Some (coerce_record r)"
  proof cases
    case 1
    show ?thesis unfolding 1
      using assms(3) time
      by (simp add: blobKind_def utf8 format_time_ascii record_field_def field_is_def names
        zeroRecord_def coerce_record_def del: fold_name.simps json_time.simps)
  next
    case 2
    show ?thesis unfolding 2
      using assms(3) time
      by (simp add: imageKind_def utf8 format_time_ascii record_field_def field_is_def names
        zeroRecord_def coerce_record_def del: fold_name.simps json_time.simps)
  qed
  moreover have "jparse (jprint ?j) = Some (jcoerce ?j)" by (intro jparse_jprint) simp
  ultimately have "unmarshal_record lenient K (jprint ?j) = Some (coerce_record r)"
    by (simp only: unmarshal_record_def bind.bind_lunit)
  moreover have "marshal_record K r = Inr (jprint ?j)" using assms(2) by (simp only: marshal_record_def marshal_valid_time sum.case)
  ultimately show ?thesis using that by blast
qed

text \<open>The record that \<open>Put\<close> writes, and what reading it gives.\<close>

definition stored :: "kind \<Rightarrow> Time \<Rightarrow> nat \<Rightarrow> Time \<Rightarrow> string \<Rightarrow> string \<Rightarrow> ObjRecord" where
  "stored K now rnd now' dat contentType =
     \<lparr>oID = obj_id K now rnd, oContentType = utf8_coerce contentType, oData = b64_encode dat, oSize = int (length dat),
      oCreatedAt = now'\<rparr>"

lemma hex04_ascii: "c \<in> set (hex04 n) \<Longrightarrow> ord c < 128"
  by (auto simp: hex04_def hexdigit_ascii)

lemma itoa_ascii: "c \<in> set (itoa z) \<Longrightarrow> ord c < 128"
  using numchar_itoa [of z] by (auto simp: list_all_iff is_numchar_def is_digit_def)

lemma obj_id_utf8: "known K \<Longrightarrow> utf8_coerce (obj_id K now rnd) = obj_id K now rnd"
  by (intro utf8_coerce_valid utf8_valid_ascii)
    (auto simp: list_all_iff obj_id_def known_def blobKind_def imageKind_def hex04_ascii itoa_ascii)

lemma objPut_writes:
  assumes "kv_store S I A" and "I s" and "known K" and "valid_time now'" and "in_i64 (int (length dat))"
  obtains b s' where "objPut K S now rnd now' dat ct s = (Inr (obj_id K now rnd), s')" "I s'"
    "A s' = (A s)(kPrefix K @ obj_id K now rnd \<mapsto> b)" "unmarshal_record lenient K b = Some (stored K now rnd now' dat ct)"
proof -
  let ?r = "\<lparr>oID = obj_id K now rnd, oContentType = ct, oData = b64_encode dat, oSize = int (length dat), oCreatedAt = now'\<rparr>"
  obtain b where b: "marshal_record K ?r = Inr b" "unmarshal_record lenient K b = Some (coerce_record ?r)"
    using record_round_trip [OF assms(3), of ?r lenient] assms(4,5) by auto
  obtain s' where s': "sSet S (kPrefix K @ obj_id K now rnd) b s = (Inr (), s')" "I s'"
    "A s' = (A s)(kPrefix K @ obj_id K now rnd \<mapsto> b)"
    using kv_store.set_run [OF assms(1,2)] .
  moreover have "objPut K S now rnd now' dat ct s = (Inr (obj_id K now rnd), s')"
    using b(1) s'(1) by (simp add: objPut_def Let_def)
  moreover have "coerce_record ?r = stored K now rnd now' dat ct"
    using obj_id_utf8 [OF assms(3)] by (simp add: coerce_record_def stored_def)
  ultimately show ?thesis using b(2) that by metis
qed

lemma objGet_run:
  assumes "kv_store S I A" and "I s" and "A s (kPrefix K @ oid) = Some b" and "unmarshal_record lenient K b = Some rec"
  obtains s' where "objGet lenient K S oid s = (Inr rec, s')" "I s'" "A s' = A s"
proof -
  obtain s' where "sGet S (kPrefix K @ oid) s = (case A s (kPrefix K @ oid) of None \<Rightarrow> Inl ErrNotFound | Some v \<Rightarrow> Inr v, s')"
    "I s'" "A s' = A s" using kv_store.get_run [OF assms(1,2)] .
  then show ?thesis using assms(3,4) by (intro that [of s']) (simp_all add: objGet_def)
qed

section \<open>Sequences of puts\<close>

record put =
  pNow :: Time
  pRnd :: nat
  pNow' :: Time
  pData :: string
  pType :: string

definition put_id :: "kind \<Rightarrow> put \<Rightarrow> string" where
  "put_id K p = obj_id K (pNow p) (pRnd p)"

definition put_record :: "kind \<Rightarrow> put \<Rightarrow> ObjRecord" where
  "put_record K p = stored K (pNow p) (pRnd p) (pNow' p) (pData p) (pType p)"

definition put_ok :: "put \<Rightarrow> bool" where
  "put_ok p \<longleftrightarrow> valid_time (pNow' p) \<and> in_i64 (int (length (pData p)))"

fun put_all :: "kind \<Rightarrow> 's Store \<Rightarrow> put list \<Rightarrow> 's \<Rightarrow> 's" where
  "put_all K S [] s = s"
| "put_all K S (p # ps) s = put_all K S ps (snd (objPut K S (pNow p) (pRnd p) (pNow' p) (pData p) (pType p) s))"

definition put_key :: "kind \<Rightarrow> put \<Rightarrow> string" where
  "put_key K p = kPrefix K @ put_id K p"

definition reads_as :: "(string \<Rightarrow> Time option) \<Rightarrow> kind \<Rightarrow> (string \<rightharpoonup> string) \<Rightarrow> put \<Rightarrow> bool" where
  "reads_as lenient K m p \<longleftrightarrow> (\<exists>b. m (put_key K p) = Some b \<and> unmarshal_record lenient K b = Some (put_record K p))"

lemma put_all_content:
  assumes "kv_store S I A" and "I s" and "known K" and "\<forall>p \<in> set ps. put_ok p" and "distinct (map (put_key K) ps)"
  shows "I (put_all K S ps s) \<and> (\<forall>p \<in> set ps. reads_as lenient K (A (put_all K S ps s)) p) \<and>
    (\<forall>k. k \<notin> put_key K ` set ps \<longrightarrow> A (put_all K S ps s) k = A s k)"
  using assms(2,4,5)
proof (induction ps arbitrary: s)
  case (Cons p ps)
  have ok: "valid_time (pNow' p)" "in_i64 (int (length (pData p)))" using Cons.prems(2) by (simp_all add: put_ok_def)
  obtain b s1 where p: "objPut K S (pNow p) (pRnd p) (pNow' p) (pData p) (pType p) s = (Inr (put_id K p), s1)" "I s1"
      "A s1 = (A s)(put_key K p \<mapsto> b)" "unmarshal_record lenient K b = Some (put_record K p)"
    unfolding put_id_def put_key_def put_record_def by (rule objPut_writes [OF assms(1) Cons.prems(1) assms(3) ok])
  from Cons.IH [OF p(2)] Cons.prems(2,3) have ih: "I (put_all K S ps s1)"
      "\<forall>q \<in> set ps. reads_as lenient K (A (put_all K S ps s1)) q"
      "\<forall>k. k \<notin> put_key K ` set ps \<longrightarrow> A (put_all K S ps s1) k = A s1 k"
    by simp_all
  then have "reads_as lenient K (A (put_all K S ps s1)) p"
    using Cons.prems(3) p(3,4) by (auto simp: reads_as_def)
  then show ?case using ih p(1,3) by auto
qed simp

lemma insort_key_cong: "(\<And>y. y \<in> set ys \<Longrightarrow> f x \<le> f y \<longleftrightarrow> g x \<le> g y) \<Longrightarrow> insort_key f x ys = insort_key g x ys"
  by (induction ys) auto

lemma sort_key_prefix: "sort_key (put_key K) ps = sort_key (put_id K) ps"
  by (induction ps) (auto simp: put_key_def intro: insort_key_cong)

lemma sorted_keys: "distinct (map f ps) \<Longrightarrow> sorted_list_of_set (f ` set ps) = map f (sort_key f ps)"
  by (rule sorted_distinct_set_unique) (simp_all add: distinct_map)

lemma collect_metas_all:
  assumes "\<forall>p \<in> set ps. reads_as lenient K m p"
  shows "collect_metas lenient K (map (entry_at m) (map (put_key K) ps)) = map (\<lambda>p. meta_of (put_record K p)) ps"
  using assms by (induction ps) (auto simp: reads_as_def entry_at_def)

section \<open>Properties\<close>

text \<open>C32. What is put is read back: \<open>Put\<close> returns an identifier under which \<open>GetBytes\<close> gives the
  bytes and the content type (with invalid UTF-8 replaced) and \<open>Meta\<close> the size and time; every
  other key of the shared store is as before, and after \<open>Delete\<close> the identifier is unknown.\<close>

theorem blob_round_trip:
  assumes "kv_store S I A" and "I s" and "known K" and "valid_time now'" and "in_i64 (int (length dat))"
  shows "\<exists>s'. objPut K S now rnd now' dat ct s = (Inr (obj_id K now rnd), s') \<and> I s' \<and>
    (\<forall>k. k \<noteq> kPrefix K @ obj_id K now rnd \<longrightarrow> A s' k = A s k) \<and>
    fst (objGetBytes lenient K S (obj_id K now rnd) s') = Inr (dat, utf8_coerce ct) \<and>
    fst (objMeta lenient K S (obj_id K now rnd) s') =
      Inr \<lparr>mID = obj_id K now rnd, mContentType = utf8_coerce ct, mSize = int (length dat), mCreatedAt = now'\<rparr> \<and>
    (\<exists>s''. objDelete K S (obj_id K now rnd) s' = (Inr (), s'') \<and>
      A s'' = (A s)(kPrefix K @ obj_id K now rnd := None) \<and>
      fst (objGet lenient K S (obj_id K now rnd) s'') =
        Inl (Wrap (kPackage K @ '': get '' @ obj_id K now rnd @ '': '') ErrNotFound))"
proof -
  let ?id = "obj_id K now rnd"
  obtain b s' where p: "objPut K S now rnd now' dat ct s = (Inr ?id, s')" "I s'" "A s' = (A s)(kPrefix K @ ?id \<mapsto> b)"
      "unmarshal_record lenient K b = Some (stored K now rnd now' dat ct)"
    using objPut_writes [OF assms] .
  have "A s' (kPrefix K @ ?id) = Some b" using p(3) by simp
  from objGet_run [OF assms(1) p(2) this p(4)] obtain t where
    "objGet lenient K S ?id s' = (Inr (stored K now rnd now' dat ct), t)" by blast
  then have "fst (objGetBytes lenient K S ?id s') = Inr (dat, utf8_coerce ct)"
    "fst (objMeta lenient K S ?id s') = Inr \<lparr>mID = ?id, mContentType = utf8_coerce ct, mSize = int (length dat), mCreatedAt = now'\<rparr>"
    by (simp_all add: objGetBytes_def objMeta_def stored_def meta_of_def)
  moreover obtain s'' where d: "sDelete S (kPrefix K @ ?id) s' = (Inr (), s'')" "I s''" "A s'' = (A s')(kPrefix K @ ?id := None)"
    using kv_store.delete_run_present [OF assms(1) p(2), of "kPrefix K @ ?id"] p(3) by auto
  moreover obtain u where "sGet S (kPrefix K @ ?id) s'' = (Inl ErrNotFound, u)"
    using kv_store.get_run [OF assms(1) d(2), of "kPrefix K @ ?id"] d(3) by auto
  ultimately show ?thesis using p(1,2,3) by (auto simp: objDelete_def objGet_def)
qed

definition demoTime :: Time where
  "demoTime = \<lparr>tYear = 2023, tMonth = 11, tDay = 14, tHour = 23, tMinute = 13, tSecond = 20, tNano = 5000000, tZone = 60\<rparr>"

lemma demoTime_valid: "valid_time demoTime"
  by (simp add: demoTime_def valid_time_def daysIn_def)

lemma demoTime_milli: "UnixMilli demoTime = 1700000000005"
  by (simp add: demoTime_def UnixMilli_def unix_days_def daysIn_def is_leap_def upt_rec)

theorem blob_round_trip_witness:
  "\<exists>s'. objPut blobKind memStore demoTime 255 demoTime ''hi'' ''text/plain'' NewMemory = (Inr (obj_id blobKind demoTime 255), s') \<and>
    fst (objGetBytes (\<lambda>_. None) blobKind memStore (obj_id blobKind demoTime 255) s') = Inr (''hi'', ''text/plain'')"
proof -
  have "mem_inv NewMemory" by (simp add: mem_inv_def NewMemory_def)
  from blob_round_trip [OF mem.kv_store_axioms this _ demoTime_valid, of blobKind "''hi''" demoTime 255 "''text/plain''" "\<lambda>_. None"]
  show ?thesis by (auto simp: known_def in_i64_def utf8_valid_ascii)
qed

text \<open>C33. A listing after any sequence of puts with different identifiers, on a store without keys
  of this kind: the metadata of exactly the objects that were put, in the byte order of their
  identifiers.  (Not in the order of insertion: two objects of one millisecond are ordered by
  their random parts.)\<close>

theorem blob_list:
  assumes "kv_store S I A" and "I s" and "known K" and "\<forall>p \<in> set ps. put_ok p" and "distinct (map (put_id K) ps)"
    and "\<forall>k. prefix (kPrefix K) k \<longrightarrow> A s k = None"
  shows "fst (objList lenient K S (put_all K S ps s)) = Inr (map (\<lambda>p. meta_of (put_record K p)) (sort_key (put_id K) ps))"
proof -
  let ?s = "put_all K S ps s" and ?a = "\<lparr>Prefix = kPrefix K, StartAfter = [], Limit = 0\<rparr>"
  have d: "distinct (map (put_key K) ps)" using assms(5) by (auto simp: distinct_map inj_on_def put_key_def)
  note c = put_all_content [OF assms(1-4) d, of lenient]
  have "{k \<in> dom (A ?s). in_range ?a k} = put_key K ` set ps"
  proof (rule set_eqI)
    fix k
    have "A ?s k \<noteq> None \<longleftrightarrow> k \<in> put_key K ` set ps" if "prefix (kPrefix K) k"
      using c assms(6) that by (cases "k \<in> put_key K ` set ps") (auto simp: reads_as_def)
    then show "k \<in> {k \<in> dom (A ?s). in_range ?a k} \<longleftrightarrow> k \<in> put_key K ` set ps"
      by (auto simp: in_range_def put_key_def)
  qed
  then have "list_spec (A ?s) ?a = map (entry_at (A ?s)) (map (put_key K) (sort_key (put_id K) ps))"
    by (simp add: list_spec_def sorted_keys [OF d] sort_key_prefix)
  moreover obtain t where "sList S ?a ?s = (Inr (list_spec (A ?s) ?a), t)"
    using kv_store.list_run [OF assms(1), of ?s ?a] c by blast
  ultimately show ?thesis
    using c collect_metas_all [of "sort_key (put_id K) ps"] by (simp add: objList_def)
qed

text \<open>Two blobs of one millisecond, listed in the opposite order.\<close>

definition demoPut :: "nat \<Rightarrow> string \<Rightarrow> put" where
  "demoPut rnd dat = \<lparr>pNow = demoTime, pRnd = rnd, pNow' = demoTime, pData = dat, pType = ''text/plain''\<rparr>"

theorem blob_list_witness:
  "fst (objList (\<lambda>_. None) blobKind memStore (put_all blobKind memStore [demoPut 2 ''first'', demoPut 1 ''second''] NewMemory)) =
    Inr (map (\<lambda>p. meta_of (put_record blobKind p)) [demoPut 1 ''second'', demoPut 2 ''first''])"
proof -
  have inv: "mem_inv NewMemory" by (simp add: mem_inv_def NewMemory_def)
  have lt: "put_id blobKind (demoPut 1 b) < put_id blobKind (demoPut 2 a)" for a b
    by (simp add: put_id_def demoPut_def obj_id_def hex04_def hexdigit_def less_char_def)
  have "sort_key (put_id blobKind) [demoPut 2 ''first'', demoPut 1 ''second''] = [demoPut 1 ''second'', demoPut 2 ''first'']"
    using lt [of "''second''" "''first''"] by (simp add: leD)
  moreover have "distinct (map (put_id blobKind) [demoPut 2 ''first'', demoPut 1 ''second''])"
    using lt [of "''second''" "''first''"] by auto
  moreover have "\<forall>p \<in> set [demoPut 2 ''first'', demoPut 1 ''second'']. put_ok p"
    by (simp add: put_ok_def demoPut_def demoTime_valid in_i64_def)
  ultimately show ?thesis
    using blob_list [OF mem.kv_store_axioms inv, of blobKind "[demoPut 2 ''first'', demoPut 1 ''second'']" "\<lambda>_. None"]
    by (simp add: known_def mem_abs_def NewMemory_def)
qed

end
