(* ===== verification/Ordered.thy ===== *)
theory Ordered
  imports Store
begin

text \<open>
  Iteration in key order, which the backends on embedded databases share: the entries of a
  content from a position on, and how a loop that stops at the end of a prefix relates to
  \<open>list_spec\<close>.
\<close>

section \<open>Entries in order\<close>

definition pairs_from :: "(string \<rightharpoonup> string) \<Rightarrow> string \<Rightarrow> (string \<times> string) list" where
  "pairs_from m p = map (\<lambda>k. (k, the (m k))) (sorted_list_of_set {k \<in> dom m. p \<le> k})"

definition to_pair :: "string \<times> string \<Rightarrow> KeyValuePair" where
  "to_pair kv = \<lparr>kvKey = fst kv, kvValue = snd kv\<rparr>"

text \<open>Keys with a prefix lie together, from the prefix on.\<close>

lemma prefix_between: "p \<le> k \<Longrightarrow> k \<le> k' \<Longrightarrow> prefix p k' \<Longrightarrow> prefix p (k :: string)"
proof (induction p arbitrary: k k')
  case (Cons c p)
  obtain r' where k': "k' = c # r'" "prefix p r'" using Cons.prems(3) by (cases k') auto
  obtain d r where k: "k = d # r" using Cons.prems(1) by (cases k) auto
  have "d = c" using Cons.prems(1,2) by (auto simp: k k')
  then show ?case using Cons.IH [of r r'] Cons.prems by (auto simp: k k')
qed simp

lemma prefix_le: "prefix p k \<Longrightarrow> p \<le> (k :: string)"
  by (auto simp: prefix_def append_le_same [of p "[]", simplified])

lemma takeWhile_filter:
  assumes "sorted_wrt (<) xs" and "\<And>x y. x \<in> set xs \<Longrightarrow> y \<in> set xs \<Longrightarrow> x < y \<Longrightarrow> P y \<Longrightarrow> P x"
  shows "takeWhile P xs = filter P xs"
  using assms
proof (induction xs)
  case (Cons x xs)
  show ?case
  proof (cases "P x")
    case True
    moreover have "takeWhile P xs = filter P xs" using Cons.prems by (intro Cons.IH) auto
    ultimately show ?thesis by simp
  next
    case False
    then have "\<forall>y \<in> set xs. \<not> P y" using Cons.prems by (meson list.set_intros sorted_wrt.simps(2))
    then show ?thesis using False by simp
  qed
qed simp

lemma filter_sorted_set:
  assumes "finite A"
  shows "filter P (sorted_list_of_set A) = sorted_list_of_set {x \<in> A. P x}"
  by (rule sorted_distinct_set_unique) (use assms in \<open>auto intro: sorted_wrt_filter\<close>)

lemma pairs_prefix:
  assumes "finite (dom m)" and "p \<le> q"
  shows "takeWhile (\<lambda>kv. prefix p (fst kv)) (pairs_from m q) =
    map (\<lambda>k. (k, the (m k))) (sorted_list_of_set {k \<in> dom m. q \<le> k \<and> prefix p k})"
proof -
  let ?ks = "sorted_list_of_set {k \<in> dom m. q \<le> k}"
  have "takeWhile (prefix p) ?ks = filter (prefix p) ?ks"
  proof (rule takeWhile_filter)
    show "prefix p x" if "x \<in> set ?ks" "y \<in> set ?ks" "x < y" "prefix p y" for x y
      using that assms prefix_between [of p x y] by auto
  qed (rule strict_sorted_list_of_set)
  also have "\<dots> = sorted_list_of_set {k \<in> dom m. q \<le> k \<and> prefix p k}"
    using assms(1) by (simp add: filter_sorted_set)
  finally show ?thesis by (simp add: pairs_from_def takeWhile_map comp_def)
qed

lemma list_spec_pairs:
  "list_spec m a = limit_to (Limit a) (map to_pair (map (\<lambda>k. (k, the (m k))) (sorted_list_of_set {k \<in> dom m. in_range a k})))"
  by (simp add: list_spec_def entry_at_def [abs_def] to_pair_def comp_def)

end
