(* ===== verification/Adapter.thy ===== *)
theory Adapter
  imports Ordered Memory
begin

text \<open>
  What the backends over database servers have in common: an operation either reports an error
  of the database and leaves the content alone, or it does what the contract of \<open>Store\<close> says
  (\<open>serves\<close>).  A store whose operations all do meets the contract (\<open>fallible_storeI\<close>).
\<close>

text \<open>An error that is not the one for a missing key.\<close>

definition db_error :: "error \<Rightarrow> bool" where
  "db_error e \<longleftrightarrow> \<not> errors_Is e ErrNotFound"

definition serves ::
  "('d \<Rightarrow> bool) \<Rightarrow> ('d \<Rightarrow> (string \<rightharpoonup> string)) \<Rightarrow> 'd \<Rightarrow> ('a, 'd) outcome \<Rightarrow> 'a result \<Rightarrow> (string \<rightharpoonup> string) \<Rightarrow> bool" where
  "serves I A d r res m \<longleftrightarrow>
     I (snd r) \<and> ((\<exists>e. fst r = Inl e \<and> db_error e \<and> A (snd r) = A d) \<or> (fst r = res \<and> A (snd r) = m))"

lemma serves_done [intro]: "I d' \<Longrightarrow> A d' = m \<Longrightarrow> serves I A d (res, d') res m"
  by (simp add: serves_def)

lemma serves_error [intro]: "I d' \<Longrightarrow> A d' = A d \<Longrightarrow> db_error e \<Longrightarrow> serves I A d (Inl e, d') res m"
  by (simp add: serves_def)

lemma fallible_storeI:
  assumes fin: "\<And>d. I d \<Longrightarrow> finite (dom (A d))"
    and get: "\<And>d k. I d \<Longrightarrow> serves I A d (sGet S k d) (case A d k of None \<Rightarrow> Inl ErrNotFound | Some v \<Rightarrow> Inr v) (A d)"
    and set: "\<And>d k v. I d \<Longrightarrow> serves I A d (sSet S k v d) (Inr ()) ((A d)(k \<mapsto> v))"
    and setnx: "\<And>d k v. I d \<Longrightarrow>
      serves I A d (sSetIfNotExists S k v d) (Inr (A d k = None)) (if A d k = None then (A d)(k \<mapsto> v) else A d)"
    and del: "\<And>d k. I d \<Longrightarrow> serves I A d (sDelete S k d) (if A d k = None then Inl ErrNotFound else Inr ()) ((A d)(k := None))"
    and list: "\<And>d a. I d \<Longrightarrow> serves I A d (sList S a d) (Inr (list_spec (A d) a)) (A d)"
  shows "fallible_store S I A"
proof
  fix d k v e c a xs assume I: "I d"
  note get = get [OF I, of k] and set = set [OF I, of k v] and setnx = setnx [OF I, of k v] and del = del [OF I, of k]
    and list = list [OF I, of a]
  show "finite (dom (A d))" using I by (rule fin)
  show "I (snd (sGet S k d)) \<and> A (snd (sGet S k d)) = A d" using get by (auto simp: serves_def)
  show "fst (sGet S k d) = Inr v \<Longrightarrow> A d k = Some v" using get by (auto simp: serves_def split: option.splits)
  show "fst (sGet S k d) = Inl e \<Longrightarrow> errors_Is e ErrNotFound \<Longrightarrow> A d k = None"
    using get by (auto simp: serves_def db_error_def split: option.splits)
  show "I (snd (sSet S k v d)) \<and> A (snd (sSet S k v d)) = (case fst (sSet S k v d) of Inl _ \<Rightarrow> A d | Inr _ \<Rightarrow> (A d)(k \<mapsto> v))"
    using set by (auto simp: serves_def)
  show "I (snd (sSetIfNotExists S k v d)) \<and> A (snd (sSetIfNotExists S k v d)) =
      (case fst (sSetIfNotExists S k v d) of Inl _ \<Rightarrow> A d | Inr c \<Rightarrow> (if c then (A d)(k \<mapsto> v) else A d))"
    using setnx by (auto simp: serves_def)
  show "fst (sSetIfNotExists S k v d) = Inr c \<Longrightarrow> c \<longleftrightarrow> A d k = None" using setnx by (auto simp: serves_def)
  show "I (snd (sDelete S k d)) \<and> A (snd (sDelete S k d)) = (case fst (sDelete S k d) of Inl _ \<Rightarrow> A d | Inr _ \<Rightarrow> (A d)(k := None))"
    using del by (auto simp: serves_def fun_upd_idem)
  show "fst (sDelete S k d) = Inl e \<Longrightarrow> errors_Is e ErrNotFound \<Longrightarrow> A d k = None"
    using del by (auto simp: serves_def db_error_def split: if_splits)
  show "I (snd (sList S a d)) \<and> A (snd (sList S a d)) = A d" using list by (auto simp: serves_def)
  show "fst (sList S a d) = Inr xs \<Longrightarrow> xs = list_spec (A d) a" using list by (auto simp: serves_def)
qed

section \<open>Results that are read row by row\<close>

text \<open>The loop over a cursor or over rows: each row is the result of decoding it.  After the loop
  the error of the cursor is checked.\<close>

fun collect_rows :: "('r \<Rightarrow> KeyValuePair) \<Rightarrow> 'r result list \<Rightarrow> KeyValuePair list \<Rightarrow> KeyValuePair list result" where
  "collect_rows pair [] results = Inr results"
| "collect_rows pair (Inl e # rows) results = Inl e"
| "collect_rows pair (Inr x # rows) results = collect_rows pair rows (results @ [pair x])"

definition read_rows ::
  "('r \<Rightarrow> KeyValuePair) \<Rightarrow> ('r result list \<times> error option) result \<Rightarrow> 'd \<Rightarrow> (KeyValuePair list, 'd) outcome" where
  "read_rows pair r d =
     (case r of
        Inl e \<Rightarrow> (Inl e, d)
      | Inr (rows, err) \<Rightarrow>
          (case collect_rows pair rows [] of
             Inl e \<Rightarrow> (Inl e, d)
           | Inr results \<Rightarrow> (case err of Some e \<Rightarrow> (Inl e, d) | None \<Rightarrow> (Inr results, d))))"

text \<open>A query that gives certain rows, unless there is an error of the database.\<close>

definition yields :: "'r list \<Rightarrow> ('r result list \<times> error option) result \<Rightarrow> bool" where
  "yields xs r \<longleftrightarrow>
     (case r of
        Inl e \<Rightarrow> db_error e
      | Inr (rows, err) \<Rightarrow>
          (\<forall>e. Inl e \<in> set rows \<or> err = Some e \<longrightarrow> db_error e) \<and>
          ((\<forall>e. Inl e \<notin> set rows) \<and> err = None \<longrightarrow> rows = map Inr xs))"

lemma collect_rows_ok: "collect_rows pair (map Inr xs) acc = Inr (acc @ map pair xs)"
  by (induction xs arbitrary: acc) simp_all

lemma collect_rows_error: "collect_rows pair rows acc = Inl e \<Longrightarrow> Inl e \<in> set rows"
  by (induction pair rows acc rule: collect_rows.induct) auto

lemma collect_rows_clean: "collect_rows pair rows acc = Inr r \<Longrightarrow> Inl e \<notin> set rows"
  by (induction pair rows acc rule: collect_rows.induct) auto

lemma read_rows_serves:
  assumes "yields xs r" and "I d"
  shows "serves I A d (read_rows pair r d) (Inr (map pair xs)) (A d)"
proof (cases r)
  case (Inl e)
  then show ?thesis using assms by (auto simp: yields_def read_rows_def)
next
  case (Inr p)
  obtain rows err where p: "p = (rows, err)" by (cases p)
  show ?thesis
  proof (cases "collect_rows pair rows []")
    case (Inl e)
    then show ?thesis using assms collect_rows_error [OF Inl] Inr p by (auto simp: yields_def read_rows_def)
  next
    case (Inr results)
    have "rows = map Inr xs" if "err = None" using assms(1) \<open>r = Inr p\<close> p that collect_rows_clean [OF Inr] by (simp add: yields_def)
    then have "results = map pair xs" if "err = None" using Inr that by (simp add: collect_rows_ok)
    then show ?thesis using Inr \<open>r = Inr p\<close> p assms by (auto simp: yields_def read_rows_def split: option.split)
  qed
qed

end
