(* ===== verification/Bolt.thy ===== *)
theory Bolt
  imports Adapter
begin

text \<open>
  The bbolt backend, \<open>src/backend/bbolt/main.go\<close>.  The database is the parameter \<open>D\<close>, a record of
  the operations of bbolt that the code calls, over its own types of databases and
  transactions: \<open>dbView\<close> begins a read transaction, \<open>dbUpdate\<close> runs a function in a write
  transaction (the boolean is the variable that the function captures), the others act on the
  bucket \<open>kv\<close> in a transaction.  A cursor is the list of the entries it moves through.
  \<open>bolt_law\<close> is what the documentation of bbolt says of them: a transaction sees the current
  content, a write transaction is all or nothing, a bucket is a map in byte order.

  Shown here: over any database that keeps the law, the backend meets the contract of \<open>Store\<close>,
  and so everything proved of the engine over \<open>fallible_store\<close> applies to it.
\<close>

section \<open>Model\<close>

record ('d, 't) bolt =
  dbView :: "'d \<Rightarrow> 't result"
  dbUpdate :: "('t \<Rightarrow> (bool, 't) outcome) \<Rightarrow> 'd \<Rightarrow> (bool, 'd) outcome"
  dbClose :: "'d \<Rightarrow> (unit, 'd) outcome"
  CreateBucketIfNotExists :: "'t \<Rightarrow> (unit, 't) outcome"
  DeleteBucket :: "'t \<Rightarrow> (unit, 't) outcome"
  CreateBucket :: "'t \<Rightarrow> (unit, 't) outcome"
  bGet :: "string \<Rightarrow> 't \<Rightarrow> string option"
  bPut :: "string \<Rightarrow> string \<Rightarrow> 't \<Rightarrow> (unit, 't) outcome"
  bDelete :: "string \<Rightarrow> 't \<Rightarrow> (unit, 't) outcome"
  cFirst :: "'t \<Rightarrow> (string \<times> string) list"
  cSeek :: "string \<Rightarrow> 't \<Rightarrow> (string \<times> string) list"

definition returning :: "'b \<Rightarrow> ('a, 't) outcome \<Rightarrow> ('b, 't) outcome" where
  "returning c r = (case r of (Inl e, t) \<Rightarrow> (Inl e, t) | (Inr _, t) \<Rightarrow> (Inr c, t))"

definition boltNew :: "('d, 't) bolt \<Rightarrow> 'd result \<Rightarrow> 'd result" where
  "boltNew D opened =
     (case opened of
        Inl e \<Rightarrow> Inl e
      | Inr d \<Rightarrow>
          (case dbUpdate D (\<lambda>t. returning False (CreateBucketIfNotExists D t)) d of
             (Inl e, d) \<Rightarrow> (case dbClose D d of _ \<Rightarrow> Inl e)
           | (Inr _, d) \<Rightarrow> Inr d))"

definition boltClose :: "('d, 't) bolt \<Rightarrow> 'd \<Rightarrow> (unit, 'd) outcome" where
  "boltClose D d = dbClose D d"

definition boltClear :: "('d, 't) bolt \<Rightarrow> 'd \<Rightarrow> (unit, 'd) outcome" where
  "boltClear D d =
     returning () (dbUpdate D (\<lambda>t.
       (case DeleteBucket D t of
          (Inl e, t) \<Rightarrow> (Inl e, t)
        | (Inr _, t) \<Rightarrow> returning False (CreateBucket D t))) d)"

definition boltGet :: "('d, 't) bolt \<Rightarrow> string \<Rightarrow> 'd \<Rightarrow> (string, 'd) outcome" where
  "boltGet D key d =
     (case dbView D d of
        Inl e \<Rightarrow> (Inl e, d)
      | Inr t \<Rightarrow> (case bGet D key t of None \<Rightarrow> (Inl ErrNotFound, d) | Some v \<Rightarrow> (Inr v, d)))"

definition boltSet :: "('d, 't) bolt \<Rightarrow> string \<Rightarrow> string \<Rightarrow> 'd \<Rightarrow> (unit, 'd) outcome" where
  "boltSet D key value d = returning () (dbUpdate D (\<lambda>t. returning False (bPut D key value t)) d)"

definition boltSetIfNotExists :: "('d, 't) bolt \<Rightarrow> string \<Rightarrow> string \<Rightarrow> 'd \<Rightarrow> (bool, 'd) outcome" where
  "boltSetIfNotExists D key value d =
     dbUpdate D (\<lambda>t. if bGet D key t \<noteq> None then (Inr False, t) else returning True (bPut D key value t)) d"

definition boltDelete :: "('d, 't) bolt \<Rightarrow> string \<Rightarrow> 'd \<Rightarrow> (unit, 'd) outcome" where
  "boltDelete D key d =
     returning () (dbUpdate D (\<lambda>t. if bGet D key t = None then (Inl ErrNotFound, t) else returning False (bDelete D key t)) d)"

text \<open>The loop over the cursor; the last argument is the number of entries collected so far.\<close>

fun bolt_scan :: "ListArgs \<Rightarrow> (string \<times> string) list \<Rightarrow> nat \<Rightarrow> KeyValuePair list" where
  "bolt_scan args [] n = []"
| "bolt_scan args ((k, v) # cursor) n =
     (if Prefix args \<noteq> [] \<and> \<not> prefix (Prefix args) k then []
      else if StartAfter args \<noteq> [] \<and> k \<le> StartAfter args then bolt_scan args cursor n
      else \<lparr>kvKey = k, kvValue = v\<rparr> #
        (if Limit args > 0 \<and> int (Suc n) \<ge> Limit args then [] else bolt_scan args cursor (Suc n)))"

definition boltList :: "('d, 't) bolt \<Rightarrow> ListArgs \<Rightarrow> 'd \<Rightarrow> (KeyValuePair list, 'd) outcome" where
  "boltList D args d =
     (case dbView D d of
        Inl e \<Rightarrow> (Inl e, d)
      | Inr t \<Rightarrow>
          (let cursor = (if Prefix args \<noteq> [] then cSeek D (Prefix args) t else cFirst D t)
           in (Inr (bolt_scan args cursor 0), d)))"

definition boltStore :: "('d, 't) bolt \<Rightarrow> 'd Store" where
  "boltStore D = \<lparr>sGet = boltGet D, sSet = boltSet D, sSetIfNotExists = boltSetIfNotExists D, sDelete = boltDelete D,
     sList = boltList D, sClose = boltClose D\<rparr>"

section \<open>What bbolt documents\<close>

text \<open>An error of the database itself is never the \<open>NotFoundError\<close> of the library.\<close>

definition writes :: "('t \<Rightarrow> bool) \<Rightarrow> ('t \<Rightarrow> (string \<rightharpoonup> string)) \<Rightarrow> (string \<rightharpoonup> string) \<Rightarrow> ('a, 't) outcome \<Rightarrow> bool" where
  "writes J B m r \<longleftrightarrow> (case r of (Inl e, t) \<Rightarrow> db_error e | (Inr _, t) \<Rightarrow> J t \<and> B t = m)"

definition transaction_law ::
  "('d, 't) bolt \<Rightarrow> ('d \<Rightarrow> bool) \<Rightarrow> ('d \<Rightarrow> (string \<rightharpoonup> string)) \<Rightarrow> ('t \<Rightarrow> bool) \<Rightarrow> ('t \<Rightarrow> (string \<rightharpoonup> string)) \<Rightarrow> bool" where
  "transaction_law D I A J B \<longleftrightarrow>
     (\<forall>d. I d \<longrightarrow> (case dbView D d of Inl e \<Rightarrow> db_error e | Inr t \<Rightarrow> J t \<and> B t = A d)) \<and>
     (\<forall>d f. I d \<and> (\<forall>t c t'. J t \<and> f t = (Inr c, t') \<longrightarrow> J t') \<longrightarrow>
        (case dbUpdate D f d of
           (Inl e, d') \<Rightarrow> I d' \<and> A d' = A d \<and> (db_error e \<or> (\<exists>t. J t \<and> B t = A d \<and> fst (f t) = Inl e))
         | (Inr c, d') \<Rightarrow> I d' \<and> (\<exists>t t'. J t \<and> B t = A d \<and> f t = (Inr c, t') \<and> A d' = B t')))"

definition bucket_law :: "('d, 't) bolt \<Rightarrow> ('t \<Rightarrow> bool) \<Rightarrow> ('t \<Rightarrow> (string \<rightharpoonup> string)) \<Rightarrow> bool" where
  "bucket_law D J B \<longleftrightarrow>
     (\<forall>t. J t \<longrightarrow> finite (dom (B t)) \<and> (\<forall>k. bGet D k t = B t k) \<and>
        (\<forall>k v. writes J B ((B t)(k \<mapsto> v)) (bPut D k v t)) \<and> (\<forall>k. writes J B ((B t)(k := None)) (bDelete D k t)) \<and>
        cFirst D t = pairs_from (B t) [] \<and> (\<forall>p. cSeek D p t = pairs_from (B t) p))"

definition bolt_law ::
  "('d, 't) bolt \<Rightarrow> ('d \<Rightarrow> bool) \<Rightarrow> ('d \<Rightarrow> (string \<rightharpoonup> string)) \<Rightarrow> ('t \<Rightarrow> bool) \<Rightarrow> ('t \<Rightarrow> (string \<rightharpoonup> string)) \<Rightarrow> bool" where
  "bolt_law D I A J B \<longleftrightarrow> (\<forall>d. I d \<longrightarrow> finite (dom (A d))) \<and> transaction_law D I A J B \<and> bucket_law D J B"

section \<open>The scan\<close>

lemma bolt_scan_filter:
  assumes "Limit a > 0 \<Longrightarrow> int n < Limit a"
  shows "bolt_scan a xs n =
    (let ys = filter (\<lambda>kv. StartAfter a = [] \<or> StartAfter a < fst kv) (takeWhile (\<lambda>kv. prefix (Prefix a) (fst kv)) xs)
     in map to_pair (if Limit a > 0 then take (nat (Limit a) - n) ys else ys))"
  using assms
proof (induction xs arbitrary: n)
  case (Cons kv xs)
  obtain k v where kv: "kv = (k, v)" by (cases kv)
  show ?case
  proof (cases "prefix (Prefix a) k \<and> (StartAfter a = [] \<or> StartAfter a < k)")
    case True
    have "take (nat (Limit a) - n) (y # ys) = y # take (nat (Limit a) - Suc n) ys" if "Limit a > 0" for y :: "string \<times> string" and ys
      using Cons.prems that by (cases "nat (Limit a) - n") (auto simp: diff_Suc)
    moreover have "take (nat (Limit a) - Suc n) ys = []" if "Limit a > 0" "int (Suc n) \<ge> Limit a" for ys :: "(string \<times> string) list"
      using that by simp
    ultimately show ?thesis using True Cons.IH [of "Suc n"] Cons.prems
      by (auto simp: kv to_pair_def Let_def not_le not_less)
  next
    case False
    then show ?thesis using Cons.IH [OF Cons.prems] by (auto simp: kv Let_def not_less not_le)
  qed
qed simp

lemma bolt_scan_spec:
  assumes "finite (dom m)"
  shows "bolt_scan a (pairs_from m (Prefix a)) 0 = list_spec m a"
proof -
  let ?f = "\<lambda>k. (k, the (m k))"
  have "takeWhile (\<lambda>kv. prefix (Prefix a) (fst kv)) (pairs_from m (Prefix a)) =
      map ?f (sorted_list_of_set {k \<in> dom m. prefix (Prefix a) k})"
    using pairs_prefix [OF assms, of "Prefix a" "Prefix a"] prefix_le [of "Prefix a"] by (simp cong: conj_cong) metis
  moreover have "filter (\<lambda>kv. StartAfter a = [] \<or> StartAfter a < fst kv) (map ?f (sorted_list_of_set {k \<in> dom m. prefix (Prefix a) k})) =
      map ?f (sorted_list_of_set {k \<in> dom m. in_range a k})"
    using assms by (simp add: filter_map comp_def filter_sorted_set in_range_def conj_assoc)
  ultimately show ?thesis
    by (simp add: bolt_scan_filter list_spec_pairs limit_to_def take_map Let_def)
qed

section \<open>Operations under the law\<close>

lemma view_cases:
  assumes "transaction_law D I A J B" and "I d"
  obtains e where "dbView D d = Inl e" "db_error e" | t where "dbView D d = Inr t" "J t" "B t = A d"
  using assms by (cases "dbView D d") (auto simp: transaction_law_def dest: spec [of _ d])

lemma update_cases:
  assumes "transaction_law D I A J B" and "I d" and "\<And>t c t'. J t \<Longrightarrow> f t = (Inr c, t') \<Longrightarrow> J t'"
  obtains e d' where "dbUpdate D f d = (Inl e, d')" "I d'" "A d' = A d" "db_error e \<or> (\<exists>t. J t \<and> B t = A d \<and> fst (f t) = Inl e)"
    | c d' t t' where "dbUpdate D f d = (Inr c, d')" "I d'" "J t" "B t = A d" "f t = (Inr c, t')" "A d' = B t'"
proof -
  have u: "case dbUpdate D f d of
      (Inl e, d') \<Rightarrow> I d' \<and> A d' = A d \<and> (db_error e \<or> (\<exists>t. J t \<and> B t = A d \<and> fst (f t) = Inl e))
    | (Inr c, d') \<Rightarrow> I d' \<and> (\<exists>t t'. J t \<and> B t = A d \<and> f t = (Inr c, t') \<and> A d' = B t')"
    using assms(1) [unfolded transaction_law_def, THEN conjunct2, rule_format, of d f] assms(2,3) by metis
  then show ?thesis
  proof (cases "fst (dbUpdate D f d)")
    case (Inl e)
    then have "dbUpdate D f d = (Inl e, snd (dbUpdate D f d))" by (simp add: prod_eq_iff)
    with u show ?thesis using that(1) [of e "snd (dbUpdate D f d)"] by auto
  next
    case (Inr c)
    then have "dbUpdate D f d = (Inr c, snd (dbUpdate D f d))" by (simp add: prod_eq_iff)
    with u show ?thesis using that(2) [of c "snd (dbUpdate D f d)"] by auto
  qed
qed

lemma bucketD:
  assumes "bucket_law D J B" and "J t"
  shows "finite (dom (B t))" "bGet D k t = B t k" "writes J B ((B t)(k \<mapsto> v)) (bPut D k v t)"
    "writes J B ((B t)(k := None)) (bDelete D k t)" "cFirst D t = pairs_from (B t) []" "cSeek D p t = pairs_from (B t) p"
  using assms by (simp_all add: bucket_law_def)

lemma writes_Inr: "writes J B m r \<Longrightarrow> r = (Inr x, t) \<Longrightarrow> J t \<and> B t = m"
  and writes_Inl: "writes J B m r \<Longrightarrow> r = (Inl e, t) \<Longrightarrow> db_error e"
  by (simp_all add: writes_def)

lemma returning_simps:
  "returning c r = (Inr x, t) \<longleftrightarrow> x = c \<and> (\<exists>y. r = (Inr y, t))" "returning c r = (Inl e, t) \<longleftrightarrow> r = (Inl e, t)"
  by (auto simp: returning_def split: prod.splits sum.splits)

lemma boltGet_cases:
  assumes "transaction_law D I A J B" "bucket_law D J B" "I d"
  obtains e where "boltGet D k d = (Inl e, d)" "db_error e"
    | "boltGet D k d = (case A d k of None \<Rightarrow> Inl ErrNotFound | Some v \<Rightarrow> Inr v, d)"
  by (rule view_cases [OF assms(1,3)]) (auto simp: boltGet_def bucketD(2) [OF assms(2)] split: option.splits intro: that)

lemma boltSet_cases:
  assumes "transaction_law D I A J B" "bucket_law D J B" "I d"
  obtains e d' where "boltSet D k v d = (Inl e, d')" "I d'" "A d' = A d" "db_error e"
    | d' where "boltSet D k v d = (Inr (), d')" "I d'" "A d' = (A d)(k \<mapsto> v)"
proof -
  have w: "J t' \<and> B t' = (B t)(k \<mapsto> v)" if "J t" "returning False (bPut D k v t) = (Inr c, t')" for t t' c
    using that writes_Inr [OF bucketD(3) [OF assms(2)]] by (auto simp: returning_simps)
  have f: "db_error e" if "J t" "fst (returning False (bPut D k v t)) = Inl e" for t e
    using that writes_Inl [OF bucketD(3) [OF assms(2) that(1), of k v]]
    by (cases "bPut D k v t") (auto simp: returning_def split: sum.splits)
  show ?thesis
    by (rule update_cases [OF assms(1,3), of "\<lambda>t. returning False (bPut D k v t)"])
      (use w f that in \<open>fastforce simp: boltSet_def returning_def\<close>)+
qed

lemma boltSetIfNotExists_cases:
  assumes "transaction_law D I A J B" "bucket_law D J B" "I d"
  obtains e d' where "boltSetIfNotExists D k v d = (Inl e, d')" "I d'" "A d' = A d" "db_error e"
    | d' where "boltSetIfNotExists D k v d = (Inr (A d k = None), d')" "I d'"
        "A d' = (if A d k = None then (A d)(k \<mapsto> v) else A d)"
proof -
  let ?f = "\<lambda>t. if bGet D k t \<noteq> None then (Inr False, t) else returning True (bPut D k v t)"
  have w: "J t' \<and> c = (B t k = None) \<and> B t' = (if B t k = None then (B t)(k \<mapsto> v) else B t)" if "J t" "?f t = (Inr c, t')" for t t' c
    using that writes_Inr [OF bucketD(3) [OF assms(2)]] bucketD(2) [OF assms(2), of t k]
    by (auto simp: returning_simps split: if_splits)
  have f: "db_error e" if "J t" "fst (?f t) = Inl e" for t e
    using that writes_Inl [OF bucketD(3) [OF assms(2) that(1), of k v]]
    by (cases "bPut D k v t") (auto simp: returning_def split: sum.splits if_splits)
  show ?thesis
    by (rule update_cases [OF assms(1,3), of ?f]) (use w f that in \<open>fastforce simp: boltSetIfNotExists_def\<close>)+
qed

lemma boltDelete_cases:
  assumes "transaction_law D I A J B" "bucket_law D J B" "I d"
  obtains e d' where "boltDelete D k d = (Inl e, d')" "I d'" "A d' = A d" "db_error e \<or> (e = ErrNotFound \<and> A d k = None)"
    | d' where "boltDelete D k d = (Inr (), d')" "I d'" "A d k \<noteq> None" "A d' = (A d)(k := None)"
proof -
  let ?f = "\<lambda>t. if bGet D k t = None then (Inl ErrNotFound, t) else returning False (bDelete D k t)"
  have w: "J t' \<and> B t k \<noteq> None \<and> B t' = (B t)(k := None)" if "J t" "?f t = (Inr c, t')" for t t' c
    using that writes_Inr [OF bucketD(4) [OF assms(2)]] bucketD(2) [OF assms(2) that(1), of k]
    by (auto simp: returning_simps split: if_splits)
  have f: "db_error e \<or> (e = ErrNotFound \<and> B t k = None)" if "J t" "fst (?f t) = Inl e" for t e
    using that writes_Inl [OF bucketD(4) [OF assms(2) that(1), of k]] bucketD(2) [OF assms(2) that(1), of k]
    by (cases "bDelete D k t") (auto simp: returning_def split: if_splits sum.splits)
  have cl: "\<And>t c t'. J t \<Longrightarrow> ?f t = (Inr c, t') \<Longrightarrow> J t'" using w by blast
  consider (err) e d' where "dbUpdate D ?f d = (Inl e, d')" "I d'" "A d' = A d" "db_error e \<or> (\<exists>t. J t \<and> B t = A d \<and> fst (?f t) = Inl e)"
    | (ok) c d' t t' where "dbUpdate D ?f d = (Inr c, d')" "I d'" "J t" "B t = A d" "?f t = (Inr c, t')" "A d' = B t'"
    using update_cases [OF assms(1,3) cl] .
  then show ?thesis
  proof cases
    case err
    have "db_error e \<or> (e = ErrNotFound \<and> A d k = None)" using err(4) f by metis
    then show ?thesis using that(1) [of e d'] err(1-3) by (simp add: boltDelete_def returning_def)
  next
    case ok
    then show ?thesis using that(2) [of d'] w [OF ok(3,5)] by (simp add: boltDelete_def returning_def)
  qed
qed

lemma boltList_cases:
  assumes "transaction_law D I A J B" "bucket_law D J B" "I d"
  obtains e where "boltList D a d = (Inl e, d)" "db_error e" | "boltList D a d = (Inr (list_spec (A d) a), d)"
proof (rule view_cases [OF assms(1,3)])
  fix t assume t: "dbView D d = Inr t" "J t" "B t = A d"
  then have "(if Prefix a \<noteq> [] then cSeek D (Prefix a) t else cFirst D t) = pairs_from (A d) (Prefix a)"
    using bucketD(5,6) [OF assms(2)] by simp
  then show thesis using that(2) t bolt_scan_spec [of "A d" a] bucketD(1) [OF assms(2) t(2)] by (simp add: boltList_def)
qed (use that(1) in \<open>simp add: boltList_def\<close>)

section \<open>A concrete database\<close>

text \<open>A transaction is a copy of the content, which a commit puts in place.\<close>

definition toyBolt :: "(StoreMemory, StoreMemory) bolt" where
  "toyBolt = \<lparr>dbView = Inr, dbUpdate = (\<lambda>f d. case f d of (Inl e, t) \<Rightarrow> (Inl e, d) | (Inr c, t) \<Rightarrow> (Inr c, t)),
     dbClose = (\<lambda>d. (Inr (), d)), CreateBucketIfNotExists = (\<lambda>t. (Inr (), t)), DeleteBucket = memClear,
     CreateBucket = (\<lambda>t. (Inr (), t)), bGet = (\<lambda>k t. map_of (data t) k),
     bPut = (\<lambda>k v t. if k = [] then (Inl (Errorf ''key required''), t) else memSet k v t),
     bDelete = (\<lambda>k t. (Inr (), t\<lparr>data := AList.delete k (data t)\<rparr>)),
     cFirst = (\<lambda>t. pairs_from (mem_abs t) []), cSeek = (\<lambda>p t. pairs_from (mem_abs t) p)\<rparr>"

lemma toy_law: "bolt_law toyBolt mem_inv mem_abs mem_inv mem_abs"
proof -
  have "transaction_law toyBolt mem_inv mem_abs mem_inv mem_abs"
    by (auto simp: transaction_law_def toyBolt_def split: prod.split sum.split)
  moreover have "bucket_law toyBolt mem_inv mem_abs"
    by (auto simp: bucket_law_def toyBolt_def writes_def db_error_def finite_dom_map_of mem_inv_def mem_abs_def memSet_def
        update_conv' map_of_AList_delete distinct_update distinct_delete)
  ultimately show ?thesis by (simp add: bolt_law_def mem_abs_finite)
qed

section \<open>Property\<close>

text \<open>C13. The backend implements the interface: over every database that keeps the documented law
  of bbolt, each operation of the backend either reports an error of the database and changes
  nothing, or does what the contract of \<open>Store\<close> says, the paged listing included.\<close>

theorem bolt_refines:
  assumes "bolt_law D I A J B"
  shows "fallible_store (boltStore D) I A"
proof -
  have laws: "transaction_law D I A J B" "bucket_law D J B" using assms by (simp_all add: bolt_law_def)
  note get = boltGet_cases [OF laws] and set = boltSet_cases [OF laws] and setnx = boltSetIfNotExists_cases [OF laws]
    and del = boltDelete_cases [OF laws] and list = boltList_cases [OF laws]
  show ?thesis
  proof (rule fallible_storeI)
    fix d k v a assume I: "I d"
    show "finite (dom (A d))" using assms I by (simp add: bolt_law_def)
    show "serves I A d (sGet (boltStore D) k d) (case A d k of None \<Rightarrow> Inl ErrNotFound | Some v \<Rightarrow> Inr v) (A d)"
      by (rule get [OF I, of k]) (use I in \<open>auto simp: boltStore_def\<close>)
    show "serves I A d (sSet (boltStore D) k v d) (Inr ()) ((A d)(k \<mapsto> v))"
      by (rule set [OF I, of k v]) (auto simp: boltStore_def)
    show "serves I A d (sSetIfNotExists (boltStore D) k v d) (Inr (A d k = None)) (if A d k = None then (A d)(k \<mapsto> v) else A d)"
      by (rule setnx [OF I, of k v]) (auto simp: boltStore_def)
    show "serves I A d (sDelete (boltStore D) k d) (if A d k = None then Inl ErrNotFound else Inr ()) ((A d)(k := None))"
      by (rule del [OF I, of k]) (auto simp: boltStore_def serves_def fun_upd_idem)
    show "serves I A d (sList (boltStore D) a d) (Inr (list_spec (A d) a)) (A d)"
      by (rule list [OF I, of a]) (use I in \<open>auto simp: boltStore_def\<close>)
  qed
qed

theorem bolt_refines_witness:
  "fallible_store (boltStore toyBolt) mem_inv mem_abs"
  by (rule bolt_refines [OF toy_law])

end
