(* ===== verification/Badger.thy ===== *)
theory Badger
  imports Bolt
begin

text \<open>
  The badger backend, \<open>src/backend/badger/main.go\<close>.  The database is the parameter \<open>D\<close>, as for
  bbolt; an item is what copying its value gives, which can fail.  \<open>bdNotFound\<close> is badger's
  \<open>ErrKeyNotFound\<close>.  An iterator is the list of the items it still moves through while it is
  valid: badger documents that \<open>Seek\<close> goes to the key or the next greater one, and that an
  iterator with a prefix is no longer valid on a key without it.

  Shown here: \<open>List\<close> meets the contract unless \<open>StartAfter\<close> lies before the prefix; then a key
  between the two makes it return nothing.
\<close>

section \<open>Model\<close>

record ('d, 't) badger =
  bdView :: "'d \<Rightarrow> 't result"
  bdUpdate :: "('t \<Rightarrow> (bool, 't) outcome) \<Rightarrow> 'd \<Rightarrow> (bool, 'd) outcome"
  bdDropAll :: "'d \<Rightarrow> (unit, 'd) outcome"
  bdClose :: "'d \<Rightarrow> (unit, 'd) outcome"
  bdNotFound :: error
  txnGet :: "string \<Rightarrow> 't \<Rightarrow> (string result) result"
  txnSet :: "string \<Rightarrow> string \<Rightarrow> 't \<Rightarrow> (unit, 't) outcome"
  txnDelete :: "string \<Rightarrow> 't \<Rightarrow> (unit, 't) outcome"
  itRewind :: "string \<Rightarrow> 't \<Rightarrow> (string \<times> string result) list"
  itSeek :: "string \<Rightarrow> string \<Rightarrow> 't \<Rightarrow> (string \<times> string result) list"

definition badgerClose :: "('d, 't) badger \<Rightarrow> 'd \<Rightarrow> (unit, 'd) outcome" where
  "badgerClose D d = bdClose D d"

definition badgerClear :: "('d, 't) badger \<Rightarrow> 'd \<Rightarrow> (unit, 'd) outcome" where
  "badgerClear D d = bdDropAll D d"

definition badgerGet :: "('d, 't) badger \<Rightarrow> string \<Rightarrow> 'd \<Rightarrow> (string, 'd) outcome" where
  "badgerGet D key d =
     (case bdView D d of
        Inl e \<Rightarrow> (Inl e, d)
      | Inr t \<Rightarrow>
          (case txnGet D key t of
             Inl e \<Rightarrow> (Inl (if e = bdNotFound D then ErrNotFound else e), d)
           | Inr item \<Rightarrow> (case item of Inl e \<Rightarrow> (Inl e, d) | Inr v \<Rightarrow> (Inr v, d))))"

definition badgerSet :: "('d, 't) badger \<Rightarrow> string \<Rightarrow> string \<Rightarrow> 'd \<Rightarrow> (unit, 'd) outcome" where
  "badgerSet D key value d = returning () (bdUpdate D (\<lambda>t. returning False (txnSet D key value t)) d)"

definition badgerSetIfNotExists :: "('d, 't) badger \<Rightarrow> string \<Rightarrow> string \<Rightarrow> 'd \<Rightarrow> (bool, 'd) outcome" where
  "badgerSetIfNotExists D key value d =
     bdUpdate D (\<lambda>t.
       (case txnGet D key t of
          Inr _ \<Rightarrow> (Inr False, t)
        | Inl e \<Rightarrow> if e \<noteq> bdNotFound D then (Inl e, t) else returning True (txnSet D key value t))) d"

definition badgerDelete :: "('d, 't) badger \<Rightarrow> string \<Rightarrow> 'd \<Rightarrow> (unit, 'd) outcome" where
  "badgerDelete D key d =
     returning () (bdUpdate D (\<lambda>t.
       (case txnGet D key t of
          Inl e \<Rightarrow> (Inl (if e = bdNotFound D then ErrNotFound else e), t)
        | Inr _ \<Rightarrow> returning False (txnDelete D key t))) d)"

fun badger_scan :: "ListArgs \<Rightarrow> (string \<times> string result) list \<Rightarrow> KeyValuePair list \<Rightarrow> KeyValuePair list result" where
  "badger_scan args [] result = Inr result"
| "badger_scan args ((k, item) # it) result =
     (if Limit args > 0 \<and> int (length result) \<ge> Limit args then Inr result
      else if Prefix args \<noteq> [] \<and> \<not> prefix (Prefix args) k then Inr result
      else (case item of
              Inl e \<Rightarrow> Inl e
            | Inr v \<Rightarrow> badger_scan args it (result @ [\<lparr>kvKey = k, kvValue = v\<rparr>])))"

definition badger_start :: "('d, 't) badger \<Rightarrow> ListArgs \<Rightarrow> 't \<Rightarrow> (string \<times> string result) list" where
  "badger_start D args t =
     (let it = (if Prefix args \<noteq> [] then itSeek D (Prefix args) (Prefix args) t else itRewind D [] t)
      in if StartAfter args \<noteq> []
         then (let it = itSeek D (Prefix args) (StartAfter args) t
               in (case it of [] \<Rightarrow> it | (k, item) # rest \<Rightarrow> if k = StartAfter args then rest else it))
         else it)"

definition badgerList :: "('d, 't) badger \<Rightarrow> ListArgs \<Rightarrow> 'd \<Rightarrow> (KeyValuePair list, 'd) outcome" where
  "badgerList D args d =
     (case bdView D d of
        Inl e \<Rightarrow> (Inl e, d)
      | Inr t \<Rightarrow> (badger_scan args (badger_start D args t) [], d))"

section \<open>What badger documents\<close>

definition iterator_law :: "('d, 't) badger \<Rightarrow> ('d \<Rightarrow> (string \<rightharpoonup> string)) \<Rightarrow> 'd \<Rightarrow> bool" where
  "iterator_law D A d \<longleftrightarrow> finite (dom (A d)) \<and>
     (\<exists>t. bdView D d = Inr t \<and>
        (\<forall>p k. k \<noteq> [] \<longrightarrow> itSeek D p k t = map (map_prod (\<lambda>x. x) Inr) (takeWhile (\<lambda>kv. prefix p (fst kv)) (pairs_from (A d) k))) \<and>
        itRewind D [] t = map (map_prod (\<lambda>x. x) Inr) (pairs_from (A d) []))"

section \<open>Listing\<close>

lemma badger_scan_all:
  assumes "\<forall>kv \<in> set xs. prefix (Prefix a) (fst kv)" and "Limit a > 0 \<longrightarrow> int (length res) \<le> Limit a"
  shows "badger_scan a (map (map_prod (\<lambda>x. x) Inr) xs) res =
    Inr (res @ map to_pair (if Limit a > 0 then take (nat (Limit a) - length res) xs else xs))"
  using assms
proof (induction xs arbitrary: res)
  case (Cons kv xs)
  obtain k v where kv: "kv = (k, v)" by (cases kv)
  show ?case
  proof (cases "Limit a > 0 \<and> int (length res) \<ge> Limit a")
    case True
    then show ?thesis by (auto simp: kv)
  next
    case False
    then have "badger_scan a (map (map_prod (\<lambda>x. x) Inr) xs) (res @ [to_pair kv]) =
        Inr ((res @ [to_pair kv]) @ map to_pair (if Limit a > 0 then take (nat (Limit a) - Suc (length res)) xs else xs))"
      using Cons.IH [of "res @ [to_pair kv]"] Cons.prems by (auto simp: not_le)
    moreover have "take (nat (Limit a) - length res) (kv # xs) = kv # take (nat (Limit a) - Suc (length res)) xs" if "Limit a > 0"
      using False that by (cases "nat (Limit a) - length res") (auto simp: diff_Suc)
    ultimately show ?thesis using Cons.prems(1) False by (auto simp: kv to_pair_def)
  qed
qed simp

text \<open>Dropping the start key itself from the entries from it on.\<close>

lemma drop_start:
  fixes f :: "string \<Rightarrow> string \<times> 'b"
  assumes "finite (dom m)" and "\<And>k. fst (f k) = k"
  shows "(case map f (sorted_list_of_set {k \<in> dom m. q \<le> k \<and> P k}) of
      [] \<Rightarrow> [] | (k, x) # rest \<Rightarrow> if k = q then rest else (k, x) # rest) = map f (sorted_list_of_set {k \<in> dom m. q < k \<and> P k})"
proof -
  let ?A = "{k \<in> dom m. q \<le> k \<and> P k}" and ?B = "{k \<in> dom m. q < k \<and> P k}"
  show ?thesis
  proof (cases "q \<in> ?A")
    case True
    then have "?A = insert q ?B" by auto
    moreover have "sorted_list_of_set (insert q ?B) = q # sorted_list_of_set ?B"
      using assms(1) by (subst sorted_list_of_set_insert) (auto intro!: insort_is_Cons)
    ultimately show ?thesis using assms(2) [of q] by (cases "f q") simp
  next
    case False
    then have "?A = ?B" by (auto simp: order_le_less)
    moreover have "fst (f k) \<noteq> q" if "k \<in> set (sorted_list_of_set ?B)" for k
      using that assms by auto
    then have "fst (f z) \<noteq> q" if "sorted_list_of_set ?B = z # zs" for z zs using that by simp
    ultimately show ?thesis by (auto split: list.split)
  qed
qed

lemma badger_start_spec:
  assumes "iterator_law D A d" and "bdView D d = Inr t" and "StartAfter a = [] \<or> Prefix a \<le> StartAfter a"
  shows "badger_start D a t = map (map_prod (\<lambda>x. x) Inr) (map (\<lambda>k. (k, the (A d k))) (sorted_list_of_set {k \<in> dom (A d). in_range a k}))"
proof -
  let ?f = "\<lambda>k. (k, the (A d k))" and ?i = "map_prod (\<lambda>x. x) Inr :: string \<times> string \<Rightarrow> string \<times> string result"
  have fin: "finite (dom (A d))" using assms(1) by (simp add: iterator_law_def)
  have seek: "itSeek D p k t = map ?i (takeWhile (\<lambda>kv. prefix p (fst kv)) (pairs_from (A d) k))" if "k \<noteq> []" for p k
    using assms(1,2) that by (simp add: iterator_law_def)
  have rewind: "itRewind D [] t = map ?i (pairs_from (A d) [])" using assms(1,2) by (simp add: iterator_law_def)
  show ?thesis
  proof (cases "StartAfter a = []")
    case True
    have "takeWhile (\<lambda>kv. prefix (Prefix a) (fst kv)) (pairs_from (A d) (Prefix a)) =
        map ?f (sorted_list_of_set {k \<in> dom (A d). in_range a k})"
      using pairs_prefix [OF fin, of "Prefix a" "Prefix a"] prefix_le [of "Prefix a"] True
      by (simp add: in_range_def cong: conj_cong) metis
    moreover have "badger_start D a t = map ?i (takeWhile (\<lambda>kv. prefix (Prefix a) (fst kv)) (pairs_from (A d) (Prefix a)))"
      using True by (simp add: badger_start_def seek rewind takeWhile_eq_all_conv [THEN iffD2])
    ultimately show ?thesis by simp
  next
    case False
    let ?q = "StartAfter a" and ?P = "prefix (Prefix a)"
    have "itSeek D (Prefix a) ?q t = map (?i \<circ> ?f) (sorted_list_of_set {k \<in> dom (A d). ?q \<le> k \<and> ?P k})"
      using pairs_prefix [OF fin, of "Prefix a" ?q] assms(3) False by (simp add: seek)
    then have "badger_start D a t = map (?i \<circ> ?f) (sorted_list_of_set {k \<in> dom (A d). ?q < k \<and> ?P k})"
      using False drop_start [OF fin, of "?i \<circ> ?f" ?q ?P] by (simp add: badger_start_def Let_def split: list.split) (auto split: list.split_asm)
    moreover have "{k \<in> dom (A d). ?q < k \<and> ?P k} = {k \<in> dom (A d). in_range a k}" using False by (auto simp: in_range_def)
    ultimately show ?thesis by simp
  qed
qed

lemma badgerList_spec:
  assumes "iterator_law D A d" and "StartAfter a = [] \<or> Prefix a \<le> StartAfter a"
  shows "badgerList D a d = (Inr (list_spec (A d) a), d)"
proof -
  obtain t where t: "bdView D d = Inr t" using assms(1) by (auto simp: iterator_law_def)
  let ?xs = "map (\<lambda>k. (k, the (A d k))) (sorted_list_of_set {k \<in> dom (A d). in_range a k})"
  have "finite (dom (A d))" using assms(1) by (simp add: iterator_law_def)
  then have "\<forall>kv \<in> set ?xs. prefix (Prefix a) (fst kv)" by (auto simp: in_range_def)
  from badger_scan_all [OF this, of "[]"] show ?thesis
    by (simp add: badgerList_def t badger_start_spec [OF assms(1) t assms(2)] list_spec_pairs limit_to_def take_map del: map_map)
qed

lemma badgerList_empty:
  assumes "iterator_law D A d" and "StartAfter a \<noteq> []" and "\<exists>k \<in> dom (A d). StartAfter a \<le> k \<and> k < Prefix a"
  shows "badgerList D a d = (Inr [], d)"
proof -
  obtain t where t: "bdView D d = Inr t" using assms(1) by (auto simp: iterator_law_def)
  obtain k where k: "k \<in> {k \<in> dom (A d). StartAfter a \<le> k}" "k < Prefix a" using assms(3) by blast
  have fin: "finite (dom (A d))" using assms(1) by (simp add: iterator_law_def)
  obtain z zs where z: "sorted_list_of_set {k \<in> dom (A d). StartAfter a \<le> k} = z # zs"
    using k(1) fin by (cases "sorted_list_of_set {k \<in> dom (A d). StartAfter a \<le> k}") auto
  have "k \<in> set (z # zs)" using k(1) fin by (simp flip: z)
  moreover have "sorted_wrt (<) (z # zs)" by (simp flip: z)
  ultimately have "z \<le> k" by auto
  then have "\<not> prefix (Prefix a) z" using k(2) prefix_le [of "Prefix a" z] by auto
  then have "itSeek D (Prefix a) (StartAfter a) t = []"
    using assms(1,2) t z by (simp add: iterator_law_def pairs_from_def)
  then show ?thesis using assms(2) t by (simp add: badgerList_def badger_start_def Let_def)
qed

section \<open>Property\<close>

text \<open>\<open>List\<close> follows the contract when \<open>StartAfter\<close> is empty or not before the prefix.  When it
  is before the prefix and the store has a key from it on that is still before the prefix, the
  iterator is not valid where it starts: \<open>List\<close> returns no entries, whatever the store holds
  under the prefix.\<close>

theorem badger_list:
  assumes "iterator_law D A d"
  shows "(StartAfter a = [] \<or> Prefix a \<le> StartAfter a \<longrightarrow> badgerList D a d = (Inr (list_spec (A d) a), d)) \<and>
    (StartAfter a \<noteq> [] \<and> (\<exists>k \<in> dom (A d). StartAfter a \<le> k \<and> k < Prefix a) \<longrightarrow> badgerList D a d = (Inr [], d))"
  using badgerList_spec [OF assms] badgerList_empty [OF assms] by blast

definition toyBadger :: "(StoreMemory, StoreMemory) badger" where
  "toyBadger = \<lparr>bdView = Inr, bdUpdate = dbUpdate toyBolt, bdDropAll = memClear, bdClose = memClose,
     bdNotFound = Errorf ''Key not found'',
     txnGet = (\<lambda>k t. case map_of (data t) k of None \<Rightarrow> Inl (Errorf ''Key not found'') | Some v \<Rightarrow> Inr (Inr v)),
     txnSet = memSet, txnDelete = bDelete toyBolt, itRewind = (\<lambda>p t. map (map_prod (\<lambda>x. x) Inr) (pairs_from (mem_abs t) p)),
     itSeek = (\<lambda>p k t. map (map_prod (\<lambda>x. x) Inr) (takeWhile (\<lambda>kv. prefix p (fst kv)) (pairs_from (mem_abs t) k)))\<rparr>"

lemma toy_iterator: "iterator_law toyBadger mem_abs d"
  by (simp add: iterator_law_def toyBadger_def mem_abs_finite)

text \<open>With the keys \<open>b\<close> and \<open>p1\<close>, listing the prefix \<open>p\<close> after \<open>a\<close> returns nothing.\<close>

theorem badger_list_witness:
  "badgerList toyBadger \<lparr>Prefix = ''p'', StartAfter = ''a'', Limit = 0\<rparr> \<lparr>data = [(''b'', ''x''), (''p1'', ''y'')]\<rparr> =
    (Inr [], \<lparr>data = [(''b'', ''x''), (''p1'', ''y'')]\<rparr>) \<and>
   badgerList toyBadger \<lparr>Prefix = ''p'', StartAfter = [], Limit = 0\<rparr> \<lparr>data = [(''b'', ''x''), (''p1'', ''y'')]\<rparr> =
    (Inr (list_spec (mem_abs \<lparr>data = [(''b'', ''x''), (''p1'', ''y'')]\<rparr>) \<lparr>Prefix = ''p'', StartAfter = [], Limit = 0\<rparr>),
     \<lparr>data = [(''b'', ''x''), (''p1'', ''y'')]\<rparr>)"
proof -
  let ?d = "\<lparr>data = [(''b'', ''x''), (''p1'', ''y'')]\<rparr>"
  have "''b'' \<in> dom (mem_abs ?d)" by (simp add: mem_abs_def)
  moreover have "''a'' \<le> ''b''" "''b'' < ''p''" by (simp_all add: less_char_def less_eq_char_def)
  ultimately have "\<exists>k \<in> dom (mem_abs ?d). ''a'' \<le> k \<and> k < ''p''" by blast
  then show ?thesis
    using badger_list [OF toy_iterator, of "\<lparr>Prefix = ''p'', StartAfter = ''a'', Limit = 0\<rparr>" ?d]
      badger_list [OF toy_iterator, of "\<lparr>Prefix = ''p'', StartAfter = [], Limit = 0\<rparr>" ?d]
    by simp
qed

end
