(* ===== verification/Conformance.thy ===== *)
theory Conformance
  imports Memory
begin

text \<open>
  The conformance suite, \<open>src/testing.go\<close>, which every backend runs.  A test is a function of a
  fresh store; its verdict is the list of failures it reports, or that it was skipped.
  \<open>t.Fatalf\<close> ends a test with one failure, \<open>t.Errorf\<close> adds one and goes on.  Messages carry the
  constant part of their text.  The goroutines of the concurrent tests call atomic methods, so
  an execution is a schedule: which goroutine makes its next call.  \<open>Clear\<close>, which only some
  backends have, is an argument.

  Shown here: the suite is sound.  Every store that meets the contract \<open>kv_store\<close> passes every
  test under every schedule, and so a failure is always a breach of the contract.
\<close>

section \<open>Steps of a test\<close>

datatype verdict = Ran "string list" | Skipped

definition fatal :: "string \<Rightarrow> verdict" where
  "fatal m = Ran [m]"

definition passed :: verdict where
  "passed = Ran []"

definition check :: "bool \<Rightarrow> string \<Rightarrow> verdict \<Rightarrow> verdict" where
  "check ok m rest = (if ok then rest else fatal m)"

text \<open>A call whose error ends the test, and the rest of the test.\<close>

definition must :: "string \<Rightarrow> ('a, 's) outcome \<Rightarrow> ('a \<Rightarrow> 's \<Rightarrow> verdict) \<Rightarrow> verdict" where
  "must m r rest = (case r of (Inl e, s) \<Rightarrow> fatal m | (Inr x, s) \<Rightarrow> rest x s)"

text \<open>A call that has to report \<open>ErrNotFound\<close>; \<open>errors.Is\<close> is false on a nil error.\<close>

definition missing :: "string \<Rightarrow> ('a, 's) outcome \<Rightarrow> ('s \<Rightarrow> verdict) \<Rightarrow> verdict" where
  "missing m r rest = (case r of (Inl e, s) \<Rightarrow> if errors_Is e ErrNotFound then rest s else fatal m | (Inr _, s) \<Rightarrow> fatal m)"

fun set_pairs :: "'s Store \<Rightarrow> (string \<times> string) list \<Rightarrow> ('s \<Rightarrow> verdict) \<Rightarrow> 's \<Rightarrow> verdict" where
  "set_pairs S [] rest s = rest s"
| "set_pairs S ((k, v) # ps) rest s = must ''Set failed'' (sSet S k v s) (\<lambda>_. set_pairs S ps rest)"

definition all_args :: ListArgs where
  "all_args = \<lparr>Prefix = [], StartAfter = [], Limit = 0\<rparr>"

section \<open>Clear\<close>

type_synonym 's clear = "'s \<Rightarrow> (unit, 's) outcome"

definition t_Clear :: "'s Store \<Rightarrow> 's clear \<Rightarrow> 's \<Rightarrow> verdict" where
  "t_Clear S clear s =
     set_pairs S [(''a'', ''v1''), (''b'', ''v2''), (''c'', ''v3'')] (\<lambda>s.
       must ''Clear failed'' (clear s) (\<lambda>_ s.
         must ''List after Clear failed'' (sList S all_args s) (\<lambda>result s.
           check (length result = 0) ''expected empty store after Clear'' passed))) s"

definition t_Clear_Empty :: "'s Store \<Rightarrow> 's clear \<Rightarrow> 's \<Rightarrow> verdict" where
  "t_Clear_Empty S clear s = must ''Clear on empty store failed'' (clear s) (\<lambda>_ s. passed)"

definition t_Clear_ThenReuse :: "'s Store \<Rightarrow> 's clear \<Rightarrow> 's \<Rightarrow> verdict" where
  "t_Clear_ThenReuse S clear s =
     must ''Set failed'' (sSet S ''key1'' ''value1'' s) (\<lambda>_ s.
       must ''Clear failed'' (clear s) (\<lambda>_ s.
         must ''Set after Clear failed'' (sSet S ''key2'' ''value2'' s) (\<lambda>_ s.
           must ''Get after Clear failed'' (sGet S ''key2'' s) (\<lambda>val s.
             check (val = ''value2'') ''expected value2''
               (missing ''expected ErrNotFound for cleared key'' (sGet S ''key1'' s) (\<lambda>s. passed))))))"

definition RunClearTests :: "'s Store \<Rightarrow> 's clear \<Rightarrow> 's \<Rightarrow> verdict list" where
  "RunClearTests S clear s = [t_Clear S clear s, t_Clear_Empty S clear s, t_Clear_ThenReuse S clear s]"

section \<open>SetIfNotExists\<close>

definition t_SetIfNotExists_Basic :: "'s Store \<Rightarrow> 's \<Rightarrow> verdict" where
  "t_SetIfNotExists_Basic S s =
     must ''SetIfNotExists failed'' (sSetIfNotExists S ''newkey'' ''value1'' s) (\<lambda>ok s.
       check ok ''expected true for new key''
         (must ''Get failed'' (sGet S ''newkey'' s) (\<lambda>val s. check (val = ''value1'') ''expected value1'' passed)))"

definition t_SetIfNotExists_Duplicate :: "'s Store \<Rightarrow> 's \<Rightarrow> verdict" where
  "t_SetIfNotExists_Duplicate S s =
     must ''first SetIfNotExists failed'' (sSetIfNotExists S ''dupkey'' ''first'' s) (\<lambda>ok s.
       check ok ''expected true for first call''
         (must ''second SetIfNotExists failed'' (sSetIfNotExists S ''dupkey'' ''second'' s) (\<lambda>ok s.
           check (\<not> ok) ''expected false for duplicate key''
             (must ''Get failed'' (sGet S ''dupkey'' s) (\<lambda>val s. check (val = ''first'') ''expected original value'' passed)))))"

text \<open>The goroutines in the order in which their calls happen: failures, what went to the
  channel, and the store afterwards.\<close>

fun race :: "'s Store \<Rightarrow> nat list \<Rightarrow> 's \<Rightarrow> string list \<times> bool list \<times> 's" where
  "race S [] s = ([], [], s)"
| "race S (i # sched) s =
     (case sSetIfNotExists S ''race-key'' (''writer-'' @ dec i) s of
        (Inl e, s) \<Rightarrow> (case race S sched s of (errs, oks, s) \<Rightarrow> (''SetIfNotExists from goroutine failed'' # errs, oks, s))
      | (Inr ok, s) \<Rightarrow> (case race S sched s of (errs, oks, s) \<Rightarrow> (errs, ok # oks, s)))"

definition t_SetIfNotExists_Concurrent :: "'s Store \<Rightarrow> nat list \<Rightarrow> 's \<Rightarrow> verdict" where
  "t_SetIfNotExists_Concurrent S sched s =
     (case race S sched s of
        (errs, oks, s) \<Rightarrow>
          if length (filter (\<lambda>ok. ok) oks) \<noteq> 1 then Ran (errs @ [''expected exactly 1 winner''])
          else (case sGet S ''race-key'' s of
                  (Inl e, s) \<Rightarrow> Ran (errs @ [''Get after concurrent SetIfNotExists failed''])
                | (Inr _, s) \<Rightarrow> Ran errs))"

fun diff_sets :: "'s Store \<Rightarrow> nat list \<Rightarrow> ('s \<Rightarrow> verdict) \<Rightarrow> 's \<Rightarrow> verdict" where
  "diff_sets S [] rest s = rest s"
| "diff_sets S (i # is) rest s =
     must ''SetIfNotExists failed'' (sSetIfNotExists S (''diffkey-'' @ dec i) (''val-'' @ dec i) s) (\<lambda>ok s.
       check ok ''expected true for unique key'' (diff_sets S is rest s))"

fun diff_gets :: "'s Store \<Rightarrow> nat list \<Rightarrow> 's \<Rightarrow> verdict" where
  "diff_gets S [] s = passed"
| "diff_gets S (i # is) s =
     must ''Get failed'' (sGet S (''diffkey-'' @ dec i) s) (\<lambda>val s.
       check (val = ''val-'' @ dec i) ''unexpected value'' (diff_gets S is s))"

definition t_SetIfNotExists_DifferentKeys :: "'s Store \<Rightarrow> 's \<Rightarrow> verdict" where
  "t_SetIfNotExists_DifferentKeys S s = diff_sets S [0..<5] (diff_gets S [0..<5]) s"

definition RunSetIfNotExistsTests :: "'s Store \<Rightarrow> nat list \<Rightarrow> 's \<Rightarrow> verdict list" where
  "RunSetIfNotExistsTests S sched s =
     [t_SetIfNotExists_Basic S s, t_SetIfNotExists_Duplicate S s, t_SetIfNotExists_Concurrent S sched s,
      t_SetIfNotExists_DifferentKeys S s]"

section \<open>The generic suite\<close>

definition t_Get_NotFound :: "'s Store \<Rightarrow> 's \<Rightarrow> verdict" where
  "t_Get_NotFound S s = missing ''expected ErrNotFound'' (sGet S ''nonexistent'' s) (\<lambda>s. passed)"

definition t_SetAndGet :: "'s Store \<Rightarrow> 's \<Rightarrow> verdict" where
  "t_SetAndGet S s =
     must ''Set failed'' (sSet S ''key1'' ''value1'' s) (\<lambda>_ s.
       must ''Get failed'' (sGet S ''key1'' s) (\<lambda>val s. check (val = ''value1'') ''expected value1'' passed))"

definition t_Set_Overwrite :: "'s Store \<Rightarrow> 's \<Rightarrow> verdict" where
  "t_Set_Overwrite S s =
     must ''Set failed'' (sSet S ''key1'' ''value1'' s) (\<lambda>_ s.
       must ''Set overwrite failed'' (sSet S ''key1'' ''value2'' s) (\<lambda>_ s.
         must ''Get failed'' (sGet S ''key1'' s) (\<lambda>val s. check (val = ''value2'') ''expected value2'' passed)))"

definition t_Delete :: "'s Store \<Rightarrow> 's \<Rightarrow> verdict" where
  "t_Delete S s =
     must ''Set failed'' (sSet S ''key1'' ''value1'' s) (\<lambda>_ s.
       must ''Delete failed'' (sDelete S ''key1'' s) (\<lambda>_ s.
         missing ''expected ErrNotFound after delete'' (sGet S ''key1'' s) (\<lambda>s. passed)))"

definition t_Delete_NotFound :: "'s Store \<Rightarrow> 's \<Rightarrow> verdict" where
  "t_Delete_NotFound S s = missing ''expected ErrNotFound'' (sDelete S ''nonexistent'' s) (\<lambda>s. passed)"

definition t_List_Empty :: "'s Store \<Rightarrow> 's \<Rightarrow> verdict" where
  "t_List_Empty S s =
     must ''List failed'' (sList S all_args s) (\<lambda>result s. check (length result = 0) ''expected empty list'' passed)"

definition t_List_All :: "'s Store \<Rightarrow> 's \<Rightarrow> verdict" where
  "t_List_All S s =
     set_pairs S [(''a/1'', ''v1''), (''a/2'', ''v2''), (''b/1'', ''v3'')] (\<lambda>s.
       must ''List failed'' (sList S all_args s) (\<lambda>result s. check (length result = 3) ''expected 3 items'' passed)) s"

definition t_List_Prefix :: "'s Store \<Rightarrow> 's \<Rightarrow> verdict" where
  "t_List_Prefix S s =
     set_pairs S [(''a/1'', ''v1''), (''a/2'', ''v2''), (''b/1'', ''v3'')] (\<lambda>s.
       must ''List failed'' (sList S \<lparr>Prefix = ''a/'', StartAfter = [], Limit = 0\<rparr> s) (\<lambda>result s.
         check (length result = 2) ''expected 2 items with prefix''
           (check (\<forall>r \<in> set result. \<not> (kvKey r \<noteq> ''a/1'' \<and> kvKey r \<noteq> ''a/2'')) ''unexpected key in prefix results'' passed))) s"

definition t_List_StartAfter :: "'s Store \<Rightarrow> 's \<Rightarrow> verdict" where
  "t_List_StartAfter S s =
     set_pairs S [(''a'', ''v1''), (''b'', ''v2''), (''c'', ''v3'')] (\<lambda>s.
       must ''List failed'' (sList S \<lparr>Prefix = [], StartAfter = ''a'', Limit = 0\<rparr> s) (\<lambda>result s.
         check (length result = 2) ''expected 2 items after a''
           (check (\<forall>r \<in> set result. \<not> kvKey r \<le> ''a'') ''expected keys after a'' passed))) s"

definition t_List_Limit :: "'s Store \<Rightarrow> 's \<Rightarrow> verdict" where
  "t_List_Limit S s =
     set_pairs S [(''a'', ''v1''), (''b'', ''v2''), (''c'', ''v3'')] (\<lambda>s.
       must ''List failed'' (sList S \<lparr>Prefix = [], StartAfter = [], Limit = 2\<rparr> s) (\<lambda>result s.
         check (length result = 2) ''expected 2 items'' passed)) s"

definition t_List_Pagination :: "'s Store \<Rightarrow> 's \<Rightarrow> verdict" where
  "t_List_Pagination S s =
     set_pairs S [(''a'', ''v1''), (''b'', ''v2''), (''c'', ''v3''), (''d'', ''v4'')] (\<lambda>s.
       must ''List page1 failed'' (sList S \<lparr>Prefix = [], StartAfter = [], Limit = 2\<rparr> s) (\<lambda>page1 s.
         check (length page1 = 2) ''expected 2 items in page1''
           (let lastKey = kvKey (last page1)
            in must ''List page2 failed'' (sList S \<lparr>Prefix = [], StartAfter = lastKey, Limit = 2\<rparr> s) (\<lambda>page2 s.
                 check (length page2 = 2) ''expected 2 items in page2''
                   (check (\<forall>p1 \<in> set page1. \<forall>p2 \<in> set page2. kvKey p1 \<noteq> kvKey p2) ''overlapping key between pages'' passed))))) s"

definition t_List_OrderedByKey :: "'s Store \<Rightarrow> 's \<Rightarrow> verdict" where
  "t_List_OrderedByKey S s =
     set_pairs S [(''c'', ''v3''), (''a'', ''v1''), (''b'', ''v2'')] (\<lambda>s.
       must ''List failed'' (sList S all_args s) (\<lambda>result s.
         check (\<forall>i \<in> set [1..<length result]. \<not> kvKey (result ! i) \<le> kvKey (result ! (i - 1))) ''results not sorted'' passed)) s"

definition t_List_PrefixWithStartAfterAndLimit :: "'s Store \<Rightarrow> 's \<Rightarrow> verdict" where
  "t_List_PrefixWithStartAfterAndLimit S s =
     set_pairs S [(''x/a'', ''v1''), (''x/b'', ''v2''), (''x/c'', ''v3''), (''x/d'', ''v4''), (''y/a'', ''v5'')] (\<lambda>s.
       must ''List failed'' (sList S \<lparr>Prefix = ''x/'', StartAfter = ''x/b'', Limit = 2\<rparr> s) (\<lambda>result s.
         check (length result = 2) ''expected 2 items''
           (check (kvKey (result ! 0) = ''x/c'' \<and> kvKey (result ! 1) = ''x/d'') ''expected x/c, x/d'' passed))) s"

text \<open>Each goroutine sets its key and then reads it: its first turn in the schedule is the
  \<open>Set\<close>, the next one the \<open>Get\<close>.\<close>

definition conc_key :: "nat \<Rightarrow> string" where
  "conc_key i = ''concurrent-'' @ dec i"

fun read_write :: "'s Store \<Rightarrow> nat list \<Rightarrow> nat list \<Rightarrow> 's \<Rightarrow> string list \<times> 's" where
  "read_write S [] wrote s = ([], s)"
| "read_write S (i # sched) wrote s =
     (if i \<in> set wrote
      then (case sGet S (conc_key i) s of
              (Inl e, s) \<Rightarrow> (case read_write S sched wrote s of (errs, s) \<Rightarrow> (''Get failed'' # errs, s))
            | (Inr _, s) \<Rightarrow> read_write S sched wrote s)
      else (case sSet S (conc_key i) ''value'' s of
              (Inl e, s) \<Rightarrow> (case read_write S sched (i # wrote) s of (errs, s) \<Rightarrow> (''Set failed'' # errs, s))
            | (Inr _, s) \<Rightarrow> read_write S sched (i # wrote) s))"

definition t_Concurrent_ReadWrite :: "'s Store \<Rightarrow> nat list \<Rightarrow> 's \<Rightarrow> verdict" where
  "t_Concurrent_ReadWrite S sched s =
     (case read_write S sched [] s of
        (errs, s) \<Rightarrow>
          (case sList S \<lparr>Prefix = ''concurrent-'', StartAfter = [], Limit = 0\<rparr> s of
             (Inl e, s) \<Rightarrow> Ran (errs @ [''List failed''])
           | (Inr result, s) \<Rightarrow> if length result \<noteq> 10 then Ran (errs @ [''expected 10 items'']) else Ran errs))"

definition t_EmptyKey :: "'s Store \<Rightarrow> 's \<Rightarrow> verdict" where
  "t_EmptyKey S s =
     (case sSet S [] ''value'' s of
        (Inl e, s) \<Rightarrow> Skipped
      | (Inr _, s) \<Rightarrow>
          must ''Get empty key failed'' (sGet S [] s) (\<lambda>val s. check (val = ''value'') ''expected value'' passed))"

definition special_keys :: "string list" where
  "special_keys = [''key/with/slashes'', ''key with spaces'', ''key%percent'',
     ''key'' @ [CHR 0xF0, CHR 0x9F, CHR 0x94, CHR 0x91] @ ''emoji'', ''a/b/c/d/e'']"

fun special_loop :: "'s Store \<Rightarrow> string list \<Rightarrow> 's \<Rightarrow> string list" where
  "special_loop S [] s = []"
| "special_loop S (key # keys) s =
     (case sSet S key ''v'' s of
        (Inl e, s) \<Rightarrow> ''Set failed'' # special_loop S keys s
      | (Inr _, s) \<Rightarrow>
          (case sGet S key s of
             (Inl e, s) \<Rightarrow> ''Get failed'' # special_loop S keys s
           | (Inr val, s) \<Rightarrow> (if val \<noteq> ''v'' then [''unexpected value''] else []) @ special_loop S keys s))"

definition t_SpecialCharacters :: "'s Store \<Rightarrow> 's \<Rightarrow> verdict" where
  "t_SpecialCharacters S s = Ran (special_loop S special_keys s)"

definition t_LargeValue :: "'s Store \<Rightarrow> 's \<Rightarrow> verdict" where
  "t_LargeValue S s =
     (let large = replicate (1024 * 1024) NUL
      in (case sSet S ''large'' large s of
            (Inl e, s) \<Rightarrow> Skipped
          | (Inr _, s) \<Rightarrow>
              must ''Get large value failed'' (sGet S ''large'' s) (\<lambda>val s.
                check (length val = length large) ''unexpected length'' passed)))"

definition RunStoreTests :: "'s Store \<Rightarrow> nat list \<Rightarrow> 's \<Rightarrow> verdict list" where
  "RunStoreTests S sched s =
     [t_Get_NotFound S s, t_SetAndGet S s, t_Set_Overwrite S s, t_Delete S s, t_Delete_NotFound S s, t_List_Empty S s,
      t_List_All S s, t_List_Prefix S s, t_List_StartAfter S s, t_List_Limit S s, t_List_Pagination S s,
      t_List_OrderedByKey S s, t_List_PrefixWithStartAfterAndLimit S s, t_Concurrent_ReadWrite S sched s, t_EmptyKey S s,
      t_SpecialCharacters S s, t_LargeValue S s]"

section \<open>Evaluating tests over a lawful store\<close>

text \<open>What a listing of a small content returns is computed by the memory backend.\<close>

lemma list_spec_map_of:
  assumes "distinct (map fst xs)"
  shows "list_spec (map_of xs) a = projr (fst (memList a \<lparr>data = xs\<rparr>))"
  using memList_result [of "\<lparr>data = xs\<rparr>" a] assms by (simp add: mem_inv_def mem_abs_def)

lemma check_True [simp]: "check True m r = r"
  by (simp add: check_def)

lemma prefix_code_string [simp]: "prefix (x # xs) (y # ys :: string) \<longleftrightarrow> x = y \<and> prefix xs ys"
  by auto

lemma must_fst: "must m r c = (case fst r of Inl _ \<Rightarrow> fatal m | Inr x \<Rightarrow> c x (snd r))"
  by (cases r) (simp add: must_def split: sum.split)

lemma missing_fst:
  "missing m r c = (case fst r of Inl e \<Rightarrow> if errors_Is e ErrNotFound then c (snd r) else fatal m | Inr _ \<Rightarrow> fatal m)"
  by (cases r) (simp add: missing_def split: sum.split)

lemma conc_key_facts [simp]: "conc_key i = conc_key j \<longleftrightarrow> i = j" "prefix ''concurrent-'' (conc_key i)"
  by (simp_all add: conc_key_def)

context kv_store
begin

lemma set_pairs_run:
  assumes "inv s" and "abs s = map_of xs"
  obtains s' where "set_pairs S ps rest s = rest s'" "inv s'" "abs s' = map_of (rev ps @ xs)"
  using assms
proof (induction ps arbitrary: s xs thesis)
  case (Cons p ps)
  obtain k v where p: "p = (k, v)" by (cases p)
  have "inv (snd (sSet S k v s))" "abs (snd (sSet S k v s)) = map_of ((k, v) # xs)"
    using Cons.prems(2,3) by (simp_all add: store_simps)
  from Cons.IH [OF _ this] obtain s' where "set_pairs S ps rest (snd (sSet S k v s)) = rest s'" "inv s'"
    "abs s' = map_of (rev ps @ (k, v) # xs)" by blast
  then show ?case using Cons.prems by (simp add: p must_fst store_simps)
qed simp

lemma listing_passes:
  assumes "inv s" and "abs s = Map.empty" and "distinct (map fst ps)"
    and "\<And>s'. inv s' \<Longrightarrow> (\<And>a. list_spec (abs s') a = projr (fst (memList a \<lparr>data = rev ps\<rparr>))) \<Longrightarrow> rest s' = passed"
  shows "set_pairs S ps rest s = passed"
proof -
  have e: "abs s = map_of []" using assms(2) by simp
  obtain s' where s': "set_pairs S ps rest s = rest s'" "inv s'" "abs s' = map_of (rev ps)"
    using set_pairs_run [OF assms(1) e, of ps rest] by auto
  have "distinct (map fst (rev ps))" using assms(3) by (simp add: rev_map [symmetric])
  then show ?thesis using s' assms(4) by (simp add: list_spec_map_of)
qed

lemma set_get_tests:
  assumes "inv s" and "abs s = Map.empty"
  shows "t_Get_NotFound S s = passed" "t_SetAndGet S s = passed" "t_Set_Overwrite S s = passed" "t_Delete S s = passed"
    "t_Delete_NotFound S s = passed" "t_SetIfNotExists_Basic S s = passed" "t_SetIfNotExists_Duplicate S s = passed"
  using assms
  by (simp_all add: must_fst missing_fst store_simps t_Get_NotFound_def t_SetAndGet_def t_Set_Overwrite_def t_Delete_def
      t_Delete_NotFound_def t_SetIfNotExists_Basic_def t_SetIfNotExists_Duplicate_def)

lemma skipping_tests:
  assumes "inv s" and "abs s = Map.empty"
  shows "t_EmptyKey S s = passed" "t_LargeValue S s = passed"
proof -
  obtain s1 where "sSet S [] ''value'' s = (Inr (), s1)" "inv s1" "abs s1 = (abs s)([] \<mapsto> ''value'')"
    using set_run [OF assms(1)] .
  then show "t_EmptyKey S s = passed" by (simp add: t_EmptyKey_def must_fst store_simps)
  define large where "large = replicate (1024 * 1024) NUL"
  obtain s2 where "sSet S ''large'' large s = (Inr (), s2)" "inv s2" "abs s2 = (abs s)(''large'' \<mapsto> large)"
    using set_run [OF assms(1)] .
  then show "t_LargeValue S s = passed" unfolding t_LargeValue_def large_def [symmetric]
    by (simp add: Let_def must_fst store_simps)
qed

lemma listing_tests:
  assumes "inv s" and "abs s = Map.empty"
  shows "t_List_Empty S s = passed" "t_List_All S s = passed" "t_List_Prefix S s = passed" "t_List_StartAfter S s = passed"
    "t_List_Limit S s = passed" "t_List_Pagination S s = passed" "t_List_OrderedByKey S s = passed"
    "t_List_PrefixWithStartAfterAndLimit S s = passed"
proof -
  show "t_List_Empty S s = passed"
    using assms by (simp add: t_List_Empty_def must_fst store_simps list_spec_def limit_to_def)
  note run = listing_passes [OF assms]
  show "t_List_All S s = passed" unfolding t_List_All_def
    by (rule run) (simp_all add: must_fst store_simps memList_def all_args_def)
  show "t_List_Prefix S s = passed" unfolding t_List_Prefix_def
    by (rule run) (simp_all add: must_fst store_simps memList_def)
  show "t_List_StartAfter S s = passed" unfolding t_List_StartAfter_def
    by (rule run) (simp_all add: must_fst store_simps memList_def less_char_def less_eq_char_def)
  show "t_List_Limit S s = passed" unfolding t_List_Limit_def
    by (rule run) (simp_all add: must_fst store_simps memList_def less_char_def less_eq_char_def)
  show "t_List_Pagination S s = passed" unfolding t_List_Pagination_def
    by (rule run) (simp_all add: must_fst store_simps memList_def less_char_def less_eq_char_def)
  show "t_List_OrderedByKey S s = passed" unfolding t_List_OrderedByKey_def
    by (rule run) (simp_all add: must_fst store_simps memList_def all_args_def less_char_def less_eq_char_def atLeastLessThanSuc)
  show "t_List_PrefixWithStartAfterAndLimit S s = passed" unfolding t_List_PrefixWithStartAfterAndLimit_def
    by (rule run) (simp_all add: must_fst store_simps memList_def less_char_def less_eq_char_def)
qed

lemma special_loop_passes: "inv s \<Longrightarrow> special_loop S keys s = []"
proof (induction keys arbitrary: s)
  case (Cons key keys)
  obtain s1 where s1: "sSet S key ''v'' s = (Inr (), s1)" "inv s1" "abs s1 = (abs s)(key \<mapsto> ''v'')"
    using set_run [OF Cons.prems] .
  obtain s2 where "sGet S key s1 = (case abs s1 key of None \<Rightarrow> Inl ErrNotFound | Some v \<Rightarrow> Inr v, s2)" "inv s2" "abs s2 = abs s1"
    using get_run [OF s1(2)] .
  then show ?case using s1 Cons.IH [of s2] by simp
qed simp

lemma race_lost:
  assumes "inv s" and "abs s ''race-key'' \<noteq> None"
  obtains s' where "race S sched s = ([], replicate (length sched) False, s')" "inv s'" "abs s' = abs s"
  using assms
proof (induction sched arbitrary: s thesis)
  case (Cons i sched)
  obtain s1 where s1: "sSetIfNotExists S ''race-key'' (''writer-'' @ dec i) s = (Inr (abs s ''race-key'' = None), s1)" "inv s1"
    "abs s1 = (if abs s ''race-key'' = None then (abs s)(''race-key'' \<mapsto> ''writer-'' @ dec i) else abs s)"
    using setnx_run [OF Cons.prems(2)] .
  have "abs s1 ''race-key'' \<noteq> None" using s1(3) Cons.prems(3) by simp
  from Cons.IH [OF _ s1(2) this] obtain s' where "race S sched s1 = ([], replicate (length sched) False, s')" "inv s'" "abs s' = abs s1"
    by blast
  then show ?case using Cons.prems s1 by simp
qed simp

lemma race_passes:
  assumes "inv s" and "abs s = Map.empty" and "sched \<noteq> []"
  shows "t_SetIfNotExists_Concurrent S sched s = passed"
proof -
  obtain i rest where sched: "sched = i # rest" using assms(3) by (cases sched) auto
  obtain s1 where s1: "sSetIfNotExists S ''race-key'' (''writer-'' @ dec i) s = (Inr (abs s ''race-key'' = None), s1)" "inv s1"
    "abs s1 = (if abs s ''race-key'' = None then (abs s)(''race-key'' \<mapsto> ''writer-'' @ dec i) else abs s)"
    using setnx_run [OF assms(1)] .
  have p: "abs s1 ''race-key'' \<noteq> None" using s1(3) assms(2) by simp
  obtain s2 where s2: "race S rest s1 = ([], replicate (length rest) False, s2)" "inv s2" "abs s2 = abs s1"
    using race_lost [OF s1(2) p] .
  obtain s3 where "sGet S ''race-key'' s2 = (case abs s2 ''race-key'' of None \<Rightarrow> Inl ErrNotFound | Some v \<Rightarrow> Inr v, s3)"
    using get_run [OF s2(2)] by metis
  then show ?thesis using s1 s2 p assms(2) by (auto simp: t_SetIfNotExists_Concurrent_def sched passed_def)
qed

lemma diff_sets_run:
  assumes "inv s" and "\<forall>i \<in> set is. abs s (''diffkey-'' @ dec i) = None" and "distinct is"
  obtains s' where "diff_sets S is rest s = rest s'" "inv s'"
    "\<forall>i. abs s' (''diffkey-'' @ dec i) = (if i \<in> set is then Some (''val-'' @ dec i) else abs s (''diffkey-'' @ dec i))"
  using assms
proof (induction "is" arbitrary: s thesis)
  case (Cons i "is")
  let ?s = "snd (sSetIfNotExists S (''diffkey-'' @ dec i) (''val-'' @ dec i) s)"
  have s: "inv ?s" "\<forall>j. abs ?s (''diffkey-'' @ dec j) = (if j = i then Some (''val-'' @ dec i) else abs s (''diffkey-'' @ dec j))"
    using Cons.prems(2,3) by (simp_all add: store_simps)
  have "\<forall>j \<in> set is. abs ?s (''diffkey-'' @ dec j) = None" using s(2) Cons.prems(3,4) by auto
  from Cons.IH [OF _ s(1) this] Cons.prems(4) obtain s' where "diff_sets S is rest ?s = rest s'" "inv s'"
    "\<forall>j. abs s' (''diffkey-'' @ dec j) = (if j \<in> set is then Some (''val-'' @ dec j) else abs ?s (''diffkey-'' @ dec j))"
    by auto
  then show ?case using Cons.prems s by (intro Cons.prems(1) [of s']) (auto simp: must_fst store_simps)
qed simp

lemma diff_gets_passes:
  "inv s \<Longrightarrow> \<forall>i \<in> set is. abs s (''diffkey-'' @ dec i) = Some (''val-'' @ dec i) \<Longrightarrow> diff_gets S is s = passed"
  by (induction "is" arbitrary: s) (simp_all add: must_fst store_simps)

lemma different_keys_passes:
  assumes "inv s" and "abs s = Map.empty"
  shows "t_SetIfNotExists_DifferentKeys S s = passed"
  unfolding t_SetIfNotExists_DifferentKeys_def
  by (rule diff_sets_run [OF assms(1), of "[0..<5]" "diff_gets S [0..<5]"]) (use assms(2) diff_gets_passes in auto)

lemma read_write_run:
  assumes "inv s" and "\<forall>i \<in> set wrote. conc_key i \<in> dom (abs s)"
  obtains s' where "read_write S sched wrote s = ([], s')" "inv s'"
    "dom (abs s') = dom (abs s) \<union> conc_key ` set sched"
  using assms
proof (induction sched arbitrary: s wrote thesis)
  case (Cons i sched)
  let ?k = "conc_key i"
  show ?case
  proof (cases "i \<in> set wrote")
    case True
    obtain s1 where s1: "sGet S ?k s = (case abs s ?k of None \<Rightarrow> Inl ErrNotFound | Some v \<Rightarrow> Inr v, s1)" "inv s1" "abs s1 = abs s"
      using get_run [OF Cons.prems(2)] .
    from Cons.IH [OF _ s1(2), of wrote] Cons.prems(3) s1(3) obtain s' where "read_write S sched wrote s1 = ([], s')" "inv s'"
      "dom (abs s') = dom (abs s1) \<union> conc_key ` set sched" by auto
    then show ?thesis using True s1 Cons.prems by (intro Cons.prems(1) [of s']) auto
  next
    case False
    obtain s1 where s1: "sSet S ?k ''value'' s = (Inr (), s1)" "inv s1" "abs s1 = (abs s)(?k \<mapsto> ''value'')"
      using set_run [OF Cons.prems(2)] .
    have "\<forall>j \<in> set (i # wrote). conc_key j \<in> dom (abs s1)" using Cons.prems(3) s1(3) by simp
    from Cons.IH [OF _ s1(2) this] obtain s' where "read_write S sched (i # wrote) s1 = ([], s')" "inv s'"
      "dom (abs s') = dom (abs s1) \<union> conc_key ` set sched" by blast
    then show ?thesis using False s1 by (intro Cons.prems(1) [of s']) auto
  qed
qed simp

lemma read_write_passes:
  assumes "inv s" and "abs s = Map.empty" and "set sched = {..<10}"
  shows "t_Concurrent_ReadWrite S sched s = passed"
proof -
  let ?a = "\<lparr>Prefix = ''concurrent-'', StartAfter = [], Limit = 0\<rparr>"
  obtain s1 where s1: "read_write S sched [] s = ([], s1)" "inv s1"
    "dom (abs s1) = dom (abs s) \<union> conc_key ` set sched"
    using read_write_run [OF assms(1), of "[]"] by auto
  obtain s2 where s2: "sList S ?a s1 = (Inr (list_spec (abs s1) ?a), s2)" using list_run [OF s1(2)] by metis
  have "{k \<in> dom (abs s1). in_range ?a k} = conc_key ` {..<10 :: nat}"
    using s1(3) assms(2,3) by (auto simp: in_range_def)
  moreover have "card (conc_key ` {..<10 :: nat}) = 10" by (subst card_image) (auto simp: inj_on_def)
  ultimately have "length (list_spec (abs s1) ?a) = 10" by (simp add: list_spec_def)
  then show ?thesis using s1(1) s2 by (simp add: t_Concurrent_ReadWrite_def passed_def)
qed

lemma store_suite:
  assumes "inv s" and "abs s = Map.empty" and "set sched = {..<10}"
  shows "set (RunStoreTests S sched s) = {passed}" "set (RunSetIfNotExistsTests S sched s) = {passed}"
proof -
  have special: "t_SpecialCharacters S s = passed"
    unfolding t_SpecialCharacters_def passed_def special_loop_passes [OF assms(1)] ..
  show "set (RunStoreTests S sched s) = {passed}"
    unfolding RunStoreTests_def set_get_tests [OF assms(1,2)] skipping_tests [OF assms(1,2)] listing_tests [OF assms(1,2)]
      read_write_passes [OF assms] special by simp
  have "(0 :: nat) \<in> set sched" unfolding assms(3) by simp
  then have "sched \<noteq> []" by auto
  then show "set (RunSetIfNotExistsTests S sched s) = {passed}"
    using set_get_tests [OF assms(1,2)] race_passes [OF assms(1,2), of sched] different_keys_passes [OF assms(1,2)]
    by (simp add: RunSetIfNotExistsTests_def)
qed

end

text \<open>A store with the extra method \<open>Clear\<close>.\<close>

locale clearable_store = kv_store +
  fixes clear :: "'a \<Rightarrow> (unit, 'a) outcome"
  assumes clear_result: "inv s \<Longrightarrow> fst (clear s) = Inr ()"
    and clear_inv: "inv s \<Longrightarrow> inv (snd (clear s))"
    and clear_abs: "inv s \<Longrightarrow> abs (snd (clear s)) = Map.empty"
begin

lemma clear_suite:
  assumes "inv s" and "abs s = Map.empty"
  shows "set (RunClearTests S clear s) = {passed}"
proof -
  have "t_Clear S clear s = passed" unfolding t_Clear_def
    by (rule listing_passes [OF assms])
      (simp_all add: must_fst clear_result clear_inv clear_abs store_simps list_spec_def limit_to_def)
  moreover have "t_Clear_Empty S clear s = passed" using assms by (simp add: t_Clear_Empty_def must_fst clear_result)
  moreover have "t_Clear_ThenReuse S clear s = passed"
    using assms by (simp add: t_Clear_ThenReuse_def must_fst missing_fst store_simps clear_result clear_inv clear_abs)
  ultimately show ?thesis by (simp add: RunClearTests_def)
qed

end

interpretation mem: clearable_store memStore mem_inv mem_abs memClear
  by unfold_locales (simp_all add: memClear_def mem_inv_def mem_abs_def)

section \<open>Property\<close>

text \<open>C34. The conformance suite is sound: a store that meets the contract passes every test on a
  fresh instance, whatever the order in which the goroutines of the concurrent tests get their
  turns; and so does \<open>Clear\<close> when it empties the store.\<close>

theorem conformance_sound:
  assumes "clearable_store S I A clear" and "I s" and "A s = Map.empty"
    and "set sched = {..<10}" and "set turns = {..<10}"
  shows "set (RunStoreTests S turns s) \<union> set (RunSetIfNotExistsTests S sched s) \<union> set (RunClearTests S clear s) = {passed}"
  using kv_store.store_suite(2) [OF clearable_store.axioms(1) [OF assms(1)] assms(2-4)]
    kv_store.store_suite(1) [OF clearable_store.axioms(1) [OF assms(1)] assms(2,3,5)] clearable_store.clear_suite [OF assms(1-3)]
  by simp

theorem conformance_sound_witness:
  "set (RunStoreTests memStore ([0..<10] @ [0..<10]) NewMemory) \<union> set (RunSetIfNotExistsTests memStore [0..<10] NewMemory)
     \<union> set (RunClearTests memStore memClear NewMemory) = {passed}"
  by (rule conformance_sound [OF mem.clearable_store_axioms]) (auto simp: mem_inv_def mem_abs_def NewMemory_def)

end
