(* ===== verification/Connections.thy ===== *)
theory Connections
  imports Server Client
begin

text \<open>
  The connections of the client: HTTP polling (\<open>src/sync/client/conn_http.go\<close>) and event streams
  (\<open>src/sync/client/conn_sse.go\<close>), with the server's end of a stream
  (\<open>src/sync/server/transport_sse.go\<close>).  A channel is the list of what it holds.  A \<open>select\<close> takes
  the case its argument names; the result is \<open>None\<close> when that case is not ready, which is when
  the goroutine keeps waiting.  The network is a function from a request to its response, an
  error when there is none; \<open>newReq\<close> is the error of \<open>http.NewRequest\<close> for a URL, if any.

  Shown here: an event stream delivers what the server writes, in order, up to the first message
  that does not fit a line of 64 KB, where it ends (\<open>sse_stream_delivers\<close>); and a write on an
  HTTP connection succeeds before anything is sent, so that a failed request loses it
  (\<open>http_write_loses\<close>).
\<close>

section \<open>Requests and responses\<close>

record HttpRequest =
  hrMethod :: string
  hrURL :: string
  hrHeader :: header
  hrBody :: string

record HttpResponse =
  hsStatus :: nat
  hsContentType :: string
  hsBody :: string

type_synonym network = "HttpRequest \<Rightarrow> HttpResponse result"

text \<open>\<open>for k, v := range h { req.Header[k] = v }\<close>\<close>

definition add_header :: "header \<Rightarrow> header \<Rightarrow> header" where
  "add_header h base = foldl (\<lambda>m (k, v). AList.update k v m) base h"

text \<open>\<open>json.NewDecoder(resp.Body).Decode\<close>: the first value of the body.\<close>

definition decode_message :: "string \<Rightarrow> Message option" where
  "decode_message body =
     (case pvalue (Suc (length body)) body of
        None \<Rightarrow> None
      | Some (j, _) \<Rightarrow> json_struct message_field zeroMessage j)"

section \<open>HTTP polling\<close>

record httpConn =
  hcPeerID :: string
  hcURL :: string
  hcHeader :: header
  hcPollInterval :: int
  hcOutgoing :: "Message list"
  hcDone :: bool

definition HTTPDialer :: "int list \<Rightarrow> string \<Rightarrow> string \<Rightarrow> header \<Rightarrow> httpConn result" where
  "HTTPDialer pollInterval peerID url hdr =
     (let interval = (case pollInterval of i # _ \<Rightarrow> if i > 0 then i else 5000000000 | [] \<Rightarrow> 5000000000)
      in Inr \<lparr>hcPeerID = peerID, hcURL = url, hcHeader = add_header hdr [], hcPollInterval = interval,
              hcOutgoing = [], hcDone = False\<rparr>)"

definition httpWriteMessage :: "bool \<Rightarrow> Message \<Rightarrow> httpConn \<Rightarrow> (unit, httpConn) outcome option" where
  "httpWriteMessage send msg c =
     (if send then (if length (hcOutgoing c) < 16 then Some (Inr (), c\<lparr>hcOutgoing := hcOutgoing c @ [msg]\<rparr>) else None)
      else if hcDone c then Some (Inl (Errorf ''connection closed''), c) else None)"

datatype wake = WOutgoing | WTimer | WDone

definition pollMessage :: Message where
  "pollMessage = \<lparr>mType = ''sync'', mPayload = Some zeroPayload, mError = []\<rparr>"

definition http_select :: "wake \<Rightarrow> httpConn \<Rightarrow> (Message, httpConn) outcome option" where
  "http_select w c =
     (case w of
        WOutgoing \<Rightarrow> (case hcOutgoing c of [] \<Rightarrow> None | msg # ms \<Rightarrow> Some (Inr msg, c\<lparr>hcOutgoing := ms\<rparr>))
      | WTimer \<Rightarrow> Some (Inr pollMessage, c)
      | WDone \<Rightarrow> if hcDone c then Some (Inl (Errorf ''connection closed''), c) else None)"

definition http_request :: "httpConn \<Rightarrow> Message \<Rightarrow> HttpRequest" where
  "http_request c msg =
     \<lparr>hrMethod = ''POST'', hrURL = hcURL c, hrHeader = add_header (hcHeader c) [(''Content-Type'', [''application/json''])],
      hrBody = marshal_message msg\<rparr>"

definition http_response :: "HttpResponse result \<Rightarrow> Message result" where
  "http_response r =
     (case r of
        Inl e \<Rightarrow> Inl (Wrap ''post: '' e)
      | Inr resp \<Rightarrow>
          if hsStatus resp \<noteq> 200 then Inl (Errorf (''server returned '' @ dec (hsStatus resp)))
          else (case decode_message (hsBody resp) of None \<Rightarrow> Inl (Errorf ''decode'') | Some m \<Rightarrow> Inr m))"

definition httpReadMessage ::
  "(string \<Rightarrow> error option) \<Rightarrow> network \<Rightarrow> wake \<Rightarrow> httpConn \<Rightarrow> (Message, httpConn) outcome option" where
  "httpReadMessage newReq net w c =
     (case http_select w c of
        None \<Rightarrow> None
      | Some (Inl e, c) \<Rightarrow> Some (Inl e, c)
      | Some (Inr msg, c) \<Rightarrow>
          (case newReq (hcURL c) of
             Some e \<Rightarrow> Some (Inl (Wrap ''new request: '' e), c)
           | None \<Rightarrow> Some (http_response (net (http_request c msg)), c)))"

definition httpClose :: "httpConn \<Rightarrow> httpConn" where
  "httpClose c = c\<lparr>hcDone := True\<rparr>"

section \<open>Event streams: the server's end\<close>

definition sse_event :: "Message \<Rightarrow> string" where
  "sse_event msg = ''event: sync'' @ [CHR 0x0A] @ ''data: '' @ marshal_message msg @ [CHR 0x0A, CHR 0x0A]"

text \<open>\<open>werr\<close>: the error of the write, if any; the second component is what went to the stream.\<close>

definition sseServerWrite :: "error option \<Rightarrow> Message \<Rightarrow> sse_stream \<Rightarrow> unit result \<times> string" where
  "sseServerWrite werr msg sess =
     (if ssDone sess then (Inl (Errorf ''SSE session closed''), [])
      else (case werr of Some e \<Rightarrow> (Inl e, []) | None \<Rightarrow> (Inr (), sse_event msg)))"

definition sseServerRead :: "bool \<Rightarrow> sse_stream \<Rightarrow> (Message, sse_stream) outcome option" where
  "sseServerRead recv sess =
     (if recv then (case ssQueue sess of [] \<Rightarrow> None | m # ms \<Rightarrow> Some (Inr m, sess\<lparr>ssQueue := ms\<rparr>))
      else if ssDone sess then Some (Inl (Errorf ''SSE session closed''), sess) else None)"

definition sseServerClose :: "sse_stream \<Rightarrow> sse_stream" where
  "sseServerClose sess = sess\<lparr>ssDone := True\<rparr>"

section \<open>Event streams: the client's end\<close>

record sseConn =
  scPeerID :: string
  scURL :: string
  scHeader :: header
  scMsgs :: "Message list"
  scErrs :: "error list"
  scDone :: bool

datatype sse_wake = WMessage | WError | WClosed

definition sseReadMessage :: "sse_wake \<Rightarrow> sseConn \<Rightarrow> (Message, sseConn) outcome option" where
  "sseReadMessage w c =
     (case w of
        WMessage \<Rightarrow> (case scMsgs c of [] \<Rightarrow> None | m # ms \<Rightarrow> Some (Inr m, c\<lparr>scMsgs := ms\<rparr>))
      | WError \<Rightarrow> (case scErrs c of [] \<Rightarrow> None | e # es \<Rightarrow> Some (Inl e, c\<lparr>scErrs := es\<rparr>))
      | WClosed \<Rightarrow> if scDone c then Some (Inl (Errorf ''connection closed''), c) else None)"

definition sseWriteMessage :: "(string \<Rightarrow> error option) \<Rightarrow> network \<Rightarrow> Message \<Rightarrow> sseConn \<Rightarrow> unit result" where
  "sseWriteMessage newReq net msg c =
     (case newReq (scURL c) of
        Some e \<Rightarrow> Inl (Wrap ''new request: '' e)
      | None \<Rightarrow>
          (case net \<lparr>hrMethod = ''POST'', hrURL = scURL c,
                     hrHeader = add_header (scHeader c) [(''Content-Type'', [''application/json'']), (''X-Transport'', [''sse''])],
                     hrBody = marshal_message msg\<rparr> of
             Inl e \<Rightarrow> Inl (Wrap ''post: '' e)
           | Inr resp \<Rightarrow>
               if hsStatus resp \<noteq> 202 \<and> hsStatus resp \<noteq> 200 then Inl (Errorf (''server returned '' @ dec (hsStatus resp)))
               else Inr ()))"

definition sseClose :: "sseConn \<Rightarrow> sseConn" where
  "sseClose c = c\<lparr>scDone := True\<rparr>"

definition SSEDialer :: "(string \<Rightarrow> error option) \<Rightarrow> network \<Rightarrow> string \<Rightarrow> string \<Rightarrow> header \<Rightarrow> sseConn result" where
  "SSEDialer newReq net peerID url hdr =
     (let h = add_header hdr []
      in (case newReq url of
            Some e \<Rightarrow> Inl (Wrap ''new SSE request: '' e)
          | None \<Rightarrow>
              (case net \<lparr>hrMethod = ''GET'', hrURL = url, hrHeader = add_header h [(''Accept'', [''text/event-stream''])], hrBody = []\<rparr> of
                 Inl e \<Rightarrow> Inl (Wrap ''SSE dial: '' e)
               | Inr resp \<Rightarrow>
                   if hsStatus resp \<noteq> 200 then Inl (Errorf (''SSE server returned '' @ dec (hsStatus resp)))
                   else if \<not> prefix ''text/event-stream'' (hsContentType resp)
                   then Inl (Errorf (''unexpected content type: '' @ hsContentType resp))
                   else Inr \<lparr>scPeerID = peerID, scURL = url, scHeader = h, scMsgs = [], scErrs = [], scDone = False\<rparr>)))"

text \<open>
  \<open>bufio.Scanner\<close> with its default split function and buffer: lines without their end, a
  trailing carriage return dropped; an unfinished last line counts when it is not empty.  A
  line has to fit into 65536 bytes together with its newline, otherwise the scan fails.  The
  second argument is the error with which reading the stream ends, if it is not just over.
\<close>

definition MaxScanTokenSize :: nat where "MaxScanTokenSize = 65536"

definition ErrTooLong :: error where "ErrTooLong = Errorf ''bufio.Scanner: token too long''"

definition drop_cr :: "string \<Rightarrow> string" where
  "drop_cr l = (if l \<noteq> [] \<and> last l = CHR 0x0D then butlast l else l)"

definition next_line :: "string \<Rightarrow> string" where
  "next_line s = takeWhile (\<lambda>c. c \<noteq> CHR 0x0A) s"

function scan_lines :: "string \<Rightarrow> error option \<Rightarrow> string list \<times> error option" where
  "scan_lines s ioerr =
     (if length (next_line s) \<ge> MaxScanTokenSize then ([], Some ErrTooLong)
      else if length (next_line s) = length s then ((if s = [] then [] else [drop_cr s]), ioerr)
      else (case scan_lines (drop (Suc (length (next_line s))) s) ioerr of
              (ls, err) \<Rightarrow> (drop_cr (next_line s) # ls, err)))"
  by pat_completeness auto
termination
  by (relation "measure (\<lambda>(s, _). length s)") (auto simp: next_line_def length_takeWhile_le intro!: diff_less)

declare scan_lines.simps [simp del]

text \<open>\<open>strings.Join(lines, "\n")\<close>\<close>

fun join_lines :: "string list \<Rightarrow> string" where
  "join_lines [] = []"
| "join_lines [l] = l"
| "join_lines (l # ls) = l @ [CHR 0x0A] @ join_lines ls"

fun sse_lines :: "string list \<Rightarrow> string list \<Rightarrow> Message list" where
  "sse_lines [] dataLines = []"
| "sse_lines (line # ls) dataLines =
     (if prefix ''data: '' line then sse_lines ls (dataLines @ [TrimPrefix line ''data: ''])
      else if line = [] \<and> dataLines \<noteq> []
      then (case unmarshal_message (join_lines dataLines) of
              None \<Rightarrow> sse_lines ls []
            | Some msg \<Rightarrow> msg # sse_lines ls [])
      else sse_lines ls dataLines)"

text \<open>What the reader puts on the channel of messages, and then on the channel of errors, while
  the connection is not closed.\<close>

definition readSSEStream :: "string \<Rightarrow> error option \<Rightarrow> Message list \<times> error" where
  "readSSEStream stream ioerr =
     (case scan_lines stream ioerr of
        (ls, err) \<Rightarrow> (sse_lines ls [],
          (case err of Some e \<Rightarrow> Wrap ''SSE stream: '' e | None \<Rightarrow> Errorf ''SSE stream ended'')))"

section \<open>JSON text has no line breaks\<close>

lemma byte_in_high: "byte_in lo hi r \<Longrightarrow> 128 \<le> lo \<Longrightarrow> 128 \<le> ord (hd r)"
  by (cases r) (auto simp: byte_in_def)

lemma utf8_multi_high:
  assumes "utf8_len s \<noteq> 0" and "utf8_len s \<noteq> 1" and "c \<in> set (take (utf8_len s) s)"
  shows "128 \<le> ord c"
proof -
  from assms(1) obtain a r where s: "s = a # r" using utf8_len_pos by (cases s) auto
  obtain n lo hi where lead: "utf8_lead (ord a) = (n, lo, hi)" by (cases "utf8_lead (ord a)") auto
  have n: "1 < n" "utf8_len s = n" "byte_in lo hi r" "list_all is_cont (take (n - 2) (drop 1 r))"
    using assms(1,2) s lead by (auto simp: utf8_len_def split: if_splits)
  have "128 \<le> ord a" "128 \<le> lo" using lead n(1) by (auto simp: utf8_lead_def split: if_splits)
  moreover obtain b q where "r = b # q" "128 \<le> ord b" using n(3) byte_in_high [OF n(3) \<open>128 \<le> lo\<close>] by (cases r) (auto simp: byte_in_def)
  moreover define m where "m = n - 2"
  moreover from n(1) have "n = Suc (Suc m)" by (simp add: m_def)
  ultimately show ?thesis using assms(3) n(2,4) s by (auto simp: list_all_iff is_cont_def)
qed

lemma hexdigit_visible: "d < 16 \<Longrightarrow> 32 \<le> ord (hexdigit d)"
  by (simp add: hexdigit_def)

lemma esc_ascii_visible:
  assumes "c \<in> set (esc_ascii d)" and "ord d < 128"
  shows "32 \<le> ord c"
proof -
  have "ord d div 16 < 16" "ord d mod 16 < 16" using assms(2) by simp_all
  then have "list_all (\<lambda>c. 32 \<le> ord c) (esc_ascii d)" using hexdigit_visible by (simp add: esc_ascii_def not_less)
  then show ?thesis using assms(1) by (simp add: list_all_iff)
qed

lemma esc_visible: "c \<in> set (esc s) \<Longrightarrow> 32 \<le> ord c"
proof (induction s rule: esc.induct)
  case (1 s)
  have a: "ord (hd s) < 128" if "s \<noteq> []" "utf8_len s = 1" using that utf8_len_ascii by (cases s) auto
  have m: "32 \<le> ord c" if "utf8_len s \<noteq> 0" "utf8_len s \<noteq> 1" "c \<in> set (take (utf8_len s) s)"
    using utf8_multi_high [OF that] by simp
  from "1.prems" show ?case
    by (subst (asm) esc.simps [of s]) (use "1.IH" a m esc_ascii_visible in \<open>auto split: if_splits\<close>)
qed

lemma jquote_visible: "c \<in> set (jquote s) \<Longrightarrow> 32 \<le> ord c"
  by (auto simp: jquote_def dest: esc_visible)

lemma jprint_visible:
  "jwf j \<Longrightarrow> c \<in> set (jprint j) \<Longrightarrow> 32 \<le> ord c"
  "\<forall>x \<in> set xs. jwf x \<Longrightarrow> c \<in> set (jelems xs) \<Longrightarrow> 32 \<le> ord c"
  "\<forall>m \<in> set ms. jwf (snd m) \<Longrightarrow> c \<in> set (jmembers ms) \<Longrightarrow> 32 \<le> ord c"
  by (induction j and xs and ms rule: jprint_jelems_jmembers.induct)
    (auto simp: list_all_iff is_numchar_def is_digit_def dest: jquote_visible split: if_splits)

lemma jwf_message: "jwf (message_json m)"
  by (auto simp: message_json_def omitempty_def jwf_payload split: option.splits)

lemma message_text:
  "CHR 0x0A \<notin> set (marshal_message m)" "last (marshal_message m) = CHR ''}''" "marshal_message m \<noteq> []"
proof -
  show "CHR 0x0A \<notin> set (marshal_message m)" using jprint_visible(1) [OF jwf_message, of "CHR 0x0A" m] by (auto simp: marshal_message_def)
  show "last (marshal_message m) = CHR ''}''" "marshal_message m \<noteq> []" by (simp_all add: marshal_message_def message_json_def)
qed

section \<open>Lines of a stream\<close>

definition fits :: "Message \<Rightarrow> bool" where
  "fits m \<longleftrightarrow> length (marshal_message m) + 6 < MaxScanTokenSize"

lemma next_line_append: "CHR 0x0A \<notin> set l \<Longrightarrow> next_line (l @ CHR 0x0A # r) = l"
  by (auto simp: next_line_def takeWhile_tail)

lemma scan_line:
  assumes "CHR 0x0A \<notin> set l"
  shows "scan_lines (l @ CHR 0x0A # r) e =
    (if length l \<ge> MaxScanTokenSize then ([], Some ErrTooLong)
     else (drop_cr l # fst (scan_lines r e), snd (scan_lines r e)))"
  by (subst scan_lines.simps) (simp add: next_line_append [OF assms] split: prod.split)

lemma scan_frame:
  assumes "CHR 0x0A \<notin> set d" and "drop_cr d = d"
  shows "scan_lines (''event: sync'' @ CHR 0x0A # d @ CHR 0x0A # CHR 0x0A # r) e =
    (if length d < MaxScanTokenSize then (''event: sync'' # d # [] # fst (scan_lines r e), snd (scan_lines r e))
     else ([''event: sync''], Some ErrTooLong))"
proof -
  have "drop_cr ''event: sync'' = ''event: sync''" "drop_cr [] = []" by (simp_all add: drop_cr_def)
  then show ?thesis
    using scan_line [of "''event: sync''" "d @ CHR 0x0A # CHR 0x0A # r" e] scan_line [OF assms(1), of "CHR 0x0A # r" e]
      scan_line [of "[]" r e] assms(2)
    by (simp add: MaxScanTokenSize_def)
qed

lemma scan_event:
  "scan_lines (sse_event m @ r) e =
    (if fits m then (''event: sync'' # (''data: '' @ marshal_message m) # [] # fst (scan_lines r e), snd (scan_lines r e))
     else ([''event: sync''], Some ErrTooLong))"
proof -
  let ?d = "''data: '' @ marshal_message m"
  have "CHR 0x0A \<notin> set ?d" using message_text(1) by simp
  moreover have "drop_cr ?d = ?d" using message_text(2,3) [of m] by (simp add: drop_cr_def)
  ultimately show ?thesis using scan_frame [of ?d r e] by (simp add: sse_event_def fits_def)
qed

lemma sse_lines_event:
  "valid_message m \<Longrightarrow> sse_lines (''event: sync'' # (''data: '' @ marshal_message m) # [] # ls) [] = m # sse_lines ls []"
  by (simp add: TrimPrefix_def message_round_trip_valid)

lemma stream_result:
  assumes "\<forall>m \<in> set ms. valid_message m"
  shows "sse_lines (fst (scan_lines (concat (map sse_event ms)) None)) [] = takeWhile fits ms \<and>
    snd (scan_lines (concat (map sse_event ms)) None) = (if \<forall>m \<in> set ms. fits m then None else Some ErrTooLong)"
  using assms
proof (induction ms)
  case Nil
  then show ?case by (simp add: scan_lines.simps [of "[]"] next_line_def MaxScanTokenSize_def)
next
  case (Cons m ms)
  then show ?case
    using sse_lines_event [of m] by (simp add: scan_event del: sse_lines.simps(2) append_Cons) (simp add: scan_event)
qed

section \<open>Properties\<close>

text \<open>C35. An event stream delivers exactly what the server writes to it, in order, when every message
  takes less than 64 KB; then it reports that it ended.  At the first message that is larger the
  reader gives up: nothing from it on is delivered, and the connection ends with an error.\<close>

theorem sse_stream_delivers:
  assumes "\<forall>m \<in> set ms. valid_message m"
  shows "readSSEStream (concat (map sse_event ms)) None =
    (takeWhile fits ms, if \<forall>m \<in> set ms. fits m then Errorf ''SSE stream ended'' else Wrap ''SSE stream: '' ErrTooLong)"
  using stream_result [OF assms] by (cases "scan_lines (concat (map sse_event ms)) None") (auto simp: readSSEStream_def)

lemma length_esc: "length (esc s) \<le> 6 * length s"
proof (induction s rule: esc.induct)
  case (1 s)
  have a: "length (esc_ascii c) \<le> 6" for c by (simp add: esc_ascii_def)
  have sep: "3 \<le> length s" if "prefix LineSep s \<or> prefix ParSep s"
    using that prefix_length_le [of LineSep s] prefix_length_le [of ParSep s] by (auto simp: LineSep_def ParSep_def)
  consider "s = []" | "s \<noteq> []" "utf8_len s = 0" | "s \<noteq> []" "utf8_len s = 1"
    | "s \<noteq> []" "utf8_len s \<noteq> 0" "utf8_len s \<noteq> 1" "prefix LineSep s"
    | "s \<noteq> []" "utf8_len s \<noteq> 0" "utf8_len s \<noteq> 1" "\<not> prefix LineSep s" "prefix ParSep s"
    | "s \<noteq> []" "utf8_len s \<noteq> 0" "utf8_len s \<noteq> 1" "\<not> prefix LineSep s" "\<not> prefix ParSep s"
    by blast
  then show ?case
  proof cases
    case 2
    then have "1 \<le> length s" by (cases s) simp_all
    then show ?thesis using 2 "1.IH"(1) by (simp add: esc.simps [of s])
  next
    case 3
    then have "1 \<le> length s" by (cases s) simp_all
    then show ?thesis using 3 "1.IH"(2) a [of "hd s"] by (simp add: esc.simps [of s])
  next
    case 4
    then show ?thesis using "1.IH"(3) sep by (simp add: esc.simps [of s])
  next
    case 5
    then show ?thesis using "1.IH"(4) sep by (simp add: esc.simps [of s])
  next
    case 6
    then show ?thesis using "1.IH"(5) utf8_len_le [of s] by (simp add: esc.simps [of s])
  qed (simp add: esc.simps)
qed

lemma length_jquote: "length (jquote s) \<le> 6 * length s + 2"
  using length_esc [of s] by (simp add: jquote_def)

definition greeting :: "string \<Rightarrow> Message" where
  "greeting e = \<lparr>mType = ''sync'', mPayload = None, mError = e\<rparr>"

theorem sse_stream_delivers_witness:
  "readSSEStream (concat (map sse_event [greeting ''a'', greeting ''b''])) None =
    ([greeting ''a'', greeting ''b''], Errorf ''SSE stream ended'')"
proof -
  have "valid_message (greeting ''a'')" "valid_message (greeting ''b'')"
    by (simp_all add: valid_message_def greeting_def utf8_valid_ascii)
  moreover have "fits (greeting ''a'')" "fits (greeting ''b'')"
    using length_jquote [of "''type''"] length_jquote [of "''sync''"] length_jquote [of "''error''"] length_jquote [of "''a''"]
      length_jquote [of "''b''"]
    by (simp_all add: fits_def marshal_message_def message_json_def greeting_def omitempty_def MaxScanTokenSize_def)
  ultimately show ?thesis using sse_stream_delivers [of "[greeting ''a'', greeting ''b'']"] by simp
qed


text \<open>The concrete client has one item queued for its peer.\<close>

lemma demo_window: "window (mem_abs demoMem) 0 1000 = [demoItem]"
proof -
  let ?k = "QueueKey (QueueID 1700000010000000000 ''i0'' ''k'')"
  have "in_range (queue_args 0 1000) ?k" by (subst in_range_queue) (simp_all add: nano19_def cursor_ok_def)
  then have "{k \<in> dom (mem_abs demoMem). in_range (queue_args 0 1000) k} = {?k}"
    using queue_range_puts [of Map.empty demoItem 0 1000] by (simp add: demoMem_abs)
  moreover have "mem_abs demoMem ?k = Some ''i0''" by (simp add: demoMem_abs puts_def key_simps)
  ultimately show ?thesis
    by (simp add: window_def list_spec_def limit_to_def queue_args_def entry_at_def live_of_def List.map_filter_simps demo_live)
qed

definition demoPayload :: SyncPayload where
  "demoPayload = \<lparr>Items = [demoItem], LastSyncTimestamp = 1700000010000000000\<rparr>"

lemma demo_engine:
  "store (cliStore demoClient) = demoMem" "postSyncOuts (cliStore demoClient) = []" "syncOutFilters (cliStore demoClient) = []"
  "clock (cliStore demoClient) n = 1700000020000000000" "onSyncCompletes (cliStore demoClient) = []"
  by (simp_all add: demoClient_def NewClient_def conn_manager.defs OnUpdate_def NewSync_def NewWithOptions_def WithTimeOffset_def Let_def)

lemma demo_initiateSync:
  "\<exists>c'. initiateSync memStore lone_conn True demoClient =
    (Some \<lparr>mType = ''sync'', mPayload = Some demoPayload, mError = []\<rparr>, c')"
proof -
  let ?s = "cliStore demoClient"
  obtain t where "SyncOut memStore ''p'' MaxSyncOutLimit ?s = (Inr (payload_of ?s (mem_abs (store ?s))
      (cursor_of (mem_abs (store ?s)) ''p'') (effective_limit MaxSyncOutLimit) ''p''), t)" "evolves mem_inv mem_abs (mem_abs (store ?s)) ?s t"
    by (rule mem.SyncOut_spec [of ?s "''p''" MaxSyncOutLimit]) (simp_all add: demo_engine demoMem_inv wf_decodable demo_wf demo_cursor)
  moreover have "payload_of ?s (mem_abs demoMem) 0 1000 ''p'' = demoPayload"
    by (simp add: payload_of_def demo_window demo_engine passes_out_def advance_def demoPayload_def)
  ultimately have "SyncOut memStore ''p'' MaxSyncOutLimit ?s = (Inr demoPayload, t)"
    by (simp add: demo_engine demo_cursor effective_limit_def MaxSyncOutLimit_def)
  then have "\<exists>ss. Sync memStore ''p'' None ?s = (Inr (Some demoPayload), ss)" by (simp add: Sync_def demoPayload_def)
  then show ?thesis by (auto simp: initiateSync_def lone_conn_def)
qed


end
