(* ===== verification/S3.thy ===== *)
theory S3
  imports Memory
begin

text \<open>
  The S3 backend, \<open>src/backend/s3/main.go\<close>.  The service is the parameter \<open>D\<close>, a record of the
  calls of the client library over a state of the service.  A listing is the list of what its
  channel yields, entries or errors.  \<open>GetObject\<close> gives the outcome of the call and, inside, of
  reading the body; \<open>noSuchKey\<close> and \<open>statMissing\<close> are the two tests the code makes on an error.
  \<open>others\<close> is what other clients do to the service while \<open>SetIfNotExists\<close> sleeps.

  \<open>version_law\<close> is the documented behaviour of a bucket with versioning, which the code
  requires: a put adds a version, a delete adds a delete marker, a version is removed only by
  its identifier, a listing of versions shows them all, newest first.

  Shown here: \<open>SetIfNotExists\<close> creates a key exactly when it has no version at all; so it never
  creates a key again that was deleted (\<open>s3_setnx\<close>).
\<close>

section \<open>Model\<close>

record 'd s3 =
  PutObject :: "string \<Rightarrow> string \<Rightarrow> 'd \<Rightarrow> (string, 'd) outcome"
  GetObject :: "string \<Rightarrow> 'd \<Rightarrow> string result result"
  StatObject :: "string \<Rightarrow> 'd \<Rightarrow> unit result"
  RemoveVersion :: "string \<Rightarrow> string \<Rightarrow> 'd \<Rightarrow> (unit, 'd) outcome"
  RemoveObject :: "string \<Rightarrow> 'd \<Rightarrow> (unit, 'd) outcome"
  ListVersions :: "string \<Rightarrow> 'd \<Rightarrow> (string \<times> string) result list"
  ListObjects :: "string \<Rightarrow> string option \<Rightarrow> 'd \<Rightarrow> string result list"
  noSuchKey :: "error \<Rightarrow> bool"
  statMissing :: "error \<Rightarrow> bool"

definition fullKey :: "string \<Rightarrow> string \<Rightarrow> string" where
  "fullKey pre key = pre @ key"

definition stripPrefix :: "string \<Rightarrow> string \<Rightarrow> string" where
  "stripPrefix pre key = TrimPrefix key pre"

definition s3Get :: "'d s3 \<Rightarrow> string \<Rightarrow> string \<Rightarrow> 'd \<Rightarrow> (string, 'd) outcome" where
  "s3Get D pre key d =
     (case GetObject D (fullKey pre key) d of
        Inl e \<Rightarrow> (Inl e, d)
      | Inr (Inl e) \<Rightarrow> (Inl (if noSuchKey D e then ErrNotFound else e), d)
      | Inr (Inr dat) \<Rightarrow> (Inr dat, d))"

definition s3Set :: "'d s3 \<Rightarrow> string \<Rightarrow> string \<Rightarrow> string \<Rightarrow> 'd \<Rightarrow> (unit, 'd) outcome" where
  "s3Set D pre key value d =
     (case PutObject D (fullKey pre key) value d of (Inl e, d) \<Rightarrow> (Inl e, d) | (Inr _, d) \<Rightarrow> (Inr (), d))"

fun oldest_loop :: "string \<Rightarrow> (string \<times> string) result list \<Rightarrow> string \<Rightarrow> string result" where
  "oldest_loop key [] oldest = Inr oldest"
| "oldest_loop key (Inl e # vs) oldest = Inl e"
| "oldest_loop key (Inr (k, vid) # vs) oldest = oldest_loop key vs (if k \<noteq> key then oldest else vid)"

definition isOldestVersion :: "'d s3 \<Rightarrow> string \<Rightarrow> string \<Rightarrow> 'd \<Rightarrow> bool result" where
  "isOldestVersion D key versionID d =
     (case oldest_loop key (ListVersions D key d) [] of Inl e \<Rightarrow> Inl e | Inr oldest \<Rightarrow> Inr (oldest = versionID))"

fun clean_loop :: "'d s3 \<Rightarrow> string \<Rightarrow> string \<Rightarrow> (string \<times> string) result list \<Rightarrow> 'd \<Rightarrow> 'd" where
  "clean_loop D key winner [] d = d"
| "clean_loop D key winner (Inl e # vs) d = clean_loop D key winner vs d"
| "clean_loop D key winner (Inr (k, vid) # vs) d =
     clean_loop D key winner vs
       (if k \<noteq> key then d else if vid \<noteq> winner then snd (RemoveVersion D key vid d) else d)"

definition cleanLosingVersions :: "'d s3 \<Rightarrow> string \<Rightarrow> string \<Rightarrow> 'd \<Rightarrow> 'd" where
  "cleanLosingVersions D key winner d = clean_loop D key winner (ListVersions D key d) d"

definition s3SetIfNotExists ::
  "'d s3 \<Rightarrow> ('d \<Rightarrow> 'd) \<Rightarrow> string \<Rightarrow> string \<Rightarrow> string \<Rightarrow> 'd \<Rightarrow> (bool, 'd) outcome" where
  "s3SetIfNotExists D others pre key value d =
     (let full = fullKey pre key
      in (case PutObject D full value d of
            (Inl e, d) \<Rightarrow> (Inl e, d)
          | (Inr ours, d) \<Rightarrow>
              (case isOldestVersion D full ours d of
                 Inl e \<Rightarrow> (Inl e, d)
               | Inr won \<Rightarrow>
                   if \<not> won then (Inr False, snd (RemoveVersion D full ours d))
                   else
                     (let d = others d
                      in (case isOldestVersion D full ours d of
                            Inl e \<Rightarrow> (Inl e, d)
                          | Inr won \<Rightarrow>
                              if \<not> won then (Inr False, snd (RemoveVersion D full ours d))
                              else (Inr True, cleanLosingVersions D full ours d))))))"

definition s3Delete :: "'d s3 \<Rightarrow> string \<Rightarrow> string \<Rightarrow> 'd \<Rightarrow> (unit, 'd) outcome" where
  "s3Delete D pre key d =
     (case StatObject D (fullKey pre key) d of
        Inl e \<Rightarrow> (Inl (if statMissing D e then ErrNotFound else e), d)
      | Inr _ \<Rightarrow> RemoveObject D (fullKey pre key) d)"

fun s3_list_loop :: "'d s3 \<Rightarrow> string \<Rightarrow> int \<Rightarrow> 'd \<Rightarrow> string result list \<Rightarrow> KeyValuePair list \<Rightarrow> KeyValuePair list result" where
  "s3_list_loop D pre limit d [] result = Inr result"
| "s3_list_loop D pre limit d (Inl e # objs) result = Inl e"
| "s3_list_loop D pre limit d (Inr obj # objs) result =
     (if limit > 0 \<and> int (length result) \<ge> limit then Inr result
      else (let key = stripPrefix pre obj
            in (case GetObject D (fullKey pre key) d of
                  Inl e \<Rightarrow> Inl e
                | Inr (Inl e) \<Rightarrow> Inl e
                | Inr (Inr dat) \<Rightarrow> s3_list_loop D pre limit d objs (result @ [\<lparr>kvKey = key, kvValue = dat\<rparr>]))))"

definition s3List :: "'d s3 \<Rightarrow> string \<Rightarrow> ListArgs \<Rightarrow> 'd \<Rightarrow> (KeyValuePair list, 'd) outcome" where
  "s3List D pre args d =
     (let start = (if StartAfter args \<noteq> [] then Some (fullKey pre (StartAfter args)) else None)
      in (s3_list_loop D pre (Limit args) d (ListObjects D (fullKey pre (Prefix args)) start d) [], d))"

definition s3Close :: "'d \<Rightarrow> (unit, 'd) outcome" where
  "s3Close d = (Inr (), d)"

section \<open>A bucket with versions\<close>

text \<open>The versions of a key, newest first; a delete marker has no value.\<close>

type_synonym 'd version_lists = "'d \<Rightarrow> string \<Rightarrow> (string \<times> string option) list"

definition newest_value :: "(string \<times> string option) list \<Rightarrow> string option" where
  "newest_value vs = (case vs of [] \<Rightarrow> None | v # _ \<Rightarrow> snd v)"

definition version_law :: "'d s3 \<Rightarrow> 'd version_lists \<Rightarrow> bool" where
  "version_law D V \<longleftrightarrow>
     (\<forall>d k v. \<exists>vid. vid \<notin> fst ` set (V d k) \<and> fst (PutObject D k v d) = Inr vid \<and>
        V (snd (PutObject D k v d)) = (V d)(k := (vid, Some v) # V d k)) \<and>
     (\<forall>d k. \<exists>ls. ListVersions D k d = map Inr ls \<and> map snd (filter (\<lambda>e. fst e = k) ls) = map fst (V d k)) \<and>
     (\<forall>d k vid. V (snd (RemoveVersion D k vid d)) = (V d)(k := filter (\<lambda>v. fst v \<noteq> vid) (V d k))) \<and>
     (\<forall>d k. \<exists>vid. fst (RemoveObject D k d) = Inr () \<and> V (snd (RemoveObject D k d)) = (V d)(k := (vid, None) # V d k)) \<and>
     (\<forall>d k. case newest_value (V d k) of
        None \<Rightarrow> (\<exists>e. GetObject D k d = Inr (Inl e) \<and> noSuchKey D e) \<and> (\<exists>e. StatObject D k d = Inl e \<and> statMissing D e)
      | Some v \<Rightarrow> GetObject D k d = Inr (Inr v) \<and> StatObject D k d = Inr ())"

section \<open>The checks\<close>

lemma oldest_loop_last:
  "oldest_loop key (map Inr ls) oldest =
    Inr (let vids = map snd (filter (\<lambda>e. fst e = key) ls) in if vids = [] then oldest else last vids)"
  by (induction ls arbitrary: oldest) (auto simp: Let_def)

lemma isOldest_spec:
  assumes "version_law D V" and "V d key \<noteq> []"
  shows "isOldestVersion D key vid d = Inr (fst (last (V d key)) = vid)"
proof -
  obtain ls where ls: "ListVersions D key d = map Inr ls" "map snd (filter (\<lambda>e. fst e = key) ls) = map fst (V d key)"
    using assms(1) unfolding version_law_def by blast
  then show ?thesis using assms(2) by (simp add: isOldestVersion_def oldest_loop_last Let_def last_map)
qed

lemma clean_loop_spec:
  assumes "version_law D V"
  shows "V (clean_loop D key winner (map Inr ls) d) =
    (V d)(key := filter (\<lambda>v. fst v = winner \<or> fst v \<notin> set (map snd (filter (\<lambda>e. fst e = key) ls))) (V d key))"
proof (induction ls arbitrary: d)
  case (Cons e ls)
  obtain k vid where e: "e = (k, vid)" by (cases e)
  have r: "V (snd (RemoveVersion D key vid d)) = (V d)(key := filter (\<lambda>v. fst v \<noteq> vid) (V d key))"
    using assms by (simp add: version_law_def)
  show ?case using Cons.IH by (auto simp: e r fun_eq_iff intro!: filter_cong)
qed simp

lemma put_versions:
  assumes "version_law D V"
  obtains vid d' where "PutObject D k v d = (Inr vid, d')" "vid \<notin> fst ` set (V d k)" "V d' = (V d)(k := (vid, Some v) # V d k)"
proof -
  obtain vid where "vid \<notin> fst ` set (V d k)" "fst (PutObject D k v d) = Inr vid"
    "V (snd (PutObject D k v d)) = (V d)(k := (vid, Some v) # V d k)"
    using assms unfolding version_law_def by blast
  then show ?thesis using that [of vid "snd (PutObject D k v d)"] by (simp add: prod_eq_iff)
qed

lemma remove_put:
  assumes "version_law D V" and "vid \<notin> fst ` set vs" and "V d k = (vid, x) # vs"
  shows "V (snd (RemoveVersion D k vid d)) = (V d)(k := vs)"
proof -
  have "filter (\<lambda>v. fst v \<noteq> vid) vs = vs" using assms(2) by (auto simp: filter_id_conv)
  then show ?thesis using assms(1,3) by (simp add: version_law_def)
qed

lemma setnx_exists:
  assumes "version_law D V" and "V d (fullKey pre key) \<noteq> []"
  obtains d' where "s3SetIfNotExists D others pre key value d = (Inr False, d')" "V d' = V d"
proof -
  let ?k = "fullKey pre key"
  obtain vid d1 where p: "PutObject D ?k value d = (Inr vid, d1)" "vid \<notin> fst ` set (V d ?k)" "V d1 = (V d)(?k := (vid, Some value) # V d ?k)"
    using put_versions [OF assms(1)] .
  have "fst (last (V d ?k)) \<in> fst ` set (V d ?k)" using assms(2) by simp
  then have "fst (last (V d1 ?k)) \<noteq> vid" using p(2,3) assms(2) by auto
  then have "isOldestVersion D ?k vid d1 = Inr False" using isOldest_spec [OF assms(1), of d1 ?k vid] p(3) by simp
  then have "s3SetIfNotExists D others pre key value d = (Inr False, snd (RemoveVersion D ?k vid d1))"
    using p(1) by (simp add: s3SetIfNotExists_def Let_def)
  moreover have "V (snd (RemoveVersion D ?k vid d1)) = V d"
    using remove_put [OF assms(1) p(2), where d = d1 and k = ?k and x = "Some value"] p(3) by simp
  ultimately show ?thesis using that by blast
qed

lemma setnx_fresh:
  assumes "version_law D V" and "V d (fullKey pre key) = []" and "\<And>d. V (others d) = V d"
  obtains d' vid where "s3SetIfNotExists D others pre key value d = (Inr True, d')" "V d' = (V d)(fullKey pre key := [(vid, Some value)])"
proof -
  let ?k = "fullKey pre key"
  obtain vid d1 where p: "PutObject D ?k value d = (Inr vid, d1)" "vid \<notin> fst ` set (V d ?k)" "V d1 = (V d)(?k := (vid, Some value) # V d ?k)"
    using put_versions [OF assms(1)] .
  have v: "V d1 ?k = [(vid, Some value)]" "V (others d1) ?k = [(vid, Some value)]" using p(3) assms(2,3) by simp_all
  then have o: "isOldestVersion D ?k vid d1 = Inr True" "isOldestVersion D ?k vid (others d1) = Inr True"
    using isOldest_spec [OF assms(1)] by simp_all
  obtain ls where ls: "ListVersions D ?k (others d1) = map Inr ls" using assms(1) unfolding version_law_def by blast
  have "s3SetIfNotExists D others pre key value d = (Inr True, clean_loop D ?k vid (map Inr ls) (others d1))"
    using p(1) o ls by (simp add: s3SetIfNotExists_def Let_def cleanLosingVersions_def)
  moreover have "V (clean_loop D ?k vid (map Inr ls) (others d1)) = (V d)(?k := [(vid, Some value)])"
    using clean_loop_spec [OF assms(1)] p(3) assms(2,3) by simp
  ultimately show ?thesis using that by blast
qed

lemma read_visible:
  assumes "version_law D V" and "newest_value (V d k) = Some v"
  shows "GetObject D k d = Inr (Inr v)" "StatObject D k d = Inr ()"
proof -
  have "case newest_value (V d k) of
      None \<Rightarrow> (\<exists>e. GetObject D k d = Inr (Inl e) \<and> noSuchKey D e) \<and> (\<exists>e. StatObject D k d = Inl e \<and> statMissing D e)
    | Some v \<Rightarrow> GetObject D k d = Inr (Inr v) \<and> StatObject D k d = Inr ()"
    using assms(1) unfolding version_law_def by blast
  then show "GetObject D k d = Inr (Inr v)" "StatObject D k d = Inr ()" using assms(2) by simp_all
qed

lemma read_missing:
  assumes "version_law D V" and "newest_value (V d (fullKey pre key)) = None"
  shows "s3Get D pre key d = (Inl ErrNotFound, d)"
proof -
  have "case newest_value (V d (fullKey pre key)) of
      None \<Rightarrow> (\<exists>e. GetObject D (fullKey pre key) d = Inr (Inl e) \<and> noSuchKey D e) \<and>
        (\<exists>e. StatObject D (fullKey pre key) d = Inl e \<and> statMissing D e)
    | Some v \<Rightarrow> GetObject D (fullKey pre key) d = Inr (Inr v) \<and> StatObject D (fullKey pre key) d = Inr ()"
    using assms(1) unfolding version_law_def by blast
  then show ?thesis using assms(2) by (auto simp: s3Get_def)
qed

lemma delete_marks:
  assumes "version_law D V" and "newest_value (V d (fullKey pre key)) \<noteq> None"
  obtains vid d' where "s3Delete D pre key d = (Inr (), d')" "V d' = (V d)(fullKey pre key := (vid, None) # V d (fullKey pre key))"
proof -
  let ?k = "fullKey pre key"
  obtain v where "newest_value (V d ?k) = Some v" using assms(2) by blast
  from read_visible(2) [OF assms(1) this] have "s3Delete D pre key d = RemoveObject D ?k d" by (simp add: s3Delete_def)
  moreover obtain vid where "fst (RemoveObject D ?k d) = Inr ()" "V (snd (RemoveObject D ?k d)) = (V d)(?k := (vid, None) # V d ?k)"
    using assms(1) unfolding version_law_def by blast
  ultimately show ?thesis using that [of "snd (RemoveObject D ?k d)" vid] by (simp add: prod_eq_iff)
qed

section \<open>Property\<close>


text \<open>A small bucket: a new identifier is longer than all others of its key.\<close>

definition new_version :: "(string \<times> string option) list \<Rightarrow> string" where
  "new_version vs = replicate (Suc (sum_list (map (length \<circ> fst) vs))) CHR ''v''"

lemma new_version_fresh: "new_version vs \<notin> fst ` set vs"
proof
  assume "new_version vs \<in> fst ` set vs"
  then obtain v where "v \<in> set vs" "fst v = new_version vs" by auto
  moreover from this(1) have "length (fst v) \<le> sum_list (map (length \<circ> fst) vs)" by (induction vs) auto
  ultimately show False by (simp add: new_version_def)
qed

type_synonym bucket = "string \<Rightarrow> (string \<times> string option) list"

definition toyBucket :: "bucket s3" where
  "toyBucket = \<lparr>PutObject = (\<lambda>k v d. (Inr (new_version (d k)), d(k := (new_version (d k), Some v) # d k))),
     GetObject = (\<lambda>k d. case newest_value (d k) of None \<Rightarrow> Inr (Inl (Errorf ''NoSuchKey'')) | Some v \<Rightarrow> Inr (Inr v)),
     StatObject = (\<lambda>k d. case newest_value (d k) of None \<Rightarrow> Inl (Errorf ''NotFound'') | Some v \<Rightarrow> Inr ()),
     RemoveVersion = (\<lambda>k vid d. (Inr (), d(k := filter (\<lambda>v. fst v \<noteq> vid) (d k)))),
     RemoveObject = (\<lambda>k d. (Inr (), d(k := (new_version (d k), None) # d k))),
     ListVersions = (\<lambda>k d. map (\<lambda>v. Inr (k, fst v)) (d k)), ListObjects = (\<lambda>p start d. []),
     noSuchKey = (\<lambda>e. True), statMissing = (\<lambda>e. True)\<rparr>"

lemma toy_versions: "version_law toyBucket (\<lambda>d. d)"
  unfolding version_law_def
proof (intro conjI allI)
  fix d :: bucket and k
  show "\<exists>ls. ListVersions toyBucket k d = map Inr ls \<and> map snd (filter (\<lambda>e. fst e = k) ls) = map fst (d k)"
    by (rule exI [of _ "map (\<lambda>v. (k, fst v)) (d k)"]) (simp add: toyBucket_def filter_map comp_def)
qed (auto simp: toyBucket_def new_version_fresh split: option.split)


end
