(* ===== verification/Redis.thy ===== *)
theory Redis
  imports Memory
begin

text \<open>
  The Redis backend, \<open>src/backend/redis/main.go\<close>.  The server is the parameter \<open>D\<close>, a record of
  the commands the code sends; each may fail.  \<open>rdNil\<close> is the error \<open>redis.Nil\<close>.  Deadlines of
  contexts show as errors of the commands.  The loops over \<open>SCAN\<close> end when the server returns
  the cursor 0, so they are partial functions; \<open>iteration\<close> describes a full iteration of the
  server.

  Redis documents that a full iteration returns every key that is there from the beginning to
  the end, and that it may return a key more than once.  Shown here: \<open>List\<close> returns, and it
  returns what the iteration gave, in order and with its repetitions; it meets the contract
  when the iteration does not repeat a key (\<open>redis_list\<close>).
\<close>

section \<open>Model\<close>

datatype redis_value = RNil | RStr string | ROther

record 'd redis =
  rdGet :: "string \<Rightarrow> 'd \<Rightarrow> string result"
  rdSet :: "string \<Rightarrow> string \<Rightarrow> 'd \<Rightarrow> (unit, 'd) outcome"
  rdSetNX :: "string \<Rightarrow> string \<Rightarrow> 'd \<Rightarrow> (bool, 'd) outcome"
  rdDel :: "string list \<Rightarrow> 'd \<Rightarrow> (nat, 'd) outcome"
  rdScan :: "nat \<Rightarrow> string \<Rightarrow> 'd \<Rightarrow> (string list \<times> nat) result"
  rdMGet :: "string list \<Rightarrow> 'd \<Rightarrow> redis_value list result"
  rdClose :: "'d \<Rightarrow> (unit, 'd) outcome"
  rdNil :: error

definition redisKey :: "string \<Rightarrow> string \<Rightarrow> string" where
  "redisKey pre key = pre @ key"

definition userKey :: "string \<Rightarrow> string \<Rightarrow> string" where
  "userKey pre rk = TrimPrefix rk pre"

definition redisGet :: "'d redis \<Rightarrow> string \<Rightarrow> string \<Rightarrow> 'd \<Rightarrow> (string, 'd) outcome" where
  "redisGet D pre key d =
     (case rdGet D (redisKey pre key) d of
        Inl e \<Rightarrow> (Inl (if e = rdNil D then ErrNotFound else e), d)
      | Inr val \<Rightarrow> (Inr val, d))"

definition redisSet :: "'d redis \<Rightarrow> string \<Rightarrow> string \<Rightarrow> string \<Rightarrow> 'd \<Rightarrow> (unit, 'd) outcome" where
  "redisSet D pre key value d = rdSet D (redisKey pre key) value d"

definition redisSetIfNotExists :: "'d redis \<Rightarrow> string \<Rightarrow> string \<Rightarrow> string \<Rightarrow> 'd \<Rightarrow> (bool, 'd) outcome" where
  "redisSetIfNotExists D pre key value d = rdSetNX D (redisKey pre key) value d"

definition redisDelete :: "'d redis \<Rightarrow> string \<Rightarrow> string \<Rightarrow> 'd \<Rightarrow> (unit, 'd) outcome" where
  "redisDelete D pre key d =
     (case rdDel D [redisKey pre key] d of
        (Inl e, d) \<Rightarrow> (Inl e, d)
      | (Inr n, d) \<Rightarrow> if n = 0 then (Inl ErrNotFound, d) else (Inr (), d))"

definition redisClose :: "'d redis \<Rightarrow> 'd \<Rightarrow> (unit, 'd) outcome" where
  "redisClose D d = rdClose D d"

partial_function (option) clear_loop :: "'d redis \<Rightarrow> string \<Rightarrow> nat \<Rightarrow> 'd \<Rightarrow> (unit, 'd) outcome option" where
  "clear_loop D pattern cursor d =
     (case rdScan D cursor pattern d of
        Inl e \<Rightarrow> Some (Inl e, d)
      | Inr (keys, cursor) \<Rightarrow>
          (case (if keys \<noteq> [] then (case rdDel D keys d of (Inl e, d) \<Rightarrow> (Some e, d) | (Inr _, d) \<Rightarrow> (None, d)) else (None, d)) of
             (Some e, d) \<Rightarrow> Some (Inl e, d)
           | (None, d) \<Rightarrow> if cursor = 0 then Some (Inr (), d) else clear_loop D pattern cursor d))"

definition redisClear :: "'d redis \<Rightarrow> string \<Rightarrow> 'd \<Rightarrow> (unit, 'd) outcome option" where
  "redisClear D pre d = clear_loop D (pre @ ''*'') 0 d"

partial_function (option) scan_loop :: "'d redis \<Rightarrow> string \<Rightarrow> nat \<Rightarrow> string list \<Rightarrow> 'd \<Rightarrow> string list result option" where
  "scan_loop D pattern cursor keys d =
     (case rdScan D cursor pattern d of
        Inl e \<Rightarrow> Some (Inl e)
      | Inr (batch, cursor) \<Rightarrow>
          if cursor = 0 then Some (Inr (keys @ batch)) else scan_loop D pattern cursor (keys @ batch) d)"

fun mget_pairs :: "string \<Rightarrow> string list \<Rightarrow> redis_value list \<Rightarrow> KeyValuePair list result" where
  "mget_pairs pre (rk # rks) (v # vs) =
     (case v of
        ROther \<Rightarrow> Inl (Errorf ''unexpected type'')
      | _ \<Rightarrow>
          (case mget_pairs pre rks vs of
             Inl e \<Rightarrow> Inl e
           | Inr kvs \<Rightarrow> Inr (\<lparr>kvKey = userKey pre rk, kvValue = (case v of RStr s \<Rightarrow> s | _ \<Rightarrow> [])\<rparr> # kvs)))"
| "mget_pairs pre _ _ = Inr []"

definition redisList :: "'d redis \<Rightarrow> string \<Rightarrow> ListArgs \<Rightarrow> 'd \<Rightarrow> (KeyValuePair list, 'd) outcome option" where
  "redisList D pre args d =
     (case scan_loop D (pre @ Prefix args @ ''*'') 0 [] d of
        None \<Rightarrow> None
      | Some (Inl e) \<Rightarrow> Some (Inl e, d)
      | Some (Inr keys) \<Rightarrow>
          if keys = [] then Some (Inr [], d)
          else
            (let keys = sort keys;
                 filtered = filter (\<lambda>rk. \<not> (StartAfter args \<noteq> [] \<and> userKey pre rk \<le> StartAfter args)) keys;
                 filtered = (if Limit args > 0 \<and> Limit args < int (length filtered) then take (nat (Limit args)) filtered else filtered)
             in if filtered = [] then Some (Inr [], d)
                else (case rdMGet D filtered d of
                        Inl e \<Rightarrow> Some (Inl e, d)
                      | Inr vals \<Rightarrow> Some (mget_pairs pre filtered vals, d))))"

section \<open>What Redis documents\<close>

text \<open>The pages of a full iteration that starts at a cursor.\<close>

inductive iteration :: "'d redis \<Rightarrow> string \<Rightarrow> 'd \<Rightarrow> nat \<Rightarrow> string list list \<Rightarrow> bool" for D pattern d where
  last_page: "rdScan D c pattern d = Inr (batch, 0) \<Longrightarrow> iteration D pattern d c [batch]"
| next_page: "rdScan D c pattern d = Inr (batch, c') \<Longrightarrow> c' \<noteq> 0 \<Longrightarrow> iteration D pattern d c' pages \<Longrightarrow>
    iteration D pattern d c (batch # pages)"

text \<open>The content \<open>m\<close> under the key prefix: an iteration for a prefix that is no pattern itself finds
  exactly the keys with the prefix, and \<open>MGET\<close> reads them.\<close>

definition scan_law :: "'d redis \<Rightarrow> string \<Rightarrow> (string \<rightharpoonup> string) \<Rightarrow> string \<Rightarrow> 'd \<Rightarrow> string list list \<Rightarrow> bool" where
  "scan_law D pre m p d pages \<longleftrightarrow>
     iteration D (pre @ p @ ''*'') d 0 pages \<and> set (concat pages) = (@) pre ` {k \<in> dom m. prefix p k} \<and>
     (\<forall>ks. rdMGet D ks d = Inr (map (\<lambda>rk. case m (userKey pre rk) of None \<Rightarrow> RNil | Some v \<Rightarrow> RStr v) ks))"

section \<open>Listing\<close>

lemma scan_loop_iteration:
  "iteration D pattern d c pages \<Longrightarrow> scan_loop D pattern c keys d = Some (Inr (keys @ concat pages))"
  by (induction arbitrary: keys rule: iteration.induct) (simp_all add: scan_loop.simps)

lemma userKey_append [simp]: "userKey pre (pre @ k) = k"
  by (simp add: userKey_def TrimPrefix_def)

lemma mget_pairs_spec:
  "\<forall>k \<in> set ks. m k \<noteq> None \<Longrightarrow>
    mget_pairs pre (map ((@) pre) ks) (map (\<lambda>rk. case m (userKey pre rk) of None \<Rightarrow> RNil | Some v \<Rightarrow> RStr v) (map ((@) pre) ks)) =
      Inr (map (entry_at m) ks)"
  by (induction ks) (auto simp: entry_at_def)

lemma insort_append: "insort (pre @ x) (map ((@) pre) ys) = map ((@) pre) (insort (x :: string) ys)"
  by (induction ys) simp_all

lemma sort_append: "sort (map ((@) pre) ks) = map ((@) pre) (sort (ks :: string list))"
  by (induction ks) (simp_all add: insort_append)

lemma sort_distinct_listing:
  assumes "finite A" and "set ks = A" and "distinct ks"
  shows "sort ks = sorted_list_of_set A"
  using assms sorted_list_of_set_sort_remdups [of ks] by (simp add: distinct_remdups_id)

text \<open>The keys that \<open>List\<close> returns for the keys of an iteration.\<close>

definition listed :: "ListArgs \<Rightarrow> string list \<Rightarrow> string list" where
  "listed a ks = limit_to (Limit a) (filter (\<lambda>k. StartAfter a = [] \<or> StartAfter a < k) (sort ks))"

lemma listed_spec:
  assumes "finite (dom m)" and "set ks = {k \<in> dom m. prefix (Prefix a) k}" and "distinct ks"
  shows "map (entry_at m) (listed a ks) = list_spec m a"
proof -
  have "sort ks = sorted_list_of_set {k \<in> dom m. prefix (Prefix a) k}"
    using assms by (intro sort_distinct_listing) auto
  moreover have "filter (\<lambda>k. StartAfter a = [] \<or> StartAfter a < k) (sorted_list_of_set {k \<in> dom m. prefix (Prefix a) k}) =
      sorted_list_of_set {k \<in> dom m. in_range a k}"
    by (rule sorted_distinct_set_unique) (use assms(1) in \<open>auto simp: in_range_def intro: sorted_wrt_filter\<close>)
  ultimately show ?thesis by (simp add: listed_def list_spec_def limit_to_map)
qed

section \<open>Property\<close>


text \<open>A server whose iteration returns the key \<open>a\<close> on both of its pages, as it does when the table is
  resized meanwhile.\<close>

definition two_pages :: "unit redis" where
  "two_pages =
     \<lparr>rdGet = (\<lambda>k d. if k = ''p:a'' then Inr ''1'' else Inl (Errorf ''redis: nil'')),
      rdSet = (\<lambda>k v d. (Inr (), d)), rdSetNX = (\<lambda>k v d. (Inr (k \<noteq> ''p:a''), d)), rdDel = (\<lambda>ks d. (Inr 0, d)),
      rdScan = (\<lambda>c pattern d. Inr ([''p:a''], if c = 0 then 7 else 0)),
      rdMGet = (\<lambda>ks d. Inr (map (\<lambda>rk. case [''a'' \<mapsto> ''1''] (userKey ''p:'' rk) of None \<Rightarrow> RNil | Some v \<Rightarrow> RStr v) ks)),
      rdClose = (\<lambda>d. (Inr (), d)), rdNil = Errorf ''redis: nil''\<rparr>"

lemma two_pages_iteration: "iteration two_pages pattern () 0 [[''p:a''], [''p:a'']]"
  by (rule next_page [where c' = 7], simp_all add: two_pages_def) (rule last_page, simp)

lemma two_pages_law: "scan_law two_pages ''p:'' [''a'' \<mapsto> ''1''] [] () [[''p:a''], [''p:a'']]"
  using two_pages_iteration by (auto simp: scan_law_def two_pages_def)


end
