(* ===== verification/Mongo.thy ===== *)
theory Mongo
  imports Adapter
begin

text \<open>
  The MongoDB backend, \<open>src/backend/mongodb/main.go\<close>.  The collection is the parameter \<open>D\<close>, a
  record of the calls of the driver.  Filters are BSON documents, built as the code builds
  them; a Go map of type \<open>bson.M\<close> is an association list.  \<open>Find\<close> sorts by \<open>_id\<close> and gives what the
  cursor goes through: the result of decoding each document, and the error of the cursor.
  Deadlines of contexts show as errors of the calls.

  \<open>mongo_law\<close> is what MongoDB documents: a filter selects the documents that match all its
  fields, \<open>_id\<close> is unique and immutable, strings compare by their bytes.  Regular expressions
  are a parameter; the law says what \<open>regexp.QuoteMeta\<close> promises of its result.

  Shown here: over any collection that keeps the law, the backend meets the contract of \<open>Store\<close>
  (\<open>mongo_refines\<close>).
\<close>

section \<open>Model\<close>

datatype bson = BStr string | BArr "bson list" | BDoc "(string \<times> bson) list"

record document =
  docID :: string
  docValue :: string

record 'd mongo =
  FindOne :: "bson \<Rightarrow> 'd \<Rightarrow> document result"
  ReplaceUpsert :: "bson \<Rightarrow> document \<Rightarrow> 'd \<Rightarrow> (unit, 'd) outcome"
  InsertOne :: "document \<Rightarrow> 'd \<Rightarrow> (unit, 'd) outcome"
  DeleteOne :: "bson \<Rightarrow> 'd \<Rightarrow> (int, 'd) outcome"
  DeleteMany :: "bson \<Rightarrow> 'd \<Rightarrow> (int, 'd) outcome"
  FindSorted :: "bson \<Rightarrow> int option \<Rightarrow> 'd \<Rightarrow> (document result list \<times> error option) result"
  ErrNoDocuments :: error
  IsDuplicateKeyError :: "error \<Rightarrow> bool"

definition by_id :: "string \<Rightarrow> bson" where
  "by_id key = BDoc [(''_id'', BStr key)]"

definition mongoClear :: "'d mongo \<Rightarrow> 'd \<Rightarrow> (unit, 'd) outcome" where
  "mongoClear D d = (case DeleteMany D (BDoc []) d of (Inl e, d) \<Rightarrow> (Inl e, d) | (Inr _, d) \<Rightarrow> (Inr (), d))"

definition mongoGet :: "'d mongo \<Rightarrow> string \<Rightarrow> 'd \<Rightarrow> (string, 'd) outcome" where
  "mongoGet D key d =
     (case FindOne D (by_id key) d of
        Inl e \<Rightarrow> (Inl (if e = ErrNoDocuments D then ErrNotFound else e), d)
      | Inr doc \<Rightarrow> (Inr (docValue doc), d))"

definition mongoSet :: "'d mongo \<Rightarrow> string \<Rightarrow> string \<Rightarrow> 'd \<Rightarrow> (unit, 'd) outcome" where
  "mongoSet D key value d = ReplaceUpsert D (by_id key) \<lparr>docID = key, docValue = value\<rparr> d"

definition mongoSetIfNotExists :: "'d mongo \<Rightarrow> string \<Rightarrow> string \<Rightarrow> 'd \<Rightarrow> (bool, 'd) outcome" where
  "mongoSetIfNotExists D key value d =
     (case InsertOne D \<lparr>docID = key, docValue = value\<rparr> d of
        (Inl e, d) \<Rightarrow> if IsDuplicateKeyError D e then (Inr False, d) else (Inl e, d)
      | (Inr _, d) \<Rightarrow> (Inr True, d))"

definition mongoDelete :: "'d mongo \<Rightarrow> string \<Rightarrow> 'd \<Rightarrow> (unit, 'd) outcome" where
  "mongoDelete D key d =
     (case DeleteOne D (by_id key) d of
        (Inl e, d) \<Rightarrow> (Inl e, d)
      | (Inr n, d) \<Rightarrow> if n = 0 then (Inl ErrNotFound, d) else (Inr (), d))"

definition mongoClose :: "'d \<Rightarrow> (unit, 'd) outcome" where
  "mongoClose d = (Inr (), d)"

text \<open>\<open>regexp.QuoteMeta\<close>\<close>

definition QuoteMeta :: "string \<Rightarrow> string" where
  "QuoteMeta s = concat (map (\<lambda>c. if c \<in> set (CHR 0x5C # ''.+*?()|[]{}^$'') then [CHR 0x5C, c] else [c]) s)"

definition list_filter :: "ListArgs \<Rightarrow> (string \<times> bson) list" where
  "list_filter args =
     (let filt = [];
          filt = (if Prefix args \<noteq> []
                  then AList.update ''_id'' (BDoc [(''$regex'', BStr (CHR ''^'' # QuoteMeta (Prefix args)))]) filt
                  else filt)
      in if StartAfter args \<noteq> []
         then (case map_of filt ''_id'' of
                 Some existing \<Rightarrow>
                   AList.delete ''_id''
                     (AList.update ''$and''
                        (BArr [BDoc [(''_id'', existing)], BDoc [(''_id'', BDoc [(''$gt'', BStr (StartAfter args))])]]) filt)
               | None \<Rightarrow> AList.update ''_id'' (BDoc [(''$gt'', BStr (StartAfter args))]) filt)
         else filt)"

definition doc_pair :: "document \<Rightarrow> KeyValuePair" where
  "doc_pair doc = \<lparr>kvKey = docID doc, kvValue = docValue doc\<rparr>"

definition mongoList :: "'d mongo \<Rightarrow> ListArgs \<Rightarrow> 'd \<Rightarrow> (KeyValuePair list, 'd) outcome" where
  "mongoList D args d =
     read_rows doc_pair (FindSorted D (BDoc (list_filter args)) (if Limit args > 0 then Some (Limit args) else None) d) d"

definition mongoStore :: "'d mongo \<Rightarrow> 'd Store" where
  "mongoStore D = \<lparr>sGet = mongoGet D, sSet = mongoSet D, sSetIfNotExists = mongoSetIfNotExists D,
     sDelete = mongoDelete D, sList = mongoList D, sClose = mongoClose\<rparr>"

section \<open>What MongoDB documents\<close>

text \<open>The meaning of a filter, of the operators the code uses; \<open>rx\<close> is the matching of regular
  expressions.\<close>

fun match_value :: "(string \<Rightarrow> string \<Rightarrow> bool) \<Rightarrow> bson \<Rightarrow> string \<Rightarrow> bool" where
  "match_value rx (BStr s) k = (k = s)"
| "match_value rx (BDoc ops) k =
     list_all (\<lambda>(op, v). case v of BStr s \<Rightarrow> (if op = ''$regex'' then rx s k else op = ''$gt'' \<and> s < k) | _ \<Rightarrow> False) ops"
| "match_value rx (BArr vs) k = False"

fun match_field :: "(string \<Rightarrow> string \<Rightarrow> bool) \<Rightarrow> string \<times> bson \<Rightarrow> string \<Rightarrow> bool"
  and match_filter :: "(string \<Rightarrow> string \<Rightarrow> bool) \<Rightarrow> bson \<Rightarrow> string \<Rightarrow> bool"
  and match_fields :: "(string \<Rightarrow> string \<Rightarrow> bool) \<Rightarrow> (string \<times> bson) list \<Rightarrow> string \<Rightarrow> bool"
  and match_all :: "(string \<Rightarrow> string \<Rightarrow> bool) \<Rightarrow> bson list \<Rightarrow> string \<Rightarrow> bool" where
  "match_field rx (f, BArr qs) k = (f = ''$and'' \<and> match_all rx qs k)"
| "match_field rx (f, BStr s) k = (f = ''_id'' \<and> match_value rx (BStr s) k)"
| "match_field rx (f, BDoc ops) k = (f = ''_id'' \<and> match_value rx (BDoc ops) k)"
| "match_filter rx (BDoc fs) k = match_fields rx fs k"
| "match_filter rx (BStr s) k = False"
| "match_filter rx (BArr vs) k = False"
| "match_fields rx [] k = True"
| "match_fields rx (f # fs) k = (match_field rx f k \<and> match_fields rx fs k)"
| "match_all rx [] k = True"
| "match_all rx (q # qs) k = (match_filter rx q k \<and> match_all rx qs k)"

definition matching :: "(string \<Rightarrow> string \<Rightarrow> bool) \<Rightarrow> bson \<Rightarrow> (string \<rightharpoonup> string) \<Rightarrow> string set" where
  "matching rx q m = {k \<in> dom m. match_filter rx q k}"

definition found_one :: "'d mongo \<Rightarrow> (string \<rightharpoonup> string) \<Rightarrow> string set \<Rightarrow> document result \<Rightarrow> bool" where
  "found_one D m ks r \<longleftrightarrow>
     (case r of
        Inl e \<Rightarrow> if e = ErrNoDocuments D then ks = {} else db_error e
      | Inr doc \<Rightarrow> docID doc \<in> ks \<and> m (docID doc) = Some (docValue doc))"

definition doc_at :: "(string \<rightharpoonup> string) \<Rightarrow> string \<Rightarrow> document" where
  "doc_at m k = \<lparr>docID = k, docValue = the (m k)\<rparr>"

definition put_done :: "('d \<Rightarrow> bool) \<Rightarrow> ('d \<Rightarrow> (string \<rightharpoonup> string)) \<Rightarrow> document \<Rightarrow> 'd \<Rightarrow> (unit, 'd) outcome \<Rightarrow> bool" where
  "put_done I A doc d r \<longleftrightarrow>
     (case r of
        (Inl e, d') \<Rightarrow> I d' \<and> A d' = A d \<and> db_error e
      | (Inr _, d') \<Rightarrow> I d' \<and> A d' = (A d)(docID doc \<mapsto> docValue doc))"

definition insert_done :: "'d mongo \<Rightarrow> ('d \<Rightarrow> bool) \<Rightarrow> ('d \<Rightarrow> (string \<rightharpoonup> string)) \<Rightarrow> document \<Rightarrow> 'd \<Rightarrow> (unit, 'd) outcome \<Rightarrow> bool" where
  "insert_done D I A doc d r \<longleftrightarrow>
     (case r of
        (Inl e, d') \<Rightarrow> I d' \<and> A d' = A d \<and> (if IsDuplicateKeyError D e then A d (docID doc) \<noteq> None else db_error e)
      | (Inr _, d') \<Rightarrow> I d' \<and> A d (docID doc) = None \<and> A d' = (A d)(docID doc \<mapsto> docValue doc))"

definition delete_done :: "('d \<Rightarrow> bool) \<Rightarrow> ('d \<Rightarrow> (string \<rightharpoonup> string)) \<Rightarrow> string set \<Rightarrow> 'd \<Rightarrow> (int, 'd) outcome \<Rightarrow> bool" where
  "delete_done I A ks d r \<longleftrightarrow>
     (case r of
        (Inl e, d') \<Rightarrow> I d' \<and> A d' = A d \<and> db_error e
      | (Inr n, d') \<Rightarrow> I d' \<and> (if n = 0 then ks = {} \<and> A d' = A d else (\<exists>k \<in> ks. A d' = (A d)(k := None))))"

definition clear_done :: "('d \<Rightarrow> bool) \<Rightarrow> ('d \<Rightarrow> (string \<rightharpoonup> string)) \<Rightarrow> string set \<Rightarrow> 'd \<Rightarrow> (int, 'd) outcome \<Rightarrow> bool" where
  "clear_done I A ks d r \<longleftrightarrow>
     (case r of
        (Inl e, d') \<Rightarrow> I d' \<and> A d' = A d \<and> db_error e
      | (Inr _, d') \<Rightarrow> I d' \<and> A d' = A d |` (- ks))"

definition mongo_calls :: "'d mongo \<Rightarrow> (string \<Rightarrow> string \<Rightarrow> bool) \<Rightarrow> ('d \<Rightarrow> bool) \<Rightarrow> ('d \<Rightarrow> (string \<rightharpoonup> string)) \<Rightarrow> 'd \<Rightarrow> bool" where
  "mongo_calls D rx I A d \<longleftrightarrow>
     (\<forall>q. found_one D (A d) (matching rx q (A d)) (FindOne D q d)) \<and>
     (\<forall>q lim. yields (map (doc_at (A d)) ((case lim of None \<Rightarrow> id | Some n \<Rightarrow> take (nat n)) (sorted_list_of_set (matching rx q (A d)))))
        (FindSorted D q lim d)) \<and>
     (\<forall>q doc. put_done I A doc d (ReplaceUpsert D q doc d)) \<and>
     (\<forall>doc. insert_done D I A doc d (InsertOne D doc d)) \<and>
     (\<forall>q. delete_done I A (matching rx q (A d)) d (DeleteOne D q d)) \<and>
     (\<forall>q. clear_done I A (matching rx q (A d)) d (DeleteMany D q d))"

definition mongo_law :: "'d mongo \<Rightarrow> (string \<Rightarrow> string \<Rightarrow> bool) \<Rightarrow> ('d \<Rightarrow> bool) \<Rightarrow> ('d \<Rightarrow> (string \<rightharpoonup> string)) \<Rightarrow> bool" where
  "mongo_law D rx I A \<longleftrightarrow>
     (\<forall>p k. rx (CHR ''^'' # QuoteMeta p) k \<longleftrightarrow> prefix p k) \<and>
     (\<forall>d. I d \<longrightarrow> finite (dom (A d)) \<and> mongo_calls D rx I A d)"

section \<open>The operations\<close>

lemma matching_by_id: "matching rx (by_id key) m = (if m key = None then {} else {key})"
  by (auto simp: matching_def by_id_def)

lemma match_list_filter:
  assumes "\<forall>p k. rx (CHR ''^'' # QuoteMeta p) k \<longleftrightarrow> prefix p k"
  shows "match_filter rx (BDoc (list_filter a)) k \<longleftrightarrow> in_range a k"
  using assms by (simp add: list_filter_def in_range_def)

lemma mongo_callsD:
  assumes "mongo_calls D rx I A d"
  shows "found_one D (A d) (matching rx q (A d)) (FindOne D q d)"
    and "yields (map (doc_at (A d)) ((case lim of None \<Rightarrow> id | Some n \<Rightarrow> take (nat n)) (sorted_list_of_set (matching rx q (A d)))))
      (FindSorted D q lim d)"
    and "put_done I A doc d (ReplaceUpsert D q doc d)"
    and "insert_done D I A doc d (InsertOne D doc d)"
    and "delete_done I A (matching rx q (A d)) d (DeleteOne D q d)"
    and "clear_done I A (matching rx q (A d)) d (DeleteMany D q d)"
  using assms by (simp_all add: mongo_calls_def)

lemma mongoGet_serves:
  assumes "mongo_calls D rx I A d" and "I d"
  shows "serves I A d (mongoGet D k d) (case A d k of None \<Rightarrow> Inl ErrNotFound | Some v \<Rightarrow> Inr v) (A d)"
  using mongo_callsD(1) [OF assms(1), of "by_id k"] assms(2)
  by (auto simp: found_one_def mongoGet_def matching_by_id serves_def split: sum.splits if_splits option.splits)

lemma mongoSet_serves:
  assumes "mongo_calls D rx I A d"
  shows "serves I A d (mongoSet D k v d) (Inr ()) ((A d)(k \<mapsto> v))"
  using mongo_callsD(3) [OF assms, of "\<lparr>docID = k, docValue = v\<rparr>" "by_id k"]
  by (auto simp: put_done_def mongoSet_def serves_def split: prod.splits sum.splits)

lemma mongoSetIfNotExists_serves:
  assumes "mongo_calls D rx I A d"
  shows "serves I A d (mongoSetIfNotExists D k v d) (Inr (A d k = None)) (if A d k = None then (A d)(k \<mapsto> v) else A d)"
  using mongo_callsD(4) [OF assms, of "\<lparr>docID = k, docValue = v\<rparr>"]
  by (auto simp: insert_done_def mongoSetIfNotExists_def serves_def split: prod.splits sum.splits if_splits)

lemma mongoDelete_serves:
  assumes "mongo_calls D rx I A d"
  shows "serves I A d (mongoDelete D k d) (if A d k = None then Inl ErrNotFound else Inr ()) ((A d)(k := None))"
  using mongo_callsD(5) [OF assms, of "by_id k"]
  by (auto simp: delete_done_def mongoDelete_def serves_def matching_by_id fun_upd_idem split: prod.splits sum.splits if_splits)

lemma mongoClear_serves:
  assumes "mongo_calls D rx I A d"
  shows "serves I A d (mongoClear D d) (Inr ()) Map.empty"
proof -
  have "A d |` (- matching rx (BDoc []) (A d)) = Map.empty"
    by (auto simp: matching_def restrict_map_def fun_eq_iff dom_def)
  then show ?thesis using mongo_callsD(6) [OF assms, of "BDoc []"]
    by (auto simp: clear_done_def mongoClear_def serves_def split: prod.splits sum.splits)
qed

lemma mongoList_serves:
  assumes "mongo_law D rx I A" and "I d"
  shows "serves I A d (mongoList D a d) (Inr (list_spec (A d) a)) (A d)"
proof -
  let ?q = "BDoc (list_filter a)" and ?lim = "if Limit a > 0 then Some (Limit a) else None"
  let ?ks = "limit_to (Limit a) (sorted_list_of_set {k \<in> dom (A d). in_range a k})"
  have rx: "\<forall>p k. rx (CHR ''^'' # QuoteMeta p) k \<longleftrightarrow> prefix p k" and calls: "mongo_calls D rx I A d"
    using assms by (simp_all add: mongo_law_def)
  have "matching rx ?q (A d) = {k \<in> dom (A d). in_range a k}" unfolding matching_def match_list_filter [OF rx] ..
  then have "yields (map (doc_at (A d)) ?ks) (FindSorted D ?q ?lim d)"
    using mongo_callsD(2) [OF calls, of ?lim ?q] by (simp add: limit_to_def split: if_splits)
  moreover have "map doc_pair (map (doc_at (A d)) ks) = map (entry_at (A d)) ks" for ks
    by (simp add: doc_pair_def doc_at_def entry_at_def)
  ultimately show ?thesis using read_rows_serves [where I = I and d = d and A = A and pair = doc_pair, OF _ assms(2)]
    unfolding mongoList_def list_spec_def limit_to_map by metis
qed

section \<open>A concrete collection\<close>

fun unquote :: "string \<Rightarrow> string" where
  "unquote [] = []"
| "unquote [c] = [c]"
| "unquote (c # c' # s) = (if c = CHR 0x5C then c' # unquote s else c # unquote (c' # s))"

definition toy_rx :: "string \<Rightarrow> string \<Rightarrow> bool" where
  "toy_rx r k = prefix (unquote (tl r)) k"

lemma unquote_plain: "c \<noteq> CHR 0x5C \<Longrightarrow> unquote (c # s) = c # unquote s"
  by (cases s) simp_all

lemma unquote_QuoteMeta: "unquote (QuoteMeta p) = p"
proof (induction p)
  case (Cons c p)
  then show ?case by (cases "c \<in> set (CHR 0x5C # ''.+*?()|[]{}^$'')") (simp_all add: QuoteMeta_def unquote_plain)
qed (simp add: QuoteMeta_def)

lemma distinct_map_fst_filter: "distinct (map fst xs) \<Longrightarrow> distinct (map fst (filter P xs))"
  by (induction xs) auto

lemma map_of_filter_keys: "map_of (filter (\<lambda>kv. fst kv \<notin> K) xs) = map_of xs |` (- K)"
  by (induction xs) (auto simp: restrict_map_def fun_eq_iff)

definition toyMongo :: "StoreMemory mongo" where
  "toyMongo =
     \<lparr>FindOne = (\<lambda>q d. case sorted_list_of_set (matching toy_rx q (mem_abs d)) of
        [] \<Rightarrow> Inl (Errorf ''no documents'') | k # _ \<Rightarrow> Inr \<lparr>docID = k, docValue = the (mem_abs d k)\<rparr>),
      ReplaceUpsert = (\<lambda>q doc d. memSet (docID doc) (docValue doc) d),
      InsertOne = (\<lambda>doc d. if mem_abs d (docID doc) \<noteq> None then (Inl (Errorf ''duplicate key''), d) else memSet (docID doc) (docValue doc) d),
      DeleteOne = (\<lambda>q d. case sorted_list_of_set (matching toy_rx q (mem_abs d)) of
        [] \<Rightarrow> (Inr 0, d) | k # _ \<Rightarrow> (Inr 1, snd (memDelete k d))),
      DeleteMany = (\<lambda>q d. (Inr 1, d\<lparr>data := filter (\<lambda>kv. fst kv \<notin> matching toy_rx q (mem_abs d)) (data d)\<rparr>)),
      FindSorted = (\<lambda>q lim d. Inr (map (\<lambda>k. Inr \<lparr>docID = k, docValue = the (mem_abs d k)\<rparr>)
        ((case lim of None \<Rightarrow> id | Some n \<Rightarrow> take (nat n)) (sorted_list_of_set (matching toy_rx q (mem_abs d)))), None)),
      ErrNoDocuments = Errorf ''no documents'', IsDuplicateKeyError = (\<lambda>e. e = Errorf ''duplicate key'')\<rparr>"

lemma first_matching:
  assumes "finite (dom m)"
  shows "sorted_list_of_set (matching rx q m) = [] \<longleftrightarrow> matching rx q m = {}"
    and "sorted_list_of_set (matching rx q m) = k # ks \<Longrightarrow> k \<in> matching rx q m \<and> m k \<noteq> None"
proof -
  have fin: "finite (matching rx q m)" using assms by (simp add: matching_def)
  then show "sorted_list_of_set (matching rx q m) = [] \<longleftrightarrow> matching rx q m = {}" by simp
  show "k \<in> matching rx q m \<and> m k \<noteq> None" if "sorted_list_of_set (matching rx q m) = k # ks"
    using set_sorted_list_of_set [OF fin] that by (auto simp: matching_def)
qed

lemma toy_mongo_law: "mongo_law toyMongo toy_rx mem_inv mem_abs"
proof -
  have "mongo_calls toyMongo toy_rx mem_inv mem_abs d" if inv: "mem_inv d" for d
  proof -
    have fin: "finite (dom (mem_abs d))" using inv by (simp add: mem_abs_finite)
    note first = first_matching [OF fin, of toy_rx]
    have upd: "mem_inv (snd (memSet k v d)) \<and> mem_abs (snd (memSet k v d)) = (mem_abs d)(k \<mapsto> v)" for k v
      using inv mem.set_inv [of d k v] mem.set_abs [of d k v] by (simp add: memStore_def)
    have del: "mem_inv (snd (memDelete k d)) \<and> mem_abs (snd (memDelete k d)) = (mem_abs d)(k := None)" for k
      using inv mem.delete_inv [of d k] mem.delete_abs [of d k] by (simp add: memStore_def)
    have set: "memSet k v d = (Inr (), snd (memSet k v d))" for k v by (simp add: memSet_def)
    have "found_one toyMongo (mem_abs d) (matching toy_rx q (mem_abs d)) (FindOne toyMongo q d)" for q
      using first by (fastforce simp: found_one_def toyMongo_def split: list.split)
    moreover have "yields (map (doc_at (mem_abs d)) ((case lim of None \<Rightarrow> id | Some n \<Rightarrow> take (nat n)) (sorted_list_of_set (matching toy_rx q (mem_abs d)))))
        (FindSorted toyMongo q lim d)" for q lim
      by (auto simp: yields_def toyMongo_def doc_at_def)
    moreover have "put_done mem_inv mem_abs doc d (ReplaceUpsert toyMongo q doc d)" for q doc
      using upd [of "docID doc" "docValue doc"] by (subst (asm) (1 2) set) (simp add: put_done_def toyMongo_def, subst set, simp)
    moreover have "insert_done toyMongo mem_inv mem_abs doc d (InsertOne toyMongo doc d)" for doc
      using upd [of "docID doc" "docValue doc"] inv set [of "docID doc" "docValue doc"]
      by (auto simp: insert_done_def toyMongo_def split: prod.split sum.split)
    moreover have "delete_done mem_inv mem_abs (matching toy_rx q (mem_abs d)) d (DeleteOne toyMongo q d)" for q
    proof (cases "sorted_list_of_set (matching toy_rx q (mem_abs d))")
      case Nil
      then show ?thesis using first(1) inv by (simp add: delete_done_def toyMongo_def)
    next
      case (Cons k ks)
      then have "k \<in> matching toy_rx q (mem_abs d)" using first(2) by blast
      then show ?thesis using Cons del [of k] by (auto simp: delete_done_def toyMongo_def)
    qed
    moreover have "clear_done mem_inv mem_abs (matching toy_rx q (mem_abs d)) d (DeleteMany toyMongo q d)" for q
      using inv by (simp add: clear_done_def toyMongo_def mem_abs_def mem_inv_def distinct_map_fst_filter map_of_filter_keys)
    ultimately show ?thesis by (simp add: mongo_calls_def)
  qed
  moreover have "\<forall>p k. toy_rx (CHR ''^'' # QuoteMeta p) k \<longleftrightarrow> prefix p k" by (simp add: toy_rx_def unquote_QuoteMeta)
  ultimately show ?thesis by (simp add: mongo_law_def mem_abs_finite)
qed

section \<open>Property\<close>

lemma mongo_contract:
  assumes "mongo_law D rx I A"
  shows "fallible_store (mongoStore D) I A"
proof (rule fallible_storeI)
  fix d k v a assume I: "I d"
  have calls: "mongo_calls D rx I A d" using assms I by (simp add: mongo_law_def)
  show "finite (dom (A d))" using assms I by (simp add: mongo_law_def)
  show "serves I A d (sGet (mongoStore D) k d) (case A d k of None \<Rightarrow> Inl ErrNotFound | Some v \<Rightarrow> Inr v) (A d)"
    using mongoGet_serves [OF calls I] by (simp add: mongoStore_def)
  show "serves I A d (sSet (mongoStore D) k v d) (Inr ()) ((A d)(k \<mapsto> v))"
    using mongoSet_serves [OF calls] by (simp add: mongoStore_def)
  show "serves I A d (sSetIfNotExists (mongoStore D) k v d) (Inr (A d k = None)) (if A d k = None then (A d)(k \<mapsto> v) else A d)"
    using mongoSetIfNotExists_serves [OF calls, of k v] by (simp add: mongoStore_def)
  show "serves I A d (sDelete (mongoStore D) k d) (if A d k = None then Inl ErrNotFound else Inr ()) ((A d)(k := None))"
    using mongoDelete_serves [OF calls, of k] by (simp add: mongoStore_def)
  show "serves I A d (sList (mongoStore D) a d) (Inr (list_spec (A d) a)) (A d)"
    using mongoList_serves [OF assms I] by (simp add: mongoStore_def)
qed

text \<open>C39. The backend implements the interface: over every collection that keeps the documented law of
  MongoDB, each operation of the backend either reports an error of the database and changes
  nothing, or does what the contract of \<open>Store\<close> says; the filter that \<open>List\<close> builds selects
  exactly the keys of the listing, whatever characters the prefix has; \<open>Clear\<close> empties it.\<close>

theorem mongo_refines:
  assumes "mongo_law D rx I A"
  shows "fallible_store (mongoStore D) I A \<and> (\<forall>d. I d \<longrightarrow> serves I A d (mongoClear D d) (Inr ()) Map.empty)"
  using mongo_contract [OF assms] mongoClear_serves [of D rx I A] assms by (simp add: mongo_law_def)

theorem mongo_refines_witness:
  "fallible_store (mongoStore toyMongo) mem_inv mem_abs \<and>
   serves mem_inv mem_abs NewMemory (mongoClear toyMongo NewMemory) (Inr ()) Map.empty"
  using mongo_refines [OF toy_mongo_law] by (simp add: mem_inv_def NewMemory_def)

end
