(* ===== verification/Sql.thy ===== *)
theory Sql
  imports Adapter
begin

text \<open>
  The SQL backend, \<open>src/backend/sql/main.go\<close>.  The database is the parameter \<open>D\<close>, a record of the
  calls of \<open>database/sql\<close>: a statement is its text with the values of its parameters, as the code
  puts it together.  \<open>dbExec\<close> gives the outcome of \<open>RowsAffected\<close>; \<open>dbQuery\<close> gives what the rows go
  through: the result of scanning each row, and the error of the rows.

  \<open>sql_law\<close> says what the statements mean.  The conditions of a \<open>SELECT\<close> are written by \<open>select_text\<close>,
  with the placeholders numbered in the order of the values.  Databases differ in \<open>LIKE\<close> (what is
  a character, what an escape, whether case counts), so it is a parameter of the law; \<open>plain\<close>
  collects the prefixes whose pattern matches exactly the keys with the prefix.

  Shown here: the text of the listing matches its values in both placeholder styles
  (\<open>list_query_text\<close>); the backend does what the contract of \<open>Store\<close> says, a listing for every plain
  prefix (\<open>sql_serves\<close>); with a wildcard in the prefix it lists other keys (\<open>sql_wildcard\<close>).
\<close>

section \<open>Model\<close>

datatype PlaceholderStyle = QuestionMark | DollarSign

datatype sql_value = SStr string | SInt int

record 'd sqldb =
  dbExec :: "string \<Rightarrow> sql_value list \<Rightarrow> 'd \<Rightarrow> (int result, 'd) outcome"
  dbQueryRow :: "string \<Rightarrow> sql_value list \<Rightarrow> 'd \<Rightarrow> string result"
  dbQuery :: "string \<Rightarrow> sql_value list \<Rightarrow> 'd \<Rightarrow> ((string \<times> string) result list \<times> error option) result"
  sqlDbClose :: "'d \<Rightarrow> (unit, 'd) outcome"
  ErrNoRows :: error

record 'd StoreSQL =
  sqlDB :: "'d sqldb"
  placeholderStyle :: PlaceholderStyle

definition WithPlaceholderStyle :: "PlaceholderStyle \<Rightarrow> 'd StoreSQL \<Rightarrow> 'd StoreSQL" where
  "WithPlaceholderStyle style s = s\<lparr>placeholderStyle := style\<rparr>"

definition ph :: "'d StoreSQL \<Rightarrow> nat \<Rightarrow> string" where
  "ph s n = (if placeholderStyle s = DollarSign then ''$'' @ dec n else ''?'')"

definition create_table :: string where
  "create_table = ''CREATE TABLE IF NOT EXISTS kv_store ('' @ [CHR 0x0A, CHR 0x09, CHR 0x09] @ ''key TEXT PRIMARY KEY,'' @
     [CHR 0x0A, CHR 0x09, CHR 0x09] @ ''value TEXT'' @ [CHR 0x0A, CHR 0x09] @ '')''"

definition sqlInit :: "'d StoreSQL \<Rightarrow> 'd \<Rightarrow> (unit, 'd) outcome" where
  "sqlInit s d = (case dbExec (sqlDB s) create_table [] d of (Inl e, d) \<Rightarrow> (Inl e, d) | (Inr _, d) \<Rightarrow> (Inr (), d))"

definition sqlNew :: "'d sqldb \<Rightarrow> ('d StoreSQL \<Rightarrow> 'd StoreSQL) list \<Rightarrow> 'd \<Rightarrow> ('d StoreSQL, 'd) outcome" where
  "sqlNew db opts d =
     (let s = foldl (\<lambda>s opt. opt s) \<lparr>sqlDB = db, placeholderStyle = QuestionMark\<rparr> opts
      in (case sqlInit s d of (Inl e, d) \<Rightarrow> (Inl e, d) | (Inr _, d) \<Rightarrow> (Inr s, d)))"

definition sqlGet :: "'d StoreSQL \<Rightarrow> string \<Rightarrow> 'd \<Rightarrow> (string, 'd) outcome" where
  "sqlGet s key d =
     (case dbQueryRow (sqlDB s) (''SELECT value FROM kv_store WHERE key = '' @ ph s 1) [SStr key] d of
        Inl e \<Rightarrow> (Inl (if e = ErrNoRows (sqlDB s) then ErrNotFound else e), d)
      | Inr v \<Rightarrow> (Inr v, d))"

definition sqlSet :: "'d StoreSQL \<Rightarrow> string \<Rightarrow> string \<Rightarrow> 'd \<Rightarrow> (unit, 'd) outcome" where
  "sqlSet s key value d =
     (case dbExec (sqlDB s)
        (''INSERT INTO kv_store (key, value) VALUES ('' @ ph s 1 @ '', '' @ ph s 2 @
           '') ON CONFLICT(key) DO UPDATE SET value = excluded.value'') [SStr key, SStr value] d of
        (Inl e, d) \<Rightarrow> (Inl e, d)
      | (Inr _, d) \<Rightarrow> (Inr (), d))"

definition sqlSetIfNotExists :: "'d StoreSQL \<Rightarrow> string \<Rightarrow> string \<Rightarrow> 'd \<Rightarrow> (bool, 'd) outcome" where
  "sqlSetIfNotExists s key value d =
     (case dbExec (sqlDB s)
        (''INSERT INTO kv_store (key, value) VALUES ('' @ ph s 1 @ '', '' @ ph s 2 @ '') ON CONFLICT (key) DO NOTHING'')
        [SStr key, SStr value] d of
        (Inl e, d) \<Rightarrow> (Inl e, d)
      | (Inr (Inl e), d) \<Rightarrow> (Inl e, d)
      | (Inr (Inr affected), d) \<Rightarrow> (Inr (affected = 1), d))"

definition sqlDelete :: "'d StoreSQL \<Rightarrow> string \<Rightarrow> 'd \<Rightarrow> (unit, 'd) outcome" where
  "sqlDelete s key d =
     (case dbExec (sqlDB s) (''DELETE FROM kv_store WHERE key = '' @ ph s 1) [SStr key] d of
        (Inl e, d) \<Rightarrow> (Inl e, d)
      | (Inr (Inl e), d) \<Rightarrow> (Inl e, d)
      | (Inr (Inr affected), d) \<Rightarrow> if affected = 0 then (Inl ErrNotFound, d) else (Inr (), d))"

definition sqlClear :: "'d StoreSQL \<Rightarrow> 'd \<Rightarrow> (unit, 'd) outcome" where
  "sqlClear s d = (case dbExec (sqlDB s) ''DELETE FROM kv_store'' [] d of (Inl e, d) \<Rightarrow> (Inl e, d) | (Inr _, d) \<Rightarrow> (Inr (), d))"

definition sqlClose :: "'d StoreSQL \<Rightarrow> 'd \<Rightarrow> (unit, 'd) outcome" where
  "sqlClose s d = sqlDbClose (sqlDB s) d"

text \<open>The loop that appends the conditions; \<open>i\<close> is its index.\<close>

fun add_conditions :: "nat \<Rightarrow> string list \<Rightarrow> string \<Rightarrow> string" where
  "add_conditions i [] query = query"
| "add_conditions i (cond # conds) query =
     add_conditions (Suc i) conds (query @ (if i = 0 then '' WHERE '' else '' AND '') @ cond)"

definition list_query :: "'d StoreSQL \<Rightarrow> ListArgs \<Rightarrow> string \<times> sql_value list" where
  "list_query s args =
     (let query = ''SELECT key, value FROM kv_store''; queryArgs = []; conditions = []; paramIdx = 1;
          (conditions, paramIdx, queryArgs) =
            (if Prefix args \<noteq> []
             then (conditions @ [''key LIKE '' @ ph s paramIdx], paramIdx + 1, queryArgs @ [SStr (Prefix args @ ''%'')])
             else (conditions, paramIdx, queryArgs));
          (conditions, paramIdx, queryArgs) =
            (if StartAfter args \<noteq> []
             then (conditions @ [''key > '' @ ph s paramIdx], paramIdx + 1, queryArgs @ [SStr (StartAfter args)])
             else (conditions, paramIdx, queryArgs));
          query = add_conditions 0 conditions query @ '' ORDER BY key ASC'';
          (query, queryArgs) =
            (if Limit args > 0 then (query @ '' LIMIT '' @ ph s paramIdx, queryArgs @ [SInt (Limit args)]) else (query, queryArgs))
      in (query, queryArgs))"

definition row_pair :: "string \<times> string \<Rightarrow> KeyValuePair" where
  "row_pair row = (case row of (k, v) \<Rightarrow> \<lparr>kvKey = k, kvValue = v\<rparr>)"

definition sqlList :: "'d StoreSQL \<Rightarrow> ListArgs \<Rightarrow> 'd \<Rightarrow> (KeyValuePair list, 'd) outcome" where
  "sqlList s args d =
     (case list_query s args of (query, queryArgs) \<Rightarrow> read_rows row_pair (dbQuery (sqlDB s) query queryArgs d) d)"

section \<open>What the statements mean\<close>

text \<open>Conditions on the key, and the text of a selection with placeholders from \<open>n\<close> on.\<close>

datatype key_cond = KLike string | KAfter string

fun cond_value :: "key_cond \<Rightarrow> sql_value" where
  "cond_value (KLike p) = SStr p"
| "cond_value (KAfter k) = SStr k"

fun cond_text :: "'d StoreSQL \<Rightarrow> nat \<Rightarrow> key_cond \<Rightarrow> string" where
  "cond_text s n (KLike _) = ''key LIKE '' @ ph s n"
| "cond_text s n (KAfter _) = ''key > '' @ ph s n"

fun and_text :: "'d StoreSQL \<Rightarrow> nat \<Rightarrow> key_cond list \<Rightarrow> string" where
  "and_text s n [] = []"
| "and_text s n (c # cs) = '' AND '' @ cond_text s n c @ and_text s (Suc n) cs"

fun where_text :: "'d StoreSQL \<Rightarrow> key_cond list \<Rightarrow> string" where
  "where_text s [] = []"
| "where_text s (c # cs) = '' WHERE '' @ cond_text s 1 c @ and_text s 2 cs"

definition select_text :: "'d StoreSQL \<Rightarrow> key_cond list \<Rightarrow> int option \<Rightarrow> string" where
  "select_text s cs lim =
     ''SELECT key, value FROM kv_store'' @ where_text s cs @ '' ORDER BY key ASC'' @
     (case lim of None \<Rightarrow> [] | Some _ \<Rightarrow> '' LIMIT '' @ ph s (Suc (length cs)))"

definition select_values :: "key_cond list \<Rightarrow> int option \<Rightarrow> sql_value list" where
  "select_values cs lim = map cond_value cs @ (case lim of None \<Rightarrow> [] | Some n \<Rightarrow> [SInt n])"

fun holds :: "(string \<Rightarrow> string \<Rightarrow> bool) \<Rightarrow> key_cond \<Rightarrow> string \<Rightarrow> bool" where
  "holds like (KLike p) k = like p k"
| "holds like (KAfter a) k = (a < k)"

text \<open>A statement that changes the table and reports how many rows it changed.\<close>

definition executes ::
  "('d \<Rightarrow> bool) \<Rightarrow> ('d \<Rightarrow> (string \<rightharpoonup> string)) \<Rightarrow> 'd \<Rightarrow> int \<Rightarrow> (string \<rightharpoonup> string) \<Rightarrow> (int result, 'd) outcome \<Rightarrow> bool" where
  "executes I A d n m r \<longleftrightarrow>
     (case r of
        (Inl e, d') \<Rightarrow> I d' \<and> A d' = A d \<and> db_error e
      | (Inr c, d') \<Rightarrow> I d' \<and> A d' = m \<and> c = Inr n)"

definition sql_law ::
  "'d StoreSQL \<Rightarrow> (string \<Rightarrow> string \<Rightarrow> bool) \<Rightarrow> ('d \<Rightarrow> bool) \<Rightarrow> ('d \<Rightarrow> (string \<rightharpoonup> string)) \<Rightarrow> bool" where
  "sql_law s like I A \<longleftrightarrow>
     (\<forall>d. I d \<longrightarrow> finite (dom (A d)) \<and>
        (\<forall>k. case dbQueryRow (sqlDB s) (''SELECT value FROM kv_store WHERE key = '' @ ph s 1) [SStr k] d of
           Inl e \<Rightarrow> if e = ErrNoRows (sqlDB s) then A d k = None else db_error e
         | Inr v \<Rightarrow> A d k = Some v) \<and>
        (\<forall>k v. executes I A d 1 ((A d)(k \<mapsto> v)) (dbExec (sqlDB s)
           (''INSERT INTO kv_store (key, value) VALUES ('' @ ph s 1 @ '', '' @ ph s 2 @
              '') ON CONFLICT(key) DO UPDATE SET value = excluded.value'') [SStr k, SStr v] d)) \<and>
        (\<forall>k v. executes I A d (if A d k = None then 1 else 0) (if A d k = None then (A d)(k \<mapsto> v) else A d) (dbExec (sqlDB s)
           (''INSERT INTO kv_store (key, value) VALUES ('' @ ph s 1 @ '', '' @ ph s 2 @ '') ON CONFLICT (key) DO NOTHING'')
           [SStr k, SStr v] d)) \<and>
        (\<forall>k. executes I A d (if A d k = None then 0 else 1) ((A d)(k := None)) (dbExec (sqlDB s)
           (''DELETE FROM kv_store WHERE key = '' @ ph s 1) [SStr k] d)) \<and>
        executes I A d (int (card (dom (A d)))) Map.empty (dbExec (sqlDB s) ''DELETE FROM kv_store'' [] d) \<and>
        (\<forall>cs lim. yields (map (\<lambda>k. (k, the (A d k)))
             ((case lim of None \<Rightarrow> id | Some n \<Rightarrow> take (nat n)) (sorted_list_of_set {k \<in> dom (A d). list_all (\<lambda>c. holds like c k) cs})))
           (dbQuery (sqlDB s) (select_text s cs lim) (select_values cs lim) d)))"

text \<open>The prefixes that contain nothing special for \<open>LIKE\<close>.\<close>

definition plain :: "(string \<Rightarrow> string \<Rightarrow> bool) \<Rightarrow> string \<Rightarrow> bool" where
  "plain like p \<longleftrightarrow> (\<forall>k. like (p @ ''%'') k \<longleftrightarrow> prefix p k)"

section \<open>The listing\<close>

definition list_conds :: "ListArgs \<Rightarrow> key_cond list" where
  "list_conds a = (if Prefix a \<noteq> [] then [KLike (Prefix a @ ''%'')] else []) @ (if StartAfter a \<noteq> [] then [KAfter (StartAfter a)] else [])"

definition list_lim :: "ListArgs \<Rightarrow> int option" where
  "list_lim a = (if Limit a > 0 then Some (Limit a) else None)"

lemma list_query_text: "list_query s a = (select_text s (list_conds a) (list_lim a), select_values (list_conds a) (list_lim a))"
  by (simp add: list_query_def select_text_def select_values_def list_conds_def list_lim_def numeral_2_eq_2)

text \<open>The keys that a listing selects.\<close>

definition selects :: "(string \<Rightarrow> string \<Rightarrow> bool) \<Rightarrow> ListArgs \<Rightarrow> string \<Rightarrow> bool" where
  "selects like a k \<longleftrightarrow> (Prefix a = [] \<or> like (Prefix a @ ''%'') k) \<and> (StartAfter a = [] \<or> StartAfter a < k)"

definition sql_listing :: "(string \<Rightarrow> string \<Rightarrow> bool) \<Rightarrow> (string \<rightharpoonup> string) \<Rightarrow> ListArgs \<Rightarrow> KeyValuePair list" where
  "sql_listing like m a = map (entry_at m) (limit_to (Limit a) (sorted_list_of_set {k \<in> dom m. selects like a k}))"

lemma sql_listing_plain:
  assumes "plain like (Prefix a)"
  shows "sql_listing like m a = list_spec m a"
proof -
  have "like (Prefix a @ ''%'') k \<longleftrightarrow> prefix (Prefix a) k" for k using assms unfolding plain_def by blast
  then have "selects like a k \<longleftrightarrow> in_range a k" for k
    by (cases "Prefix a = []") (simp_all add: selects_def in_range_def)
  then show ?thesis by (simp add: sql_listing_def list_spec_def limit_to_map)
qed

section \<open>The operations\<close>

lemma sql_lawD:
  assumes "sql_law s like I A" and "I d"
  shows "case dbQueryRow (sqlDB s) (''SELECT value FROM kv_store WHERE key = '' @ ph s 1) [SStr k] d of
        Inl e \<Rightarrow> if e = ErrNoRows (sqlDB s) then A d k = None else db_error e
      | Inr v \<Rightarrow> A d k = Some v"
    and "yields (map (\<lambda>k. (k, the (A d k)))
        ((case lim of None \<Rightarrow> id | Some n \<Rightarrow> take (nat n)) (sorted_list_of_set {k \<in> dom (A d). list_all (\<lambda>c. holds like c k) cs})))
      (dbQuery (sqlDB s) (select_text s cs lim) (select_values cs lim) d)"
  using assms unfolding sql_law_def by (simp_all del: append.simps)

lemma sqlGet_serves:
  assumes "sql_law s like I A" and "I d"
  shows "serves I A d (sqlGet s k d) (case A d k of None \<Rightarrow> Inl ErrNotFound | Some v \<Rightarrow> Inr v) (A d)"
  using sql_lawD(1) [OF assms, of k] assms(2)
  by (auto simp: sqlGet_def serves_def simp del: append.simps split: sum.splits if_splits option.splits)

lemma executes_serves:
  assumes "executes I A d n m r"
  shows "serves I A d (case r of (Inl e, d) \<Rightarrow> (Inl e, d) | (Inr _, d) \<Rightarrow> (Inr (), d)) (Inr ()) m"
    and "serves I A d (case r of (Inl e, d) \<Rightarrow> (Inl e, d) | (Inr (Inl e), d) \<Rightarrow> (Inl e, d) | (Inr (Inr c), d) \<Rightarrow> (Inr (c = 1), d)) (Inr (n = 1)) m"
    and "serves I A d (case r of (Inl e, d) \<Rightarrow> (Inl e, d) | (Inr (Inl e), d) \<Rightarrow> (Inl e, d)
        | (Inr (Inr c), d) \<Rightarrow> if c = 0 then (Inl ErrNotFound, d) else (Inr (), d)) (if n = 0 then Inl ErrNotFound else Inr ()) m"
  using assms by (auto simp: executes_def serves_def split: prod.splits sum.splits)

lemma sql_executes:
  assumes "sql_law s like I A" and "I d"
  shows "executes I A d 1 ((A d)(k \<mapsto> v)) (dbExec (sqlDB s)
       (''INSERT INTO kv_store (key, value) VALUES ('' @ ph s 1 @ '', '' @ ph s 2 @
          '') ON CONFLICT(key) DO UPDATE SET value = excluded.value'') [SStr k, SStr v] d)"
    and "executes I A d (if A d k = None then 1 else 0) (if A d k = None then (A d)(k \<mapsto> v) else A d) (dbExec (sqlDB s)
       (''INSERT INTO kv_store (key, value) VALUES ('' @ ph s 1 @ '', '' @ ph s 2 @ '') ON CONFLICT (key) DO NOTHING'')
       [SStr k, SStr v] d)"
    and "executes I A d (if A d k = None then 0 else 1) ((A d)(k := None)) (dbExec (sqlDB s)
       (''DELETE FROM kv_store WHERE key = '' @ ph s 1) [SStr k] d)"
    and "executes I A d (int (card (dom (A d)))) Map.empty (dbExec (sqlDB s) ''DELETE FROM kv_store'' [] d)"
  using assms unfolding sql_law_def by (simp_all del: append.simps)

lemma sqlSet_serves:
  assumes "sql_law s like I A" and "I d"
  shows "serves I A d (sqlSet s k v d) (Inr ()) ((A d)(k \<mapsto> v))"
  unfolding sqlSet_def by (rule executes_serves(1) [OF sql_executes(1) [OF assms]])

lemma sqlSetIfNotExists_serves:
  assumes "sql_law s like I A" and "I d"
  shows "serves I A d (sqlSetIfNotExists s k v d) (Inr (A d k = None)) (if A d k = None then (A d)(k \<mapsto> v) else A d)"
proof -
  have eq: "((if A d k = None then 1 else 0) = (1 :: int)) = (A d k = None)" by simp
  show ?thesis unfolding sqlSetIfNotExists_def by (rule executes_serves(2) [OF sql_executes(2) [OF assms, of k v], unfolded eq])
qed

lemma sqlDelete_serves:
  assumes "sql_law s like I A" and "I d"
  shows "serves I A d (sqlDelete s k d) (if A d k = None then Inl ErrNotFound else Inr ()) ((A d)(k := None))"
proof -
  have eq: "((if A d k = None then 0 else 1) = (0 :: int)) = (A d k = None)" by simp
  show ?thesis unfolding sqlDelete_def by (rule executes_serves(3) [OF sql_executes(3) [OF assms, of k], unfolded eq])
qed

lemma sqlList_serves:
  assumes "sql_law s like I A" and "I d"
  shows "serves I A d (sqlList s a d) (Inr (sql_listing like (A d) a)) (A d)"
proof -
  let ?ks = "limit_to (Limit a) (sorted_list_of_set {k \<in> dom (A d). selects like a k})"
  have "list_all (\<lambda>c. holds like c k) (list_conds a) \<longleftrightarrow> selects like a k" for k
    by (simp add: list_conds_def selects_def)
  then have "yields (map (\<lambda>k. (k, the (A d k))) ?ks)
      (dbQuery (sqlDB s) (select_text s (list_conds a) (list_lim a)) (select_values (list_conds a) (list_lim a)) d)"
    using sql_lawD(2) [OF assms, of "list_lim a" "list_conds a"] by (simp add: limit_to_def list_lim_def split: if_splits)
  from read_rows_serves [where I = I and d = d and A = A, OF this assms(2), of row_pair] show ?thesis
    by (simp add: sqlList_def list_query_text sql_listing_def row_pair_def entry_at_def [abs_def] comp_def)
qed

lemma sqlClear_serves:
  assumes "sql_law s like I A" and "I d"
  shows "serves I A d (sqlClear s d) (Inr ()) Map.empty"
  unfolding sqlClear_def by (rule executes_serves(1) [OF sql_executes(4) [OF assms]])

section \<open>A concrete database\<close>

text \<open>\<open>LIKE\<close> as the standard has it, on bytes: a percent sign matches any text, an underscore one
  byte, every other byte itself.\<close>

fun std_like :: "string \<Rightarrow> string \<Rightarrow> bool" where
  "std_like [] k = (k = [])"
| "std_like (c # p) k =
     (if c = CHR ''%'' then list_ex (\<lambda>i. std_like p (drop i k)) [0..<Suc (length k)]
      else k \<noteq> [] \<and> (c = CHR ''_'' \<or> c = hd k) \<and> std_like p (tl k))"

lemma std_like_any: "std_like ''%'' k"
  by (auto simp: list_ex_iff intro!: bexI [of _ "length k"])

lemma plain_std_like: "CHR ''%'' \<notin> set p \<Longrightarrow> CHR ''_'' \<notin> set p \<Longrightarrow> plain std_like p"
  unfolding plain_def
proof (induction p)
  case Nil
  then show ?case using std_like_any by simp
next
  case (Cons c p)
  have IH: "std_like (p @ ''%'') k = prefix p k" for k using Cons by simp
  have "c \<noteq> CHR ''%'' \<and> c \<noteq> CHR ''_''" using Cons.prems by auto
  then have "std_like ((c # p) @ ''%'') k = prefix (c # p) k" for k by (cases k) (auto simp: IH)
  then show ?case by blast
qed

text \<open>A database that understands the statements of the backend with question marks.  The
  conditions of a selection are read from its text, one for each value.\<close>

fun toy_conds :: "string \<Rightarrow> sql_value list \<Rightarrow> key_cond list" where
  "toy_conds t (SStr v # vs) =
     (let t = (if prefix '' WHERE '' t then drop 7 t else drop 5 t)
      in if prefix ''key LIKE ?'' t then KLike v # toy_conds (drop 10 t) vs else KAfter v # toy_conds (drop 7 t) vs)"
| "toy_conds t _ = []"

fun toy_lim :: "sql_value list \<Rightarrow> int option" where
  "toy_lim [] = None"
| "toy_lim (SInt n # vs) = Some n"
| "toy_lim (SStr _ # vs) = toy_lim vs"

definition toyDB :: "StoreMemory sqldb" where
  "toyDB =
     \<lparr>dbExec = (\<lambda>q vs d. case vs of
        [SStr k, SStr v] \<Rightarrow>
          (if last q = CHR ''e'' \<or> mem_abs d k = None then (Inr (Inr 1), snd (memSet k v d)) else (Inr (Inr 0), d))
      | [SStr k] \<Rightarrow> (Inr (Inr (if mem_abs d k = None then 0 else 1)), snd (memDelete k d))
      | _ \<Rightarrow> (Inr (Inr (int (card (dom (mem_abs d))))), snd (memClear d))),
      dbQueryRow = (\<lambda>q vs d. case vs of
        [SStr k] \<Rightarrow> (case mem_abs d k of None \<Rightarrow> Inl (Errorf ''no rows'') | Some v \<Rightarrow> Inr v)
      | _ \<Rightarrow> Inl (Errorf ''syntax'')),
      dbQuery = (\<lambda>q vs d. Inr (map (\<lambda>k. Inr (k, the (mem_abs d k)))
        ((case toy_lim vs of None \<Rightarrow> id | Some n \<Rightarrow> take (nat n))
          (sorted_list_of_set {k \<in> dom (mem_abs d). list_all (\<lambda>c. holds std_like c k) (toy_conds (drop 31 q) vs)})), None)),
      sqlDbClose = (\<lambda>d. (Inr (), d)), ErrNoRows = Errorf ''no rows''\<rparr>"

definition toySQL :: "StoreMemory StoreSQL" where
  "toySQL = \<lparr>sqlDB = toyDB, placeholderStyle = QuestionMark\<rparr>"

lemma ph_toy: "ph toySQL n = ''?''"
  by (simp add: ph_def toySQL_def)

lemma toy_lim_values: "toy_lim (select_values cs lim) = lim"
proof (induction cs)
  case (Cons c cs)
  then show ?case by (cases c) (simp_all add: select_values_def)
qed (simp add: select_values_def split: option.split)

lemma toy_conds_and: "toy_conds (and_text toySQL n cs @ r) (select_values cs lim) = cs"
proof (induction cs arbitrary: n)
  case (Cons c cs)
  then show ?case by (cases c) (simp_all add: select_values_def ph_toy)
qed (simp add: select_values_def split: option.split)

lemma toy_conds_where: "toy_conds (where_text toySQL cs @ r) (select_values cs lim) = cs"
proof (cases cs)
  case (Cons c cs')
  then show ?thesis using toy_conds_and [of 2 cs' r lim] by (cases c) (simp_all add: select_values_def ph_toy)
qed (simp add: select_values_def split: option.split)

lemma toy_conds_text: "toy_conds (drop 31 (select_text toySQL cs lim)) (select_values cs lim) = cs"
  using toy_conds_where [of cs _ lim] by (simp add: select_text_def)

lemma toy_sql_law: "sql_law toySQL std_like mem_inv mem_abs"
proof -
  have upd: "mem_inv (snd (memSet k v d)) \<and> mem_abs (snd (memSet k v d)) = (mem_abs d)(k \<mapsto> v)" if "mem_inv d" for k v d
    using that mem.set_inv [of d k v] mem.set_abs [of d k v] by (simp add: memStore_def)
  have del: "mem_inv (snd (memDelete k d)) \<and> mem_abs (snd (memDelete k d)) = (mem_abs d)(k := None)" if "mem_inv d" for k d
    using that mem.delete_inv [of d k] mem.delete_abs [of d k] by (simp add: memStore_def)
  have clear: "mem_inv (snd (memClear d)) \<and> mem_abs (snd (memClear d)) = Map.empty" for d
    by (simp add: memClear_def mem_inv_def mem_abs_def)
  have db: "sqlDB toySQL = toyDB" by (simp add: toySQL_def)
  show ?thesis
    unfolding sql_law_def db ph_toy
    by (auto simp: toyDB_def mem_abs_finite executes_def upd del clear yields_def toy_conds_text toy_lim_values split: option.split)
qed

lemma toy_list_returns: "\<exists>xs. sqlList toySQL a d = (Inr xs, d)"
proof -
  obtain xs where "dbQuery (sqlDB toySQL) (fst (list_query toySQL a)) (snd (list_query toySQL a)) d = Inr (map Inr xs, None)"
    by (fastforce simp: toySQL_def toyDB_def intro: that [of "map (\<lambda>k. (k, the (mem_abs d k))) _", unfolded map_map comp_def])
  then show ?thesis by (simp add: sqlList_def read_rows_def collect_rows_ok split_beta)
qed

section \<open>Properties\<close>



text \<open>With a wildcard in the prefix the listing has keys without the prefix.  This is the prefix of
  the queue of the engine, and a view entry of a key that ends in \<open>queue\<close>.\<close>

theorem sql_wildcard:
  "let d = \<lparr>data = [(''%sync%view%queue%1'', ''1'')]\<rparr>; a = \<lparr>Prefix = ''%sync%queue%'', StartAfter = [], Limit = 0\<rparr>
   in sqlList toySQL a d = (Inr [\<lparr>kvKey = ''%sync%view%queue%1'', kvValue = ''1''\<rparr>], d) \<and> list_spec (mem_abs d) a = []"
proof -
  let ?d = "\<lparr>data = [(''%sync%view%queue%1'', ''1'')]\<rparr>" and ?a = "\<lparr>Prefix = ''%sync%queue%'', StartAfter = [], Limit = 0\<rparr>"
  let ?k = "''%sync%view%queue%1''"
  have m: "mem_abs ?d = [?k \<mapsto> ''1'']" by (simp add: mem_abs_def)
  have like: "std_like (''%sync%queue%'' @ ''%'') ?k" by code_simp
  have "{k \<in> dom (mem_abs ?d). selects std_like ?a k} = {?k}" unfolding m selects_def using like by auto
  then have "sql_listing std_like (mem_abs ?d) ?a = [\<lparr>kvKey = ?k, kvValue = ''1''\<rparr>]"
    by (simp add: sql_listing_def limit_to_def entry_at_def m)
  moreover have "{k \<in> dom (mem_abs ?d). in_range ?a k} = {}" unfolding m in_range_def by auto
  then have "list_spec (mem_abs ?d) ?a = []" unfolding list_spec_def by (simp only: sorted_list_of_set_empty list.map limit_to_def) simp
  ultimately show ?thesis using sqlList_serves [OF toy_sql_law, of ?d ?a] toy_list_returns [of ?a ?d]
    by (auto simp: serves_def Let_def mem_inv_def prod_eq_iff)
qed

end
