(* ===== verification/Spec2Isabelle.thy ===== *)
theory Spec2Isabelle
  imports Lifecycle Cache Collection Relay Server Client Ephemeral Messages Encrypted Blobs Badger
    Conformance Connections S3 Redis Mongo Sql
begin

text \<open>
  Verification of \<^bold>\<open>store.md\<close>, a Go key-value library with an offline-first sync engine.

  \<^bold>\<open>The program.\<close>  A \<open>Store\<close> (\<open>src/main.go\<close>) is a map from byte strings to byte strings with
  ordered, paged listing.  Backends implement it; the read cache and the typed collections
  wrap one.  The sync engine \<open>StoreSync\<close> (\<open>src/sync/core\<close>) keeps multi-version data in a store:
  every write adds a value, a view entry and a queue entry, the newest version of a key wins at
  read time, and peers exchange windows of the queue.  Clients (\<open>src/sync/client\<close>) drive an
  engine over connections, servers (\<open>src/sync/server\<close>) answer them, either with an engine of
  their own or as a store-and-forward relay (\<open>InboxServer\<close>).  The message and ephemeral layers
  (\<open>src/sync/message\<close>, \<open>src/sync/ephemeral\<close>) are built on the hooks and listeners of the
  engine.  The directory \<open>src/store\<close> is a second copy of the same sources; the development
  refers to the first.

  \<^bold>\<open>How code becomes definitions.\<close>  A struct is a record with the fields of the struct, a
  method is a function from the state to its Go result and the new state, an error is a value
  of type \<open>error\<close> (left injection of a sum), and a panic is an error or a flag.  Go strings are
  byte strings.  64-bit times wrap through \<open>i64\<close>.  What code reads from its environment is
  explicit: \<open>clock\<close> and \<open>uuids\<close> are the sequences that \<open>time.Now\<close> and \<open>uuid.New\<close> return; the
  results of dials, network writes and reads are arguments.  Callbacks are functions on their
  captured variables (\<open>hookState\<close>).  Concurrent code is cut at its critical sections into
  steps; interleavings are sequences of steps.

  \<^bold>\<open>Theories.\<close>
  \<^item> \<open>Prelude\<close>: errors, results, decimal printing, wrap-around, lemmas on byte strings.
  \<^item> \<open>Store\<close>: the interface of \<open>src/main.go\<close> as a record of methods; its contract as the
    locales \<open>fallible_store\<close> and \<open>kv_store\<close>; \<open>list_spec\<close>, the reference meaning of \<open>List\<close>.
    \<open>Paging\<close>: the loop over pages that every client of \<open>List\<close> uses.
  \<^item> \<open>Memory\<close>: \<open>src/backend/memory\<close>; the interpretation \<open>mem\<close> of \<open>kv_store\<close>.
  \<^item> \<open>Adapter\<close>: what the backends over databases share; how their operations give the contract.
  \<^item> \<open>Ordered\<close>, \<open>Bolt\<close>, \<open>Badger\<close>: \<open>src/backend/bbolt\<close> and \<open>src/backend/badger\<close> over the databases as
    parameters; the bbolt backend meets \<open>fallible_store\<close>.
  \<^item> \<open>S3\<close>, \<open>Redis\<close>: \<open>src/backend/s3\<close> and \<open>src/backend/redis\<close> over the services as parameters, with
    their documented laws; when a conditional write creates a key, and what a listing returns.
  \<^item> \<open>Mongo\<close>, \<open>Sql\<close>: \<open>src/backend/mongodb\<close> and \<open>src/backend/sql\<close>, with the filters and the statements
    they build; both meet the contract, the SQL backend for prefixes without wildcards.
  \<^item> \<open>Conformance\<close>: the test suites of \<open>src/testing.go\<close>; every store that meets the contract
    passes them (the locale \<open>clearable_store\<close> adds \<open>Clear\<close> to it).
  \<^item> \<open>Json\<close>, \<open>Items\<close>, \<open>Wire\<close>: the encodings; printing then parsing gives the value back
    (\<open>jparse_jprint\<close>), and so do items, payloads, protocol messages and envelopes.
  \<^item> \<open>Keys\<close>: the key scheme of the engine, its injectivity and its order.
  \<^item> \<open>Core\<close>: every operation of \<open>StoreSync\<close>.  The proofs over it, all for an arbitrary lawful
    store: \<open>View\<close> (reading), \<open>Write\<close> (\<open>setItem\<close> is a last-writer-wins merge), \<open>Engine\<close>
    (\<open>Get\<close>, \<open>Set\<close>, \<open>Delete\<close>, \<open>SetIfNotExists\<close>), \<open>Replication\<close> (\<open>SyncIn\<close>, convergence),
    \<open>Outbound\<close> (\<open>SyncOut\<close>, cursors, nothing lost), \<open>Listing\<close> (\<open>List\<close>, \<open>ListItems\<close>), \<open>Collect\<close>
    (garbage collection is invisible), \<open>Lifecycle\<close> (the step relation of an engine and what
    holds in every reachable state).
  \<^item> \<open>Cache\<close>: \<open>src/sync/cache\<close>; transparent in any sequence of calls, bounded, and the race
    between a read and a write.
  \<^item> \<open>Collection\<close>: \<open>src/db/collection\<close>; documents read back, deletion, listing.
  \<^item> \<open>Times\<close>, \<open>Blobs\<close>: \<open>src/blobstore\<close> and \<open>src/imagestore\<close>; objects read back, listing.
  \<^item> \<open>Admission\<close>, \<open>Server\<close>: \<open>src/sync/server/main.go\<close> and the transports; slots, rate limit,
    authorizers, the request pipeline.  \<open>Inbox\<close>, \<open>Relay\<close>: \<open>src/sync/server/inbox.go\<close>; order
    and completeness of delivery, clean-up.
  \<^item> \<open>Client\<close>: \<open>src/sync/client\<close>; connections, reconnection, the sync protocol, the inbox client.
    \<open>Connections\<close>: HTTP polling and event streams; what a stream delivers, and what a failed
    request loses.
  \<^item> \<open>Ephemeral\<close>: \<open>src/sync/ephemeral\<close>; never stored, handled once, targeted.
  \<^item> \<open>Messages\<close>: \<open>src/sync/message\<close>; a request is answered.
  \<^item> \<open>Base64\<close>, \<open>Signing\<close>, \<open>Encrypted\<close>: \<open>src/sync/encrypted\<close> and \<open>src/helpers/encryption\<close>; signed
    items are accepted by peers that trust the key, encrypted payloads are decrypted to what was
    sent, and where the checks fall short.  Ed25519 and NaCl are parameters.

  \<^bold>\<open>Loops.\<close>  Loops over a list or slice are structural recursion.  The loops over pages
  (\<open>resolve_loop\<close>, \<open>gc_queue\<close>, \<open>cleanup_loop\<close>, the scans of \<open>Redis\<close>) and the re-entrant listener (\<open>drain\<close>) end only
  when the store answers lawfully, so they are partial functions into \<open>option\<close>; the properties
  about them prove that they return (every page moves the cursor forward through a finite
  content; a response triggers no further message).  No fuel is used in the model.

  \<^bold>\<open>Assumptions that recur.\<close>  \<open>kv_store S I A\<close>: the store meets its documented contract and
  fails only with \<open>ErrNotFound\<close>.  \<open>nul_free\<close>: user keys contain no NUL byte, which separates
  the parts of a view entry.  \<open>utf8_valid\<close>: strings survive JSON.  \<open>fresh_id\<close>, \<open>own\<close>: a UUID
  is not used for two versions.  \<open>steady\<close>, \<open>dated\<close>: clocks do not jump by more than the time
  offset.  Each property states the ones it needs, and its witness satisfies them on a
  concrete engine over the memory backend.

  \<^bold>\<open>Not modelled.\<close>  The IndexedDB backend calls the database of the browser through \<open>syscall/js\<close>,
  callback by callback.  Key generation and derivation call \<open>golang.org/x/crypto\<close>.  WebSocket and browser
  connections, WebSocket upgrades, listening and shutdown are calls of network libraries.  The
  analysis command and the example chat contain no logic of the library.
\<close>

end
